(* ===== verification/Hazelcast_Errors.thy ===== *)
theory Hazelcast_Errors
  imports Main
begin

section \<open>The error classes of the client (src/src/core/HazelcastError.ts)\<close>

text \<open>
  One constructor per class, in the order of the file. \<open>parent_class\<close> is the \<open>extends\<close> clause of the class
  (\<open>None\<close> for \<open>HazelcastError\<close>, which extends \<open>Error\<close>); every constructor sets the prototype of its own class, so
  \<open>instanceof\<close> follows the chain of parents.
\<close>

datatype (plugins only: code) error_class =
    HazelcastError | HazelcastSerializationError | AuthenticationError | ClientNotActiveError
  | ClientNotAllowedInClusterError | ClientOfflineError | InvalidConfigurationError
  | IllegalStateError | StaleSequenceError | TopicOverloadError | IOError | OperationTimeoutError
  | RetryableHazelcastError | TargetNotMemberError | CallerNotMemberError | CancellationError
  | ClassCastError | ClassNotFoundError | ConcurrentModificationError | ConfigMismatchError
  | DistributedObjectDestroyedError | HazelcastInstanceNotActiveError | MemberLeftError
  | PartitionMigratingError | QueryError | TransactionError | TransactionNotActiveError
  | TransactionTimedOutError | SplitBrainProtectionError | RetryableIOError
  | TargetDisconnectedError | UnsupportedOperationError | ConsistencyLostError
  | NoDataMemberInClusterError | StaleTaskIdError | NodeIdOutOfRangeError | ReachedMaxSizeError
  | IndeterminateOperationStateError | ArrayIndexOutOfBoundsError | ArrayStoreError
  | IllegalArgumentError | IndexOutOfBoundsError | InterruptedError | InvalidAddressError
  | NegativeArraySizeError | NoSuchElementError | NullPointerError | SessionExpiredError
  | CPGroupDestroyedError | LockOwnershipLostError | IllegalMonitorStateError
  | WaitKeyCancelledError | LeaderDemotedError | StaleAppendRequestError | CannotReplicateError
  | NotLeaderError | UndefinedErrorCodeError | HazelcastSqlException

definition intermediate_parents :: "(error_class \<times> error_class) list" where
  "intermediate_parents =
     [(TargetNotMemberError, RetryableHazelcastError),
      (CallerNotMemberError, RetryableHazelcastError),
      (CancellationError, IllegalStateError),
      (HazelcastInstanceNotActiveError, IllegalStateError),
      (MemberLeftError, RetryableHazelcastError),
      (PartitionMigratingError, RetryableHazelcastError),
      (SplitBrainProtectionError, TransactionError),
      (RetryableIOError, RetryableHazelcastError),
      (CannotReplicateError, RetryableHazelcastError)]"

definition parent_class :: "error_class \<Rightarrow> error_class option" where
  "parent_class c =
     (if c = HazelcastError then None
      else case map_of intermediate_parents c of Some p \<Rightarrow> Some p | None \<Rightarrow> Some HazelcastError)"

text \<open>
  No class of the file is more than two steps below \<open>HazelcastError\<close>; the walk up the chain is the one of
  \<open>instanceof\<close>, cut at the longest chain.
\<close>

definition ancestors :: "error_class \<Rightarrow> error_class list" where
  "ancestors c =
     c # (case parent_class c of None \<Rightarrow> [] | Some p \<Rightarrow>
       p # (case parent_class p of None \<Rightarrow> [] | Some q \<Rightarrow> q # (case parent_class q of None \<Rightarrow> [] | Some r \<Rightarrow> [r])))"

definition instance_of :: "error_class \<Rightarrow> error_class \<Rightarrow> bool" where
  "instance_of c d \<longleftrightarrow> d \<in> set (ancestors c)"

end
