(* ===== verification/Prelude.thy ===== *)
theory Prelude
  imports Main "HOL-Library.Word" Hazelcast_Errors
begin

section \<open>Shared types, the result monad and list lemmas\<close>

text \<open>
  The vocabulary every component of the development uses: the errors the client and the
  Node.js runtime raise, the result type \<open>'a res\<close> (\<open>Inl\<close> is a raised error), its
  sequencing operator, JavaScript's \<open>Array.prototype.slice\<close>, and the list lemmas the
  component proofs share.
\<close>

named_theorems res_simps \<open>sequencing of fallible computations\<close>
named_theorems buf_simps \<open>lengths and reads of byte buffers\<close>
named_theorems js_simps \<open>JavaScript number operations on words\<close>

type_synonym byte = "8 word"
type_synonym buffer = "byte list"

text \<open>
  Errors as values. \<open>RangeError\<close>, \<open>TypeError\<close> and \<open>AssertionError\<close> are the errors the
  runtime raises; \<open>PlainError\<close> is a \<open>new Error(..)\<close> of the client and
  \<open>HzError\<close> an instance of one of its own classes. \<open>NoReturn\<close> is not an error of
  the program: it is the value of a loop that has not ended within the fuel its model gives it.
\<close>

datatype js_error = RangeError | TypeError | AssertionError | PlainError | HzError error_class | NoReturn

type_synonym 'a res = "js_error + 'a"

fun bindR :: "'a res \<Rightarrow> ('a \<Rightarrow> 'b res) \<Rightarrow> 'b res" where
  "bindR (Inl e) f = Inl e"
| "bindR (Inr x) f = f x"

definition assertR :: "bool \<Rightarrow> 'a res \<Rightarrow> 'a res" where
  "assertR b r = (if b then r else Inl AssertionError)"

definition js_index :: "int \<Rightarrow> int \<Rightarrow> int" where
  "js_index len i = (if i < 0 then max 0 (len + i) else min i len)"

definition js_slice :: "'a list \<Rightarrow> int \<Rightarrow> int \<Rightarrow> 'a list" where
  "js_slice xs s e =
     (let len = int (length xs); s' = nat (js_index len s); e' = nat (js_index len e)
      in take (e' - s') (drop s' xs))"

lemma bindR_Inr_iff [res_simps]:
  "bindR m f = Inr y \<longleftrightarrow> (\<exists>x. m = Inr x \<and> f x = Inr y)"
  by (cases m) auto

lemma bindR_Inl_iff [res_simps]:
  "bindR m f = Inl e \<longleftrightarrow> m = Inl e \<or> (\<exists>x. m = Inr x \<and> f x = Inl e)"
  by (cases m) auto

lemma bindR_assoc: "bindR (bindR m f) g = bindR m (\<lambda>x. bindR (f x) g)"
  by (cases m) auto

lemma bindR_cong [fundef_cong]:
  assumes "m = m'" and "\<And>x. m' = Inr x \<Longrightarrow> f x = f' x"
  shows "bindR m f = bindR m' f'"
  using assms by (cases m') auto

lemma assertR_simps [simp]:
  "assertR True r = r" "assertR False r = Inl AssertionError"
  by (simp_all add: assertR_def)

lemma assertR_Inr_iff [res_simps]: "assertR b r = Inr y \<longleftrightarrow> b \<and> r = Inr y"
  by (simp add: assertR_def)

lemma length_js_slice_le: "length (js_slice xs s e) \<le> length xs"
  by (simp add: js_slice_def Let_def)

text \<open>In range, a slice is the sublist the two positions delimit.\<close>

lemma js_slice_in_range:
  "0 \<le> s \<Longrightarrow> s \<le> e \<Longrightarrow> e \<le> int (length xs) \<Longrightarrow>
     js_slice xs s e = take (nat (e - s)) (drop (nat s) xs)"
  by (simp add: js_slice_def js_index_def Let_def nat_diff_distrib)

lemma js_slice_from: "0 \<le> s \<Longrightarrow> js_slice xs s (int (length xs)) = drop (nat s) xs"
  by (cases "s \<le> int (length xs)") (simp_all add: js_slice_def js_index_def Let_def)

lemma js_slice_upto: "0 \<le> e \<Longrightarrow> js_slice xs 0 e = take (nat e) xs"
  by (simp add: js_slice_def js_index_def Let_def min_def)

lemma take_drop_append3:
  "length xs = n \<Longrightarrow> length ys = m \<Longrightarrow> take m (drop n (xs @ ys @ zs)) = ys"
  by simp

end
