(* ===== verification/Node_Buffer.thy ===== *)
theory Node_Buffer
  imports Prelude
begin

section \<open>The Node.js Buffer operations the client uses\<close>

text \<open>
  A \<open>Buffer\<close> is a list of bytes. The operations below are the documented behaviour of
  Node.js's \<open>Buffer\<close>: an access outside the buffer and a value outside the range of the
  written type raise a \<open>RangeError\<close>, \<open>copy\<close> copies what fits, and the contents of
  \<open>allocUnsafe\<close> are arbitrary (the argument \<open>junk\<close> is the uninitialised memory).
  Numbers are integers; a floating point number is represented by its IEEE bit pattern.
\<close>

definition allocUnsafe :: "(nat \<Rightarrow> byte) \<Rightarrow> int \<Rightarrow> buffer res" where
  "allocUnsafe junk n = (if n < 0 then Inl RangeError else Inr (map junk [0..<nat n]))"

text \<open>Little- and big-endian digits of an integer, \<open>n\<close> bytes of them.\<close>

fun le_bytes :: "nat \<Rightarrow> int \<Rightarrow> byte list" where
  "le_bytes 0 v = []"
| "le_bytes (Suc n) v = word_of_int v # le_bytes n (v div 256)"

fun le_val :: "byte list \<Rightarrow> int" where
  "le_val [] = 0"
| "le_val (b # bs) = uint b + 256 * le_val bs"

definition int_bytes :: "bool \<Rightarrow> nat \<Rightarrow> int \<Rightarrow> byte list" where
  "int_bytes be n v = (if be then rev (le_bytes n v) else le_bytes n v)"

definition uint_val :: "bool \<Rightarrow> byte list \<Rightarrow> int" where
  "uint_val be bs = (if be then le_val (rev bs) else le_val bs)"

definition sint_val :: "bool \<Rightarrow> byte list \<Rightarrow> int" where
  "sint_val be bs =
     (let v = uint_val be bs; m = 256 ^ length bs in if 2 * v < m then v else v - m)"

definition in_uint :: "nat \<Rightarrow> int \<Rightarrow> bool" where
  "in_uint n v \<longleftrightarrow> 0 \<le> v \<and> v < 256 ^ n"

definition in_sint :: "nat \<Rightarrow> int \<Rightarrow> bool" where
  "in_sint n v \<longleftrightarrow> - (256 ^ n) \<le> 2 * v \<and> 2 * v < 256 ^ n"

text \<open>Writing a run of bytes at an offset, and reading one.\<close>

definition buf_put :: "buffer \<Rightarrow> int \<Rightarrow> byte list \<Rightarrow> buffer res" where
  "buf_put b off bs =
     (if 0 \<le> off \<and> off + int (length bs) \<le> int (length b)
      then Inr (take (nat off) b @ bs @ drop (nat off + length bs) b) else Inl RangeError)"

definition buf_get :: "buffer \<Rightarrow> int \<Rightarrow> nat \<Rightarrow> byte list res" where
  "buf_get b off n =
     (if 0 \<le> off \<and> off + int n \<le> int (length b)
      then Inr (take n (drop (nat off) b)) else Inl RangeError)"

definition buf_write_uint :: "bool \<Rightarrow> nat \<Rightarrow> buffer \<Rightarrow> int \<Rightarrow> int \<Rightarrow> buffer res" where
  "buf_write_uint be n b v off =
     (if in_uint n v then buf_put b off (int_bytes be n v) else Inl RangeError)"

definition buf_write_sint :: "bool \<Rightarrow> nat \<Rightarrow> buffer \<Rightarrow> int \<Rightarrow> int \<Rightarrow> buffer res" where
  "buf_write_sint be n b v off =
     (if in_sint n v then buf_put b off (int_bytes be n v) else Inl RangeError)"

definition buf_read_uint :: "bool \<Rightarrow> nat \<Rightarrow> buffer \<Rightarrow> int \<Rightarrow> int res" where
  "buf_read_uint be n b off = bindR (buf_get b off n) (\<lambda>bs. Inr (uint_val be bs))"

definition buf_read_sint :: "bool \<Rightarrow> nat \<Rightarrow> buffer \<Rightarrow> int \<Rightarrow> int res" where
  "buf_read_sint be n b off = bindR (buf_get b off n) (\<lambda>bs. Inr (sint_val be bs))"

text \<open>
  \<open>source.copy(target, targetStart, sourceStart, sourceEnd)\<close>: as many of the selected bytes
  as fit behind \<open>targetStart\<close> are copied; a negative offset raises.
\<close>

definition buf_copy :: "buffer \<Rightarrow> buffer \<Rightarrow> int \<Rightarrow> int \<Rightarrow> int \<Rightarrow> buffer res" where
  "buf_copy src tgt ts ss se =
     (if ts < 0 \<or> ss < 0 \<or> se < 0 then Inl RangeError
      else let sel = take (nat (se - ss)) (drop (nat ss) src);
               bs = take (length tgt - nat ts) sel
           in Inr (take (nat ts) tgt @ bs @ drop (nat ts + length bs) tgt))"

lemma length_le_bytes [simp, buf_simps]: "length (le_bytes n v) = n"
  by (induction n arbitrary: v) auto

lemma length_int_bytes [simp, buf_simps]: "length (int_bytes be n v) = n"
  by (simp add: int_bytes_def)

lemma le_val_bounds: "0 \<le> le_val bs \<and> le_val bs < 256 ^ length bs"
proof (induction bs)
  case (Cons b bs)
  have "uint b < 256" "0 \<le> uint b"
    using uint_lt2p [of b] by simp_all
  with Cons show ?case by auto
qed simp

lemma le_val_le_bytes: "le_val (le_bytes n v) = v mod 256 ^ n"
proof (induction n arbitrary: v)
  case (Suc n)
  have "uint (word_of_int v :: byte) = v mod 256"
    by (simp add: uint_word_of_int)
  with Suc show ?case
    using mod_mult2_eq' [of v 256 "256 ^ n"] by (simp add: zmod_zmult2_eq)
qed simp

lemma le_bytes_le_val: "le_bytes (length bs) (le_val bs) = bs"
proof (induction bs)
  case (Cons b bs)
  have b: "0 \<le> uint b" "uint b < 256"
    using uint_lt2p [of b] by simp_all
  then have "(uint b + 256 * le_val bs) div 256 = le_val bs"
    by simp
  moreover have "(word_of_int (uint b + 256 * le_val bs) :: byte) = b"
    by (rule word_uint_eqI) (use b in \<open>simp add: uint_word_of_int del: of_int_add of_int_mult\<close>)
  ultimately show ?case using Cons by simp
qed simp

lemma uint_val_int_bytes: "uint_val be (int_bytes be n v) = v mod 256 ^ n"
  by (simp add: uint_val_def int_bytes_def le_val_le_bytes)

lemma uint_val_in_range [simp]: "in_uint n v \<Longrightarrow> uint_val be (int_bytes be n v) = v"
  by (simp add: uint_val_int_bytes in_uint_def)

lemma uint_val_bounds: "in_uint (length bs) (uint_val be bs)"
  using le_val_bounds [of bs] le_val_bounds [of "rev bs"]
  by (simp add: uint_val_def in_uint_def)

lemma int_bytes_uint_val [simp]: "int_bytes be (length bs) (uint_val be bs) = bs"
  using le_bytes_le_val [of "rev bs"] by (simp add: int_bytes_def uint_val_def le_bytes_le_val)

lemma sint_val_in_range [simp]:
  assumes "in_sint n v"
  shows "sint_val be (int_bytes be n v) = v"
proof -
  let ?m = "(256 :: int) ^ n"
  have m: "v < ?m" "- ?m \<le> v" and pos: "0 < ?m"
    using assms by (auto simp: in_sint_def)
  show ?thesis
  proof (cases "0 \<le> v")
    case True
    with m assms show ?thesis
      by (simp add: sint_val_def uint_val_int_bytes in_sint_def)
  next
    case False
    then have "(v + ?m) mod ?m = v + ?m"
      using m by (intro mod_pos_pos_trivial) auto
    then have "v mod ?m = v + ?m"
      by (simp only: mod_add_self2)
    with False assms show ?thesis
      by (simp add: sint_val_def uint_val_int_bytes in_sint_def)
  qed
qed

lemma sint_val_bounds: "in_sint (length bs) (sint_val be bs)"
  using uint_val_bounds [of bs be]
  by (auto simp: sint_val_def in_sint_def in_uint_def Let_def)

lemma int_bytes_mod: "int_bytes be n (v mod 256 ^ n) = int_bytes be n v"
  by (metis int_bytes_uint_val length_int_bytes uint_val_int_bytes)

lemma int_bytes_sint_val [simp]: "int_bytes be (length bs) (sint_val be bs) = bs"
proof -
  have "uint_val be bs mod 256 ^ length bs = uint_val be bs"
    using uint_val_bounds [of bs be] by (simp add: in_uint_def)
  then have "sint_val be bs mod 256 ^ length bs = uint_val be bs"
    by (simp add: sint_val_def Let_def minus_mod_self2)
  then show ?thesis
    by (metis int_bytes_mod int_bytes_uint_val)
qed

lemma length_buf_put: "buf_put b off bs = Inr b' \<Longrightarrow> length b' = length b"
  by (auto simp: buf_put_def split: if_splits)

lemma buf_get_put_same:
  "buf_put b off bs = Inr b' \<Longrightarrow> buf_get b' off (length bs) = Inr bs"
  by (auto simp: buf_put_def buf_get_def split: if_splits)

text \<open>A run that ends before, or starts after, the written one is left unchanged.\<close>

lemma buf_get_put_other:
  assumes "buf_put b off bs = Inr b'" and "p + int n \<le> off \<or> off + int (length bs) \<le> p"
  shows "buf_get b' p n = buf_get b p n"
proof -
  have off: "0 \<le> off" "off + int (length bs) \<le> int (length b)"
    and b': "b' = take (nat off) b @ bs @ drop (nat off + length bs) b"
    using assms(1) by (auto simp: buf_put_def split: if_splits)
  have len: "length b' = length b" using assms(1) by (rule length_buf_put)
  show ?thesis
  proof (cases "0 \<le> p \<and> p + int n \<le> int (length b)")
    case True
    define k q where "k = nat off" and "q = nat p"
    with off True have k: "k + length bs \<le> length b" and q: "q + n \<le> length b"
      by auto
    have disj: "q + n \<le> k \<or> k + length bs \<le> q"
      using assms(2) off True by (auto simp: k_def q_def)
    then have "take n (drop q b') = take n (drop q b)"
    proof
      assume "q + n \<le> k"
      with k have "q \<le> k" "n \<le> k - q" "k \<le> length b" by auto
      then show ?thesis by (simp add: b' k_def [symmetric] drop_take)
    next
      assume "k + length bs \<le> q"
      with k show ?thesis by (simp add: b' k_def [symmetric] min_def)
    qed
    with True len show ?thesis by (simp add: buf_get_def q_def)
  next
    case False
    with len show ?thesis by (auto simp: buf_get_def)
  qed
qed

lemma buf_put_append:
  "length a = n \<Longrightarrow> length bs \<le> length r \<Longrightarrow>
     buf_put (a @ r) (int n) bs = Inr (a @ bs @ drop (length bs) r)"
  by (simp add: buf_put_def)

lemma buf_put_run:
  "length old = length bs \<Longrightarrow> int (length a) = p \<Longrightarrow> buf_put (a @ old @ c) p bs = Inr (a @ bs @ c)"
  by (auto simp: buf_put_def)

lemma buf_get_run: "length bs = n \<Longrightarrow> int (length a) = p \<Longrightarrow> buf_get (a @ bs @ c) p n = Inr bs"
  by (auto simp: buf_get_def)

lemma buf_copy_run:
  "length old = length bs \<Longrightarrow> int (length a) = p \<Longrightarrow>
     buf_copy bs (a @ old @ c) p 0 (int (length bs)) = Inr (a @ bs @ c)"
  by (auto simp: buf_copy_def Let_def)

lemma split_run:
  assumes "n \<le> length xs"
  obtains a r where "xs = a @ r" and "length a = n"
  using that [of "take n xs" "drop n xs"] assms by simp

end
