(* ===== verification/BitsUtil.thy ===== *)
theory BitsUtil
  imports Node_Buffer
begin

section \<open>Endianness-aware access to buffers (src/src/util/BitsUtil.ts)\<close>

text \<open>
  The sizes of the wire types and the reads and writes that choose between Node's
  big-endian and little-endian methods. A value of type double or float is its IEEE-754 bit
  pattern (for \<open>writeFloat\<close>, the pattern of the number rounded to single precision).
\<close>

definition BYTE_SIZE_IN_BYTES :: int where "BYTE_SIZE_IN_BYTES = 1"
definition BOOLEAN_SIZE_IN_BYTES :: int where "BOOLEAN_SIZE_IN_BYTES = 1"
definition SHORT_SIZE_IN_BYTES :: int where "SHORT_SIZE_IN_BYTES = 2"
definition CHAR_SIZE_IN_BYTES :: int where "CHAR_SIZE_IN_BYTES = 2"
definition INT_SIZE_IN_BYTES :: int where "INT_SIZE_IN_BYTES = 4"
definition FLOAT_SIZE_IN_BYTES :: int where "FLOAT_SIZE_IN_BYTES = 4"
definition LONG_SIZE_IN_BYTES :: int where "LONG_SIZE_IN_BYTES = 8"
definition DOUBLE_SIZE_IN_BYTES :: int where "DOUBLE_SIZE_IN_BYTES = 8"
definition UUID_SIZE_IN_BYTES :: int where
  "UUID_SIZE_IN_BYTES = BOOLEAN_SIZE_IN_BYTES + 2 * LONG_SIZE_IN_BYTES"
definition LOCAL_DATE_SIZE_IN_BYTES :: int where
  "LOCAL_DATE_SIZE_IN_BYTES = SHORT_SIZE_IN_BYTES + BYTE_SIZE_IN_BYTES * 2"
definition LOCAL_TIME_SIZE_IN_BYTES :: int where
  "LOCAL_TIME_SIZE_IN_BYTES = INT_SIZE_IN_BYTES + BYTE_SIZE_IN_BYTES * 3"
definition LOCAL_DATETIME_SIZE_IN_BYTES :: int where
  "LOCAL_DATETIME_SIZE_IN_BYTES = LOCAL_DATE_SIZE_IN_BYTES + LOCAL_TIME_SIZE_IN_BYTES"
definition OFFSET_DATE_TIME_SIZE_IN_BYTES :: int where
  "OFFSET_DATE_TIME_SIZE_IN_BYTES = LOCAL_DATETIME_SIZE_IN_BYTES + INT_SIZE_IN_BYTES"
definition NULL_ARRAY_LENGTH :: int where "NULL_ARRAY_LENGTH = - 1"

lemmas size_defs = BYTE_SIZE_IN_BYTES_def BOOLEAN_SIZE_IN_BYTES_def SHORT_SIZE_IN_BYTES_def
  CHAR_SIZE_IN_BYTES_def INT_SIZE_IN_BYTES_def FLOAT_SIZE_IN_BYTES_def LONG_SIZE_IN_BYTES_def
  DOUBLE_SIZE_IN_BYTES_def UUID_SIZE_IN_BYTES_def LOCAL_DATE_SIZE_IN_BYTES_def
  LOCAL_TIME_SIZE_IN_BYTES_def LOCAL_DATETIME_SIZE_IN_BYTES_def
  OFFSET_DATE_TIME_SIZE_IN_BYTES_def NULL_ARRAY_LENGTH_def

definition writeUInt32 :: "buffer \<Rightarrow> int \<Rightarrow> int \<Rightarrow> bool \<Rightarrow> buffer res" where
  "writeUInt32 buf pos val isBigEndian =
     (if isBigEndian then buf_write_uint True 4 buf val pos else buf_write_uint False 4 buf val pos)"

definition writeUInt16 :: "buffer \<Rightarrow> int \<Rightarrow> int \<Rightarrow> bool \<Rightarrow> buffer res" where
  "writeUInt16 buf pos val isBigEndian =
     (if isBigEndian then buf_write_uint True 2 buf val pos else buf_write_uint False 2 buf val pos)"

definition writeUInt8 :: "buffer \<Rightarrow> int \<Rightarrow> int \<Rightarrow> buffer res" where
  "writeUInt8 buf pos val = buf_write_uint False 1 buf val pos"

definition writeInt32 :: "buffer \<Rightarrow> int \<Rightarrow> int \<Rightarrow> bool \<Rightarrow> buffer res" where
  "writeInt32 buf pos val isBigEndian =
     (if isBigEndian then buf_write_sint True 4 buf val pos else buf_write_sint False 4 buf val pos)"

definition writeInt16 :: "buffer \<Rightarrow> int \<Rightarrow> int \<Rightarrow> bool \<Rightarrow> buffer res" where
  "writeInt16 buf pos val isBigEndian =
     (if isBigEndian then buf_write_sint True 2 buf val pos else buf_write_sint False 2 buf val pos)"

definition writeInt8 :: "buffer \<Rightarrow> int \<Rightarrow> int \<Rightarrow> buffer res" where
  "writeInt8 buf pos val = buf_write_sint False 1 buf val pos"

definition writeFloat :: "buffer \<Rightarrow> int \<Rightarrow> 32 word \<Rightarrow> bool \<Rightarrow> buffer res" where
  "writeFloat buf pos val isBigEndian =
     (if isBigEndian then buf_put buf pos (int_bytes True 4 (uint val))
      else buf_put buf pos (int_bytes False 4 (uint val)))"

definition writeDouble :: "buffer \<Rightarrow> int \<Rightarrow> 64 word \<Rightarrow> bool \<Rightarrow> buffer res" where
  "writeDouble buf pos val isBigEndian =
     (if isBigEndian then buf_put buf pos (int_bytes True 8 (uint val))
      else buf_put buf pos (int_bytes False 8 (uint val)))"

definition readDouble :: "buffer \<Rightarrow> int \<Rightarrow> bool \<Rightarrow> (64 word) res" where
  "readDouble buf pos isBigEndian =
     (if isBigEndian then bindR (buf_read_uint True 8 buf pos) (\<lambda>v. Inr (word_of_int v))
      else bindR (buf_read_uint False 8 buf pos) (\<lambda>v. Inr (word_of_int v)))"

definition readFloat :: "buffer \<Rightarrow> int \<Rightarrow> bool \<Rightarrow> (32 word) res" where
  "readFloat buf pos isBigEndian =
     (if isBigEndian then bindR (buf_read_uint True 4 buf pos) (\<lambda>v. Inr (word_of_int v))
      else bindR (buf_read_uint False 4 buf pos) (\<lambda>v. Inr (word_of_int v)))"

definition readInt8 :: "buffer \<Rightarrow> int \<Rightarrow> int res" where
  "readInt8 buf pos = buf_read_sint False 1 buf pos"

definition readInt16 :: "buffer \<Rightarrow> int \<Rightarrow> bool \<Rightarrow> int res" where
  "readInt16 buf pos isBigEndian =
     (if isBigEndian then buf_read_sint True 2 buf pos else buf_read_sint False 2 buf pos)"

definition readInt32 :: "buffer \<Rightarrow> int \<Rightarrow> bool \<Rightarrow> int res" where
  "readInt32 buf pos isBigEndian =
     (if isBigEndian then buf_read_sint True 4 buf pos else buf_read_sint False 4 buf pos)"

definition readUInt8 :: "buffer \<Rightarrow> int \<Rightarrow> int res" where
  "readUInt8 buf pos = buf_read_uint False 1 buf pos"

definition readUInt16 :: "buffer \<Rightarrow> int \<Rightarrow> bool \<Rightarrow> int res" where
  "readUInt16 buf pos isBigEndian =
     (if isBigEndian then buf_read_uint True 2 buf pos else buf_read_uint False 2 buf pos)"

definition readUInt32 :: "buffer \<Rightarrow> int \<Rightarrow> bool \<Rightarrow> int res" where
  "readUInt32 buf pos isBigEndian =
     (if isBigEndian then buf_read_uint True 4 buf pos else buf_read_uint False 4 buf pos)"

text \<open>
  Every write is a \<open>buf_put\<close> of the value's bytes, guarded by the range check of its type, and
  every read decodes a \<open>buf_get\<close>: the form the serialization and protocol proofs use.
\<close>

lemma writes_put [buf_simps]:
  "writeUInt32 b p v be = (if in_uint 4 v then buf_put b p (int_bytes be 4 v) else Inl RangeError)"
  "writeUInt16 b p v be = (if in_uint 2 v then buf_put b p (int_bytes be 2 v) else Inl RangeError)"
  "writeUInt8 b p v = (if in_uint 1 v then buf_put b p (int_bytes False 1 v) else Inl RangeError)"
  "writeInt32 b p v be = (if in_sint 4 v then buf_put b p (int_bytes be 4 v) else Inl RangeError)"
  "writeInt16 b p v be = (if in_sint 2 v then buf_put b p (int_bytes be 2 v) else Inl RangeError)"
  "writeInt8 b p v = (if in_sint 1 v then buf_put b p (int_bytes False 1 v) else Inl RangeError)"
  "writeFloat b p f be = buf_put b p (int_bytes be 4 (uint f))"
  "writeDouble b p d be = buf_put b p (int_bytes be 8 (uint d))"
  by (simp_all add: writeUInt32_def writeUInt16_def writeUInt8_def writeInt32_def writeInt16_def
      writeInt8_def writeFloat_def writeDouble_def buf_write_uint_def buf_write_sint_def)

lemma reads_get [buf_simps]:
  "readUInt32 b p be = bindR (buf_get b p 4) (\<lambda>bs. Inr (uint_val be bs))"
  "readUInt16 b p be = bindR (buf_get b p 2) (\<lambda>bs. Inr (uint_val be bs))"
  "readUInt8 b p = bindR (buf_get b p 1) (\<lambda>bs. Inr (uint_val False bs))"
  "readInt32 b p be = bindR (buf_get b p 4) (\<lambda>bs. Inr (sint_val be bs))"
  "readInt16 b p be = bindR (buf_get b p 2) (\<lambda>bs. Inr (sint_val be bs))"
  "readInt8 b p = bindR (buf_get b p 1) (\<lambda>bs. Inr (sint_val False bs))"
  "readFloat b p be = bindR (buf_get b p 4) (\<lambda>bs. Inr (word_of_int (uint_val be bs)))"
  "readDouble b p be = bindR (buf_get b p 8) (\<lambda>bs. Inr (word_of_int (uint_val be bs)))"
  by (simp_all add: readUInt32_def readUInt16_def readUInt8_def readInt32_def readInt16_def
      readInt8_def readFloat_def readDouble_def buf_read_uint_def buf_read_sint_def bindR_assoc)

lemma uint_in_uint [simp]: "in_uint 4 (uint (f :: 32 word))" "in_uint 8 (uint (d :: 64 word))"
  using uint_lt2p [of f] uint_lt2p [of d] by (simp_all add: in_uint_def)

end
