(* ===== verification/Js_Number.thy ===== *)
theory Js_Number
  imports Prelude
begin

section \<open>JavaScript's 32-bit operators\<close>

text \<open>
  A JavaScript number that holds an integer is an \<open>int\<close>; the arithmetic operators are exact
  as long as the result is a safe integer (below \<open>2 ^ 53\<close> in absolute value). The bitwise
  operators convert their operands to 32 bits first (ToInt32 of ECMAScript) and give a signed
  32-bit result; \<open>>>>\<close> gives an unsigned one.
\<close>

unbundle bit_operations_syntax

type_synonym w32 = "32 word"

definition to_int32 :: "int \<Rightarrow> int" where
  "to_int32 x = sint (word_of_int x :: w32)"

definition js_and :: "int \<Rightarrow> int \<Rightarrow> int" where
  "js_and x y = sint ((word_of_int x :: w32) AND word_of_int y)"

definition js_or :: "int \<Rightarrow> int \<Rightarrow> int" where
  "js_or x y = sint ((word_of_int x :: w32) OR word_of_int y)"

definition js_xor :: "int \<Rightarrow> int \<Rightarrow> int" where
  "js_xor x y = sint ((word_of_int x :: w32) XOR word_of_int y)"

definition js_shl :: "int \<Rightarrow> nat \<Rightarrow> int" where
  "js_shl x n = sint (push_bit n (word_of_int x :: w32))"

definition js_ushr :: "int \<Rightarrow> nat \<Rightarrow> int" where
  "js_ushr x n = uint (drop_bit n (word_of_int x :: w32))"

definition safe_int :: "int \<Rightarrow> bool" where
  "safe_int x \<longleftrightarrow> \<bar>x\<bar> < 2 ^ 53"

text \<open>Read back as words, the operators are the word operators.\<close>

lemma of_js_and [js_simps]: "(word_of_int (js_and x y) :: w32) = word_of_int x AND word_of_int y"
  by (simp add: js_and_def)

lemma of_js_or [js_simps]: "(word_of_int (js_or x y) :: w32) = word_of_int x OR word_of_int y"
  by (simp add: js_or_def)

lemma of_js_xor [js_simps]: "(word_of_int (js_xor x y) :: w32) = word_of_int x XOR word_of_int y"
  by (simp add: js_xor_def)

lemma of_js_shl [js_simps]: "(word_of_int (js_shl x n) :: w32) = push_bit n (word_of_int x)"
  by (simp add: js_shl_def)

lemma of_js_ushr [js_simps]: "(word_of_int (js_ushr x n) :: w32) = drop_bit n (word_of_int x)"
  by (simp add: js_ushr_def)

lemma of_to_int32 [js_simps]: "(word_of_int (to_int32 x) :: w32) = word_of_int x"
  by (simp add: to_int32_def)

lemma of_int_add32 [js_simps]: "(word_of_int (x + y) :: w32) = word_of_int x + word_of_int y"
  by simp

lemma of_int_mult32 [js_simps]: "(word_of_int (x * y) :: w32) = word_of_int x * word_of_int y"
  by simp

lemma to_int32_bounds: "- (2 ^ 31) \<le> to_int32 x \<and> to_int32 x < 2 ^ 31"
  using sint_range_size [of "word_of_int x :: w32"] by (simp add: to_int32_def word_size)

lemma to_int32_eq_iff: "to_int32 x = to_int32 y \<longleftrightarrow> (word_of_int x :: w32) = word_of_int y"
  unfolding to_int32_def by (auto dest: signed_word_eqI)

lemma js_ushr_bounds: "0 \<le> js_ushr x n \<and> js_ushr x n < 2 ^ 32"
  using uint_lt2p [of "drop_bit n (word_of_int x :: w32)"] by (simp add: js_ushr_def)

lemma js_and_mask_bounds:
  assumes "m < 31"
  shows "0 \<le> js_and x (2 ^ m - 1) \<and> js_and x (2 ^ m - 1) < 2 ^ m"
proof -
  have w: "(word_of_int x :: w32) AND word_of_int (2 ^ m - 1) = take_bit m (word_of_int x)"
    by (simp add: take_bit_eq_mask mask_eq_exp_minus_1)
  have "sint (take_bit m (word_of_int x :: w32)) = take_bit m (uint (word_of_int x :: w32))"
  proof -
    have "uint (take_bit m (word_of_int x :: w32)) < 2 ^ 31"
    proof -
      have "uint (take_bit m (word_of_int x :: w32)) < 2 ^ m"
        by (simp add: unsigned_take_bit_eq)
      also have "(2 :: int) ^ m \<le> 2 ^ 31" using assms by (intro power_increasing) auto
      finally show ?thesis .
    qed
    then show ?thesis
      using assms by (simp add: sint_uint unsigned_take_bit_eq signed_take_bit_eq_if_positive
          bit_iff_odd signed_take_bit_int_eq_self min_absorb2)
  qed
  then show ?thesis by (simp only: js_and_def w) (simp add: take_bit_nonnegative)
qed

text \<open>On 16-bit flags the operators are those of the integers.\<close>

lemma word_of_flags: "0 \<le> x \<Longrightarrow> x < 2 ^ 16 \<Longrightarrow> uint (word_of_int x :: w32) = x"
  by (simp add: uint_word_of_int)

lemma sint_small: "uint (w :: w32) < 2 ^ 31 \<Longrightarrow> sint w = uint w"
  by (simp add: sint_uint signed_take_bit_int_eq_self_iff order_trans [OF _ uint_ge_0])

lemma js_or_flags:
  assumes "0 \<le> x" "x < 2 ^ 16" "0 \<le> y" "y < 2 ^ 16"
  shows "js_or x y = x OR y" and "0 \<le> x OR y" and "x OR y < 2 ^ 16"
proof -
  show b: "x OR y < 2 ^ 16" and n: "0 \<le> x OR y"
    using assms OR_upper [of x 16 y] by auto
  have "uint (word_of_int x OR word_of_int y :: w32) = x OR y"
    using assms by (simp only: uint_or word_of_flags)
  with b show "js_or x y = x OR y"
    unfolding js_or_def by (subst sint_small) simp_all
qed

lemma js_and_flags:
  assumes "0 \<le> x" "x < 2 ^ 16" "0 \<le> y" "y < 2 ^ 16"
  shows "js_and x y = x AND y"
proof -
  have "x AND y \<le> x" using assms by (simp add: AND_upper1)
  moreover have "uint (word_of_int x AND word_of_int y :: w32) = x AND y"
    using assms by (simp only: uint_and word_of_flags)
  ultimately show ?thesis using assms
    unfolding js_and_def by (subst sint_small) simp_all
qed

end
