(* ===== verification/Murmur.thy ===== *)
theory Murmur
  imports Js_Number Node_Buffer
begin

section \<open>The partition hash: MurmurHash3 (src/src/invocation/Murmur.ts)\<close>

text \<open>
  \<open>murmur\<close> is the code as written: JavaScript numbers, 32-bit multiplication split into two
  16-bit halves, bytes read by index. \<open>murmur3_x86_32\<close> is the published algorithm on 32-bit
  words. The development shows that the two agree on every buffer, that no read is out of
  range and that no intermediate number leaves the range of safe integers.
\<close>

unbundle bit_operations_syntax

subsection \<open>The code\<close>

definition murmur_mul :: "int \<Rightarrow> int \<Rightarrow> int" where
  "murmur_mul x c =
     js_and (js_and x 0xffff * c + js_shl (js_and (js_ushr x 16 * c) 0xffff) 16) 0xffffffff"

definition murmur_rotl :: "int \<Rightarrow> nat \<Rightarrow> int" where
  "murmur_rotl x r = js_or (js_shl x r) (js_ushr x (32 - r))"

definition murmur_k1 :: "int \<Rightarrow> int" where
  "murmur_k1 k1 = murmur_mul (murmur_rotl (murmur_mul k1 0xcc9e2d51) 15) 0x1b873593"

definition murmur_h1 :: "int \<Rightarrow> int \<Rightarrow> int" where
  "murmur_h1 h1 k1 =
     (let h1b = murmur_mul (murmur_rotl (js_xor h1 (murmur_k1 k1)) 13) 5
      in (js_and h1b 0xffff + 0x6b64) + js_shl (js_and (js_ushr h1b 16 + 0xe654) 0xffff) 16)"

function murmur_loop :: "buffer \<Rightarrow> int \<Rightarrow> int \<Rightarrow> int \<Rightarrow> (int \<times> int) res" where
  "murmur_loop key bytes i h1 =
     (if i < bytes then
        bindR (buf_read_uint False 1 key i) (\<lambda>b0.
        bindR (buf_read_uint False 1 key (i + 1)) (\<lambda>b1.
        bindR (buf_read_uint False 1 key (i + 2)) (\<lambda>b2.
        bindR (buf_read_uint False 1 key (i + 3)) (\<lambda>b3.
          let k1 = js_or (js_or (js_or (js_and b0 0xff) (js_shl (js_and b1 0xff) 8))
                     (js_shl (js_and b2 0xff) 16)) (js_shl (js_and b3 0xff) 24)
          in murmur_loop key bytes (i + 4) (murmur_h1 h1 k1)))))
      else Inr (i, h1))"
  by pat_completeness auto
termination
  by (relation "measure (\<lambda>(key, bytes, i, h1). nat (bytes - i))") auto

text \<open>The \<open>switch\<close> on the remainder with its fall-through cases.\<close>

definition murmur_tail1 :: "buffer \<Rightarrow> int \<Rightarrow> int \<Rightarrow> int \<Rightarrow> int res" where
  "murmur_tail1 key i h1 k1 =
     bindR (buf_read_uint False 1 key i) (\<lambda>b0.
       Inr (js_xor h1 (murmur_k1 (js_xor k1 (js_and b0 0xff)))))"

definition murmur_tail2 :: "buffer \<Rightarrow> int \<Rightarrow> int \<Rightarrow> int \<Rightarrow> int res" where
  "murmur_tail2 key i h1 k1 =
     bindR (buf_read_uint False 1 key (i + 1)) (\<lambda>b1.
       murmur_tail1 key i h1 (js_xor k1 (js_shl (js_and b1 0xff) 8)))"

definition murmur_tail :: "buffer \<Rightarrow> int \<Rightarrow> int \<Rightarrow> int \<Rightarrow> int res" where
  "murmur_tail key remainder i h1 =
     (if remainder = 3 then
        bindR (buf_read_uint False 1 key (i + 2)) (\<lambda>b2.
          murmur_tail2 key i h1 (js_xor 0 (js_shl (js_and b2 0xff) 16)))
      else if remainder = 2 then murmur_tail2 key i h1 0
      else if remainder = 1 then murmur_tail1 key i h1 0
      else Inr h1)"

definition murmur_final :: "int \<Rightarrow> int \<Rightarrow> int" where
  "murmur_final h0 len =
     (let h1 = js_xor h0 len;
          h2 = murmur_mul (js_xor h1 (js_ushr h1 16)) 0x85ebca6b;
          h3 = murmur_mul (js_xor h2 (js_ushr h2 13)) 0xc2b2ae35;
          h4 = js_xor h3 (js_ushr h3 16)
      in js_or (js_ushr h4 0) 0)"

definition murmur :: "buffer \<Rightarrow> int res" where
  "murmur key =
     (let len = int (length key); remainder = js_and len 3; bytes = len - remainder
      in bindR (murmur_loop key bytes 0 0x01000193) (\<lambda>(i, h1).
         bindR (murmur_tail key remainder i h1) (\<lambda>h2. Inr (murmur_final h2 len))))"

subsection \<open>The published algorithm\<close>

definition m3_k :: "w32 \<Rightarrow> w32" where
  "m3_k k = word_rotl 15 (k * 0xcc9e2d51) * 0x1b873593"

fun m3_blocks :: "w32 \<Rightarrow> byte list \<Rightarrow> w32" where
  "m3_blocks h (b0 # b1 # b2 # b3 # bs) =
     m3_blocks (word_rotl 13 (h XOR m3_k (word_of_int (le_val [b0, b1, b2, b3]))) * 5 + 0xe6546b64) bs"
| "m3_blocks h [] = h"
| "m3_blocks h bs = h XOR m3_k (word_of_int (le_val bs))"

definition m3_fmix :: "w32 \<Rightarrow> w32" where
  "m3_fmix h =
     (let h1 = (h XOR drop_bit 16 h) * 0x85ebca6b; h2 = (h1 XOR drop_bit 13 h1) * 0xc2b2ae35
      in h2 XOR drop_bit 16 h2)"

definition murmur3_x86_32 :: "w32 \<Rightarrow> byte list \<Rightarrow> w32" where
  "murmur3_x86_32 seed bs = m3_fmix (m3_blocks seed bs XOR of_nat (length bs))"

subsection \<open>The split multiplication is multiplication modulo \<open>2 ^ 32\<close>\<close>

lemma and_ffff: "(x :: w32) AND 0xffff = take_bit 16 x"
  by (simp add: take_bit_eq_mask mask_eq_exp_minus_1)

lemma push16_take16: "push_bit 16 (take_bit 16 (x :: w32)) = push_bit 16 x"
  by (rule bit_word_eqI) (auto simp: bit_simps)

lemma split16: "(x :: w32) = take_bit 16 x + push_bit 16 (drop_bit 16 x)"
  by (metis add.commute bits_ident)

lemma and_ffffffff: "(x :: w32) AND 0xffffffff = x"
proof -
  have "(0xffffffff :: w32) = - 1" by simp
  then show ?thesis by (simp only: and.right_neutral)
qed

lemma uint_drop16: "uint (drop_bit 16 (x :: w32)) < 2 ^ 16"
proof -
  have "uint (drop_bit 16 x) = uint x div 2 ^ 16"
    by (simp add: drop_bit_eq_div uint_div)
  then show ?thesis using uint_lt2p [of x] by simp
qed

lemma push16_mult: "push_bit 16 ((x :: w32) * c) = push_bit 16 x * c"
  by (simp add: push_bit_eq_mult)

lemma murmur_mul_word [js_simps]:
  "(word_of_int (murmur_mul x c) :: w32) = word_of_int x * word_of_int c"
proof -
  let ?x = "word_of_int x :: w32" and ?c = "word_of_int c :: w32"
  have "(word_of_int (murmur_mul x c) :: w32) =
      (take_bit 16 ?x * ?c + push_bit 16 (take_bit 16 (drop_bit 16 ?x * ?c))) AND 0xffffffff"
    by (simp add: murmur_mul_def js_simps and_ffff)
  also have "\<dots> = take_bit 16 ?x * ?c + push_bit 16 (drop_bit 16 ?x) * ?c"
    by (simp only: and_ffffffff push16_take16 push16_mult)
  also have "\<dots> = (take_bit 16 ?x + push_bit 16 (drop_bit 16 ?x)) * ?c"
    by (simp add: distrib_right)
  also have "\<dots> = ?x * ?c"
    by (simp flip: split16)
  finally show ?thesis .
qed

text \<open>No precision is lost: every number the multiplication forms is a safe integer.\<close>

lemma murmur_mul_safe:
  assumes "0 \<le> c" and "c < 2 ^ 32"
  shows "safe_int (js_and x 0xffff * c)" and "safe_int (js_ushr x 16 * c)"
    and "safe_int (js_and x 0xffff * c + js_shl (js_and (js_ushr x 16 * c) 0xffff) 16)"
proof -
  have a: "0 \<le> js_and x 0xffff" "js_and x 0xffff < 2 ^ 16"
    using js_and_mask_bounds [of 16 x] by simp_all
  have u: "0 \<le> js_ushr x 16" "js_ushr x 16 < 2 ^ 16"
    using uint_drop16 [of "word_of_int x"] by (simp_all add: js_ushr_def)
  have m: "0 \<le> y * c \<and> y * c < 2 ^ 48" if "0 \<le> y" "y < 2 ^ 16" for y :: int
    using that assms mult_strict_mono' [of y "2 ^ 16" c "2 ^ 32"] by simp
  have s: "\<bar>js_shl y 16\<bar> \<le> 2 ^ 31" for y
    using sint_range_size [of "push_bit 16 (word_of_int y :: w32)"]
    by (simp add: js_shl_def word_size abs_le_iff)
  show "safe_int (js_and x 0xffff * c)" and "safe_int (js_ushr x 16 * c)"
    using m [OF a] m [OF u] by (simp_all add: safe_int_def)
  show "safe_int (js_and x 0xffff * c + js_shl (js_and (js_ushr x 16 * c) 0xffff) 16)"
    using m [OF a] s [of "js_and (js_ushr x 16 * c) 0xffff"] by (auto simp: safe_int_def abs_le_iff abs_less_iff)
qed

subsection \<open>The code computes MurmurHash3\<close>

lemma rotl_or: "0 < r \<Longrightarrow> r < 32 \<Longrightarrow> push_bit r (x :: w32) OR drop_bit (32 - r) x = word_rotl r x"
proof (rule bit_word_eqI)
  fix n assume r: "0 < r" "r < 32" and "n < LENGTH(32)"
  then have n: "n < 32" by simp
  then have "(n + 32 - r) mod 32 = (if r \<le> n then n - r else n + 32 - r)"
    by (simp add: mod_if)
  moreover have "\<not> bit x (32 - r + n)" if "r \<le> n"
    using that r bit_imp_le_length [of x "32 - r + n"] by auto
  moreover have "32 - r + n = n + 32 - r" using r by simp
  ultimately show "bit (push_bit r x OR drop_bit (32 - r) x) n = bit (word_rotl r x) n"
    using r n by (auto simp: bit_simps bit_word_rotl_iff)
qed

lemma murmur_rotl_word [js_simps]:
  "0 < r \<Longrightarrow> r < 32 \<Longrightarrow> (word_of_int (murmur_rotl x r) :: w32) = word_rotl r (word_of_int x)"
  by (simp add: murmur_rotl_def js_simps rotl_or)

lemma murmur_k1_word [js_simps]: "(word_of_int (murmur_k1 k) :: w32) = m3_k (word_of_int k)"
  by (simp add: murmur_k1_def m3_k_def js_simps)

lemma add_const_split:
  "(take_bit 16 (h :: w32) + 0x6b64) + push_bit 16 (take_bit 16 (drop_bit 16 h + 0xe654)) =
     h + 0xe6546b64"
proof -
  have "(take_bit 16 h + 0x6b64) + push_bit 16 (take_bit 16 (drop_bit 16 h + 0xe654)) =
      (take_bit 16 h + 0x6b64) + (push_bit 16 (drop_bit 16 h) + push_bit 16 0xe654)"
    by (simp only: push16_take16 push_bit_add)
  also have "\<dots> = (take_bit 16 h + push_bit 16 (drop_bit 16 h)) + (0x6b64 + push_bit 16 0xe654)"
    by (simp only: ac_simps)
  also have "\<dots> = h + 0xe6546b64"
    by (simp only: split16 [symmetric]) simp
  finally show ?thesis .
qed

lemma murmur_h1_word [js_simps]:
  "(word_of_int (murmur_h1 h k) :: w32) =
     word_rotl 13 (word_of_int h XOR m3_k (word_of_int k)) * 5 + 0xe6546b64"
  by (simp add: murmur_h1_def Let_def js_simps and_ffff add_const_split del: of_int_add)

text \<open>The little-endian load of up to four bytes.\<close>

lemma le_word_Cons:
  fixes b :: byte
  shows "(word_of_int (le_val (b # bs)) :: w32) = ucast b OR push_bit 8 (word_of_int (le_val bs))"
    and "(word_of_int (le_val (b # bs)) :: w32) = ucast b XOR push_bit 8 (word_of_int (le_val bs))"
proof -
  have e: "(word_of_int (le_val (b # bs)) :: w32) = ucast b + push_bit 8 (word_of_int (le_val bs))"
    by (simp add: push_bit_eq_mult mult.commute)
  have d: "(ucast b :: w32) AND push_bit 8 (word_of_int (le_val bs)) = 0"
    by (rule bit_word_eqI) (auto simp: bit_simps dest: bit_imp_le_length)
  show "(word_of_int (le_val (b # bs)) :: w32) = ucast b OR push_bit 8 (word_of_int (le_val bs))"
    using e d by (simp only: disjunctive_add_eq_or)
  show "(word_of_int (le_val (b # bs)) :: w32) = ucast b XOR push_bit 8 (word_of_int (le_val bs))"
    using e d by (simp only: disjunctive_add_eq_xor)
qed

lemma le_word_single: "(word_of_int (le_val [b]) :: w32) = ucast b"
  by simp

lemma and_ff_byte: "(ucast (b :: byte) :: w32) AND 0xff = ucast b"
proof -
  have "(ucast b :: w32) AND 0xff = take_bit 8 (ucast b)"
    by (simp add: take_bit_eq_mask mask_eq_exp_minus_1)
  also have "\<dots> = ucast b"
    by (rule bit_word_eqI) (auto simp: bit_simps dest: bit_imp_le_length)
  finally show ?thesis .
qed

lemma read_byte:
  assumes "0 \<le> i" and "i < int (length key)"
  shows "buf_read_uint False 1 key i = Inr (uint (key ! nat i))"
proof -
  have "nat i < length key" using assms by linarith
  then have "take 1 (drop (nat i) key) = [key ! nat i]"
    by (simp add: take_Suc_conv_app_nth hd_drop_conv_nth take_Suc)
  with assms show ?thesis
    by (simp add: buf_read_uint_def buf_get_def uint_val_def)
qed

lemma le_word4:
  "(word_of_int (le_val [b0, b1, b2, b3]) :: w32) =
     ucast b0 OR push_bit 8 (ucast b1) OR push_bit 16 (ucast b2) OR push_bit 24 (ucast b3)"
  by (simp only: le_word_Cons(1) [of b0] le_word_Cons(1) [of b1] le_word_Cons(1) [of b2]
      le_word_single push_bit_or push_bit_push_bit or.assoc) simp

lemma murmur_loop_correct:
  assumes "i + 4 * n \<le> length key"
  shows "\<exists>h'. murmur_loop key (int (i + 4 * n)) (int i) h = Inr (int (i + 4 * n), h') \<and>
    m3_blocks (word_of_int h) (drop i key) = m3_blocks (word_of_int h') (drop (i + 4 * n) key)"
  using assms
proof (induction n arbitrary: i h)
  case 0
  show ?case by (subst murmur_loop.simps) simp
next
  case (Suc n)
  let ?b = "\<lambda>j. key ! (i + j)"
  let ?k = "js_or (js_or (js_or (js_and (uint (?b 0)) 0xff) (js_shl (js_and (uint (?b 1)) 0xff) 8))
      (js_shl (js_and (uint (?b 2)) 0xff) 16)) (js_shl (js_and (uint (?b 3)) 0xff) 24)"
  have len: "i + 3 < length key" using Suc.prems by simp
  then have d: "drop i key = ?b 0 # ?b 1 # ?b 2 # ?b 3 # drop (i + 4) key"
    by (simp add: Cons_nth_drop_Suc [symmetric] numeral_eq_Suc)
  have r: "buf_read_uint False 1 key (int i + int j) = Inr (uint (?b j))" if "j < 4" for j
    using that len read_byte [of "int i + int j" key] by (simp add: nat_add_distrib)
  have k: "(word_of_int ?k :: w32) = word_of_int (le_val [?b 0, ?b 1, ?b 2, ?b 3])"
    unfolding le_word4 by (simp add: js_simps and_ff_byte or.assoc)
  have step: "murmur_loop key (int (i + 4 * Suc n)) (int i) h =
      murmur_loop key (int (i + 4 + 4 * n)) (int (i + 4)) (murmur_h1 h ?k)"
    using r [of 0] r [of 1] r [of 2] r [of 3]
    by (subst murmur_loop.simps) (simp add: Let_def add_ac)
  have "m3_blocks (word_of_int h) (drop i key) =
      m3_blocks (word_of_int (murmur_h1 h ?k)) (drop (i + 4) key)"
    by (simp only: d m3_blocks.simps murmur_h1_word k)
  with Suc.IH [of "i + 4" "murmur_h1 h ?k"] Suc.prems show ?case
    unfolding step by (simp add: add_ac)
qed

lemma take_bit_word_of_int: "take_bit 2 (word_of_int k :: w32) = word_of_int (k mod 4)"
proof (rule word_uint_eqI)
  have "take_bit 2 (take_bit 32 k) = take_bit 2 k" by simp
  then have "uint (take_bit 2 (word_of_int k :: w32)) = k mod 4"
    by (simp add: unsigned_take_bit_eq unsigned_of_int) (simp add: take_bit_eq_mod)
  also have "\<dots> = uint (word_of_int (k mod 4) :: w32)"
    using mod_pos_pos_trivial [of "k mod 4" "2 ^ 32"] pos_mod_bound [of 4 k]
    by (simp add: uint_word_of_int)
  finally show "uint (take_bit 2 (word_of_int k :: w32)) = uint (word_of_int (k mod 4) :: w32)" .
qed

lemma js_and_3: "js_and (int n) 3 = int (n mod 4)"
proof -
  have "(word_of_int (int n) :: w32) AND word_of_int 3 = take_bit 2 (word_of_int (int n))"
    by (simp add: take_bit_eq_mask mask_eq_exp_minus_1)
  also have "\<dots> = word_of_int (int n mod 4)"
    by (rule take_bit_word_of_int)
  finally have "js_and (int n) 3 = sint (word_of_int (int n mod 4) :: w32)"
    by (simp only: js_and_def)
  also have "\<dots> = int n mod 4"
    using pos_mod_bound [of 4 "int n"] pos_mod_sign [of 4 "int n"]
    by (subst sint_sbintrunc') (simp_all add: signed_take_bit_int_eq_self)
  finally show ?thesis by (simp add: of_nat_mod)
qed

lemma le_word_tail:
  "(word_of_int (le_val [b0, b1]) :: w32) = push_bit 8 (ucast b1) XOR ucast b0"
  "(word_of_int (le_val [b0, b1, b2]) :: w32) =
     (push_bit 16 (ucast b2) XOR push_bit 8 (ucast b1)) XOR ucast b0"
  by (simp_all only: le_word_Cons(2) [of b0] le_word_Cons(2) [of b1] le_word_single push_bit_xor
      push_bit_push_bit) (simp_all add: ac_simps)

lemma murmur_tail_correct:
  assumes "i + r = length key" and "r < 4"
  shows "\<exists>h'. murmur_tail key (int r) (int i) h = Inr h' \<and>
    (word_of_int h' :: w32) = m3_blocks (word_of_int h) (drop i key)"
proof -
  let ?b = "\<lambda>j. key ! (i + j)"
  have rd: "buf_read_uint False 1 key (int i + int j) = Inr (uint (?b j))" if "j < r" for j
    using that assms read_byte [of "int i + int j" key] by (simp add: nat_add_distrib)
  consider "r = 0" | "r = 1" | "r = 2" | "r = 3" using assms(2) by linarith
  then show ?thesis
  proof cases
    case 1
    with assms show ?thesis by (simp add: murmur_tail_def)
  next
    case 2
    then have d: "drop i key = [?b 0]"
      using assms(1) by (simp add: Cons_nth_drop_Suc [symmetric])
    from 2 show ?thesis
      using rd [of 0] unfolding d
      by (simp add: murmur_tail_def murmur_tail1_def js_simps and_ff_byte)
  next
    case 3
    then have d: "drop i key = [?b 0, ?b 1]"
      using assms(1) by (simp add: Cons_nth_drop_Suc [symmetric])
    from 3 show ?thesis
      using rd [of 0] rd [of 1] unfolding d
      by (simp add: murmur_tail_def murmur_tail2_def murmur_tail1_def js_simps and_ff_byte
          le_word_tail del: le_val.simps)
  next
    case 4
    then have d: "drop i key = [?b 0, ?b 1, ?b 2]"
      using assms(1) by (simp add: Cons_nth_drop_Suc [symmetric] numeral_eq_Suc)
    from 4 show ?thesis
      using rd [of 0] rd [of 1] rd [of 2] unfolding d
      by (simp add: murmur_tail_def murmur_tail2_def murmur_tail1_def js_simps and_ff_byte
          le_word_tail del: le_val.simps)
  qed
qed

lemma murmur_final_correct:
  "murmur_final h (int n) = sint (m3_fmix (word_of_int h XOR of_nat n))"
  by (simp add: murmur_final_def Let_def m3_fmix_def js_or_def js_simps)

lemma murmur_eq: "murmur key = Inr (sint (murmur3_x86_32 0x01000193 key))"
proof -
  define r where "r = length key mod 4"
  define n where "n = length key div 4"
  have len: "4 * n + r = length key" and r: "r < 4"
    by (simp_all add: n_def r_def)
  have rem: "js_and (int (length key)) 3 = int r"
    by (simp add: js_and_3 r_def)
  have bytes: "int (length key) - int r = int (0 + 4 * n)"
    using len by linarith
  obtain h' where loop: "murmur_loop key (int (0 + 4 * n)) (int 0) 0x01000193 = Inr (int (0 + 4 * n), h')"
    and blocks: "m3_blocks 0x01000193 key = m3_blocks (word_of_int h') (drop (4 * n) key)"
    using murmur_loop_correct [of 0 n key "0x01000193"] len by auto
  obtain h2 where tail: "murmur_tail key (int r) (int (0 + 4 * n)) h' = Inr h2"
    and h2: "(word_of_int h2 :: w32) = m3_blocks (word_of_int h') (drop (4 * n) key)"
    using murmur_tail_correct [of "4 * n" r key h'] len r by auto
  show ?thesis
    unfolding murmur_def Let_def rem bytes
    using loop tail by (simp add: murmur_final_correct murmur3_x86_32_def h2 blocks)
qed

text \<open>
  C16. For every buffer, \<open>murmur\<close> returns without reading out of range, and its result is the
  signed reading of MurmurHash3_x86_32 of the buffer with the seed \<open>0x01000193\<close>.
\<close>

theorem murmur_is_murmur3: "murmur key = Inr (sint (murmur3_x86_32 0x01000193 key))"
  by (rule murmur_eq)

end
