(* ===== verification/HeapData.thy ===== *)
theory HeapData
  imports BitsUtil Murmur
begin

section \<open>Serialized objects (src/src/serialization/HeapData.ts)\<close>

text \<open>
  A serialized object is a buffer: four bytes of partition hash, four bytes of type id, then
  the payload. \<open>null\<close> buffers are \<open>None\<close>.
\<close>

definition PARTITION_HASH_OFFSET :: int where "PARTITION_HASH_OFFSET = 0"
definition TYPE_OFFSET :: int where "TYPE_OFFSET = 4"
definition DATA_OFFSET :: int where "DATA_OFFSET = 8"
definition HEAP_DATA_OVERHEAD :: int where "HEAP_DATA_OVERHEAD = DATA_OFFSET"
definition NULL_TYPE_ID :: int where "NULL_TYPE_ID = 0"

lemmas heap_data_offsets = PARTITION_HASH_OFFSET_def TYPE_OFFSET_def DATA_OFFSET_def
  HEAP_DATA_OVERHEAD_def NULL_TYPE_ID_def

record heap_data =
  payload :: "buffer option"

definition HeapData :: "buffer option \<Rightarrow> heap_data res" where
  "HeapData buf =
     (case buf of
        Some b \<Rightarrow> if length b > 0 \<and> int (length b) < HEAP_DATA_OVERHEAD
                  then Inl RangeError else Inr \<lparr>payload = Some b\<rparr>
      | None \<Rightarrow> Inr \<lparr>payload = None\<rparr>)"

definition toBuffer :: "heap_data \<Rightarrow> buffer option" where
  "toBuffer d = payload d"

definition totalSize :: "heap_data \<Rightarrow> int" where
  "totalSize d = (case payload d of None \<Rightarrow> 0 | Some b \<Rightarrow> int (length b))"

definition dataSize :: "heap_data \<Rightarrow> int" where
  "dataSize d = max (totalSize d - HEAP_DATA_OVERHEAD) 0"

definition getType :: "heap_data \<Rightarrow> int res" where
  "getType d =
     (if totalSize d = 0 then Inr NULL_TYPE_ID
      else (case payload d of None \<Rightarrow> Inl TypeError
            | Some b \<Rightarrow> buf_read_sint True 4 b TYPE_OFFSET))"

definition hashCode :: "heap_data \<Rightarrow> int res" where
  "hashCode d =
     (case payload d of None \<Rightarrow> Inl TypeError
      | Some b \<Rightarrow> murmur (js_slice b DATA_OFFSET (int (length b))))"

definition hasPartitionHash :: "heap_data \<Rightarrow> bool res" where
  "hasPartitionHash d =
     (case payload d of None \<Rightarrow> Inr False
      | Some b \<Rightarrow>
          if int (length b) \<ge> HEAP_DATA_OVERHEAD
          then bindR (buf_read_sint True 4 b PARTITION_HASH_OFFSET) (\<lambda>h. Inr (h \<noteq> 0))
          else Inr False)"

definition getPartitionHash :: "heap_data \<Rightarrow> int res" where
  "getPartitionHash d =
     bindR (hasPartitionHash d) (\<lambda>has.
       if has then (case payload d of None \<Rightarrow> Inl TypeError
                    | Some b \<Rightarrow> buf_read_sint True 4 b PARTITION_HASH_OFFSET)
       else hashCode d)"

text \<open>
  \<open>this.payload.compare(other, DATA_OFFSET, other.length, DATA_OFFSET) === 0\<close>: Node compares
  the two selected ranges; an empty range equals an empty range only.
\<close>

definition equals :: "heap_data \<Rightarrow> heap_data \<Rightarrow> bool res" where
  "equals d other =
     (case (payload d, payload other) of
        (Some b, Some b') \<Rightarrow> Inr (drop (nat DATA_OFFSET) b = drop (nat DATA_OFFSET) b')
      | _ \<Rightarrow> Inl TypeError)"

text \<open>
  A datum the serialization service builds: a non-null buffer that is empty or holds at least
  the header.
\<close>

definition heap_data_wf :: "heap_data \<Rightarrow> bool" where
  "heap_data_wf d \<longleftrightarrow>
     (case payload d of None \<Rightarrow> False | Some b \<Rightarrow> b = [] \<or> int (length b) \<ge> HEAP_DATA_OVERHEAD)"

text \<open>What \<open>equals\<close> and \<open>hashCode\<close> see of a datum: the bytes behind the header.\<close>

definition body :: "heap_data \<Rightarrow> byte list" where
  "body d = (case payload d of None \<Rightarrow> [] | Some b \<Rightarrow> drop 8 b)"

definition key_hash :: "byte list \<Rightarrow> int" where
  "key_hash bs = sint (murmur3_x86_32 0x01000193 bs)"

lemma constructor_wf: "HeapData (Some b) = Inr d \<Longrightarrow> heap_data_wf d \<and> payload d = Some b"
  by (auto simp: HeapData_def heap_data_wf_def split: if_splits)

lemma constructor_rejects:
  "0 < length b \<Longrightarrow> length b < 8 \<Longrightarrow> HeapData (Some b) = Inl RangeError"
  by (simp add: HeapData_def heap_data_offsets)

lemma wf_payload: "heap_data_wf d \<Longrightarrow> \<exists>b. payload d = Some b"
  by (auto simp: heap_data_wf_def split: option.splits)

lemma hashCode_body: "payload d \<noteq> None \<Longrightarrow> hashCode d = Inr (key_hash (body d))"
  by (auto simp: hashCode_def body_def key_hash_def heap_data_offsets js_slice_from
      murmur_eq)

lemma equals_body:
  "payload d \<noteq> None \<Longrightarrow> payload d' \<noteq> None \<Longrightarrow> equals d d' = Inr (body d = body d')"
  by (auto simp: equals_def body_def heap_data_offsets)

end
