(* ===== verification/Js_String.thy ===== *)
theory Js_String
  imports Node_Buffer
begin

section \<open>JavaScript strings and their UTF-8 encoding\<close>

text \<open>
  A JavaScript string is a list of UTF-16 code units. \<open>utf8_encode\<close> is what Node writes for
  the encoding 'utf8' (a lone surrogate becomes U+FFFD), \<open>utf8_decode\<close> the decoder of
  \<open>Buffer.toString('utf8')\<close>: the WHATWG algorithm, which replaces each maximal ill-formed
  prefix by U+FFFD. The main lemma: well-formed strings survive the round trip.
\<close>

type_synonym js_char = "16 word"
type_synonym js_string = "js_char list"

definition is_high :: "js_char \<Rightarrow> bool" where
  "is_high u \<longleftrightarrow> 0xD800 \<le> unat u \<and> unat u < 0xDC00"

definition is_low :: "js_char \<Rightarrow> bool" where
  "is_low u \<longleftrightarrow> 0xDC00 \<le> unat u \<and> unat u < 0xE000"

definition unit_scalar :: "js_char \<Rightarrow> nat" where
  "unit_scalar u = (if is_high u \<or> is_low u then 0xFFFD else unat u)"

definition pair_scalar :: "js_char \<Rightarrow> js_char \<Rightarrow> nat" where
  "pair_scalar u v = 0x10000 + (unat u - 0xD800) * 0x400 + (unat v - 0xDC00)"

fun js_scalars :: "js_string \<Rightarrow> nat list" where
  "js_scalars [] = []"
| "js_scalars [u] = [unit_scalar u]"
| "js_scalars (u # v # us) =
     (if is_high u \<and> is_low v then pair_scalar u v # js_scalars us
      else unit_scalar u # js_scalars (v # us))"

definition utf8_scalar :: "nat \<Rightarrow> nat list" where
  "utf8_scalar c =
     (if c < 0x80 then [c]
      else if c < 0x800 then [0xC0 + c div 64, 0x80 + c mod 64]
      else if c < 0x10000 then [0xE0 + c div 4096, 0x80 + c div 64 mod 64, 0x80 + c mod 64]
      else [0xF0 + c div 262144, 0x80 + c div 4096 mod 64, 0x80 + c div 64 mod 64,
            0x80 + c mod 64])"

definition utf8_encode :: "js_string \<Rightarrow> byte list" where
  "utf8_encode s = map of_nat (concat (map utf8_scalar (js_scalars s)))"

definition cont_lo :: "nat \<Rightarrow> nat" where
  "cont_lo b = (if b = 0xE0 then 0xA0 else if b = 0xF0 then 0x90 else 0x80)"

definition cont_hi :: "nat \<Rightarrow> nat" where
  "cont_hi b = (if b = 0xED then 0x9F else if b = 0xF4 then 0x8F else 0xBF)"

function (sequential) utf8_scalars :: "nat list \<Rightarrow> nat list"
  and utf8_cont :: "nat \<Rightarrow> nat \<Rightarrow> nat \<Rightarrow> nat \<Rightarrow> nat list \<Rightarrow> nat list" where
  "utf8_scalars [] = []"
| "utf8_scalars (b # bs) =
     (if b < 0x80 then b # utf8_scalars bs
      else if 0xC2 \<le> b \<and> b \<le> 0xDF then utf8_cont 0 (b - 0xC0) 0x80 0xBF bs
      else if 0xE0 \<le> b \<and> b \<le> 0xEF then utf8_cont 1 (b - 0xE0) (cont_lo b) (cont_hi b) bs
      else if 0xF0 \<le> b \<and> b \<le> 0xF4 then utf8_cont 2 (b - 0xF0) (cont_lo b) (cont_hi b) bs
      else 0xFFFD # utf8_scalars bs)"
| "utf8_cont n cp lo hi [] = [0xFFFD]"
| "utf8_cont n cp lo hi (b # bs) =
     (if lo \<le> b \<and> b \<le> hi then
        (if n = 0 then (cp * 64 + (b - 0x80)) # utf8_scalars bs
         else utf8_cont (n - 1) (cp * 64 + (b - 0x80)) 0x80 0xBF bs)
      else 0xFFFD # utf8_scalars (b # bs))"
  by pat_completeness auto
termination
  by (relation "measure (\<lambda>x. case x of Inl bs \<Rightarrow> 2 * length bs
      | Inr (_, _, _, _, bs) \<Rightarrow> 2 * length bs + 1)") auto

definition scalar_units :: "nat \<Rightarrow> js_string" where
  "scalar_units c =
     (if c < 0x10000 then [of_nat c]
      else [of_nat (0xD800 + (c - 0x10000) div 0x400), of_nat (0xDC00 + (c - 0x10000) mod 0x400)])"

definition utf8_decode :: "byte list \<Rightarrow> js_string" where
  "utf8_decode bs = concat (map scalar_units (utf8_scalars (map unat bs)))"

text \<open>Strings without a lone surrogate.\<close>

fun well_formed_utf16 :: "js_string \<Rightarrow> bool" where
  "well_formed_utf16 [] = True"
| "well_formed_utf16 [u] = (\<not> is_high u \<and> \<not> is_low u)"
| "well_formed_utf16 (u # v # us) =
     (if is_high u then is_low v \<and> well_formed_utf16 us
      else \<not> is_low u \<and> well_formed_utf16 (v # us))"

text \<open>
  \<open>buffer.write(string, offset, length, 'utf8')\<close>: offset and length are checked against the
  buffer, at most \<open>length\<close> bytes are written, and no character is written in part.
\<close>

fun fitting :: "nat \<Rightarrow> nat list list \<Rightarrow> nat list" where
  "fitting n [] = []"
| "fitting n (c # cs) = (if length c \<le> n then c @ fitting (n - length c) cs else [])"

definition buf_write_utf8 :: "buffer \<Rightarrow> js_string \<Rightarrow> int \<Rightarrow> int \<Rightarrow> buffer res" where
  "buf_write_utf8 b s off len =
     (if off < 0 \<or> off > int (length b) \<or> len < 0 \<or> len > int (length b) then Inl RangeError
      else let n = min (nat len) (length b - nat off);
               bs = map of_nat (fitting n (map utf8_scalar (js_scalars s)))
           in buf_put b off bs)"

subsection \<open>Round trip\<close>

definition scalar_value :: "nat \<Rightarrow> bool" where
  "scalar_value c \<longleftrightarrow> c < 0x110000 \<and> (c < 0xD800 \<or> 0xE000 \<le> c)"

declare utf8_scalars.simps(2) [simp del] utf8_cont.simps(2) [simp del]

lemma utf8_cont_steps:
  "lo \<le> b \<Longrightarrow> b \<le> hi \<Longrightarrow> utf8_cont 0 cp lo hi (b # bs) = (cp * 64 + (b - 0x80)) # utf8_scalars bs"
  "lo \<le> b \<Longrightarrow> b \<le> hi \<Longrightarrow>
     utf8_cont (Suc 0) cp lo hi (b # bs) = utf8_cont 0 (cp * 64 + (b - 0x80)) 0x80 0xBF bs"
  "lo \<le> b \<Longrightarrow> b \<le> hi \<Longrightarrow>
     utf8_cont 2 cp lo hi (b # bs) = utf8_cont 1 (cp * 64 + (b - 0x80)) 0x80 0xBF bs"
  by (simp_all add: utf8_cont.simps(2))

lemma utf8_scalars_scalar:
  assumes "scalar_value c"
  shows "utf8_scalars (utf8_scalar c @ bs) = c # utf8_scalars bs"
proof -
  have c: "c < 0x110000" "c < 0xD800 \<or> 0xE000 \<le> c"
    using assms by (auto simp: scalar_value_def)
  consider "c < 0x80" | "0x80 \<le> c" "c < 0x800" | "0x800 \<le> c" "c < 0x10000" | "0x10000 \<le> c"
    by linarith
  then show ?thesis
  proof cases
    case 1
    then show ?thesis by (simp add: utf8_scalar_def utf8_scalars.simps(2))
  next
    case 2
    then have "2 \<le> c div 64" "c div 64 < 32" by linarith+
    with 2 show ?thesis
      by (simp add: utf8_scalar_def utf8_scalars.simps(2) utf8_cont_steps)
  next
    case 3
    define d e p q where "d = c mod 64" and "e = c div 64" and "p = e div 64" and "q = e mod 64"
    have p: "c div 4096 = p" using div_mult2_eq [of c 64 64] by (simp add: p_def e_def)
    have eqs: "c = e * 64 + d" "e = p * 64 + q" and lt: "d < 64" "q < 64"
      by (simp_all add: d_def e_def p_def q_def)
    have "p < 16" using 3 eqs lt by linarith
    have lo: "cont_lo (0xE0 + p) \<le> 0x80 + q"
    proof (cases "p = 0")
      case True
      then have "0x20 \<le> q" using 3 eqs lt by linarith
      with True show ?thesis by (simp add: cont_lo_def)
    qed (use \<open>p < 16\<close> in \<open>simp add: cont_lo_def\<close>)
    have hi: "0x80 + q \<le> cont_hi (0xE0 + p)"
    proof (cases "p = 13")
      case True
      then have "q < 0x20" using c eqs lt by linarith
      with True show ?thesis by (simp add: cont_hi_def)
    qed (use \<open>p < 16\<close> lt in \<open>simp add: cont_hi_def\<close>)
    have "utf8_scalar c = [0xE0 + p, 0x80 + q, 0x80 + d]"
      using 3 by (simp add: utf8_scalar_def p e_def [symmetric] q_def d_def)
    then show ?thesis
      using lo hi lt \<open>p < 16\<close> eqs by (simp add: utf8_scalars.simps(2) utf8_cont_steps)
  next
    case 4
    define d e r f q p where "d = c mod 64" and "e = c div 64" and "r = e mod 64"
      and "f = e div 64" and "q = f mod 64" and "p = f div 64"
    have f: "c div 4096 = f" using div_mult2_eq [of c 64 64] by (simp add: f_def e_def)
    then have p: "c div 262144 = p" using div_mult2_eq [of c 4096 64] by (simp add: p_def)
    have eqs: "c = e * 64 + d" "e = f * 64 + r" "f = p * 64 + q"
      and lt: "d < 64" "r < 64" "q < 64"
      by (simp_all add: d_def e_def f_def p_def q_def r_def)
    have "p < 5" using c eqs lt by linarith
    have lo: "cont_lo (0xF0 + p) \<le> 0x80 + q"
    proof (cases "p = 0")
      case True
      then have "0x10 \<le> q" using 4 eqs lt by linarith
      with True show ?thesis by (simp add: cont_lo_def)
    qed (use \<open>p < 5\<close> in \<open>simp add: cont_lo_def\<close>)
    have hi: "0x80 + q \<le> cont_hi (0xF0 + p)"
    proof (cases "p = 4")
      case True
      then have "q < 0x10" using c eqs lt by linarith
      with True show ?thesis by (simp add: cont_hi_def)
    qed (use \<open>p < 5\<close> lt in \<open>simp add: cont_hi_def\<close>)
    have "utf8_scalar c = [0xF0 + p, 0x80 + q, 0x80 + r, 0x80 + d]"
      using 4 by (simp add: utf8_scalar_def p f e_def [symmetric] q_def r_def d_def)
    then show ?thesis
      using lo hi lt \<open>p < 5\<close> eqs by (simp add: utf8_scalars.simps(2) utf8_cont_steps)
  qed
qed

lemma utf8_scalars_concat:
  "(\<And>c. c \<in> set cs \<Longrightarrow> scalar_value c) \<Longrightarrow> utf8_scalars (concat (map utf8_scalar cs)) = cs"
  by (induction cs) (simp_all add: utf8_scalars_scalar)

lemma unat_js_char: "unat (u :: js_char) < 0x10000"
  using unsigned_less [of u, where ?'a = nat] by simp

lemma scalar_value_unit: "scalar_value (unit_scalar u)"
  using unat_js_char [of u] by (auto simp: scalar_value_def unit_scalar_def is_high_def is_low_def)

lemma scalar_value_js_scalars: "c \<in> set (js_scalars s) \<Longrightarrow> scalar_value c"
proof (induction s rule: js_scalars.induct)
  case (3 u v us)
  have "scalar_value (pair_scalar u v)" if "is_high u" "is_low v"
    using that by (auto simp: scalar_value_def pair_scalar_def is_high_def is_low_def)
  then show ?case using 3 scalar_value_unit by (auto split: if_splits)
qed (simp_all add: scalar_value_unit)

lemma scalar_units_pair:
  assumes "is_high u" and "is_low v"
  shows "scalar_units (pair_scalar u v) = [u, v]"
proof -
  define a b where "a = unat u - 0xD800" and "b = unat v - 0xDC00"
  have ab: "unat u = 0xD800 + a" "unat v = 0xDC00 + b" "a < 0x400" "b < 0x400"
    using assms by (auto simp: a_def b_def is_high_def is_low_def)
  have "(a * 0x400 + b) div 0x400 = a" "(a * 0x400 + b) mod 0x400 = b" using ab by simp_all
  then have "scalar_units (pair_scalar u v) = [of_nat (unat u), of_nat (unat v)]"
    by (simp add: scalar_units_def pair_scalar_def a_def [symmetric] b_def [symmetric] ab)
  then show ?thesis by simp
qed

lemma scalar_units_unit: "\<not> is_high u \<Longrightarrow> \<not> is_low u \<Longrightarrow> scalar_units (unit_scalar u) = [u]"
  using unat_js_char [of u] by (simp add: scalar_units_def unit_scalar_def)

lemma js_scalars_units:
  "well_formed_utf16 s \<Longrightarrow> concat (map scalar_units (js_scalars s)) = s"
  by (induction s rule: well_formed_utf16.induct)
    (auto simp: scalar_units_pair scalar_units_unit split: if_splits)

lemma utf8_scalar_byte: "scalar_value c \<Longrightarrow> n \<in> set (utf8_scalar c) \<Longrightarrow> n < 256"
proof -
  assume c: "scalar_value c" and n: "n \<in> set (utf8_scalar c)"
  have "c div 262144 < 5" using c by (auto simp: scalar_value_def)
  moreover have "c < 0x10000 \<Longrightarrow> c div 4096 < 16" "c < 0x800 \<Longrightarrow> c div 64 < 32" by linarith+
  moreover have "x mod 64 < 64" for x :: nat by simp
  ultimately show ?thesis
    using n by (auto simp: utf8_scalar_def less_imp_le split: if_splits
        intro: order_less_le_trans [OF add_strict_left_mono])
qed

lemma utf8_roundtrip:
  assumes "well_formed_utf16 s"
  shows "utf8_decode (utf8_encode s) = s"
proof -
  let ?ns = "concat (map utf8_scalar (js_scalars s))"
  have "map (unat \<circ> (of_nat :: nat \<Rightarrow> byte)) ?ns = map id ?ns"
  proof (rule map_cong [OF refl])
    fix n assume "n \<in> set ?ns"
    then have "n < 256" using utf8_scalar_byte scalar_value_js_scalars by auto
    then show "(unat \<circ> (of_nat :: nat \<Rightarrow> byte)) n = id n" by (simp add: unat_of_nat)
  qed
  then have "utf8_scalars (map unat (utf8_encode s)) = js_scalars s"
    by (simp add: utf8_encode_def utf8_scalars_concat scalar_value_js_scalars)
  then show ?thesis
    by (simp add: utf8_decode_def js_scalars_units assms)
qed

text \<open>With room for the whole encoding, the write stores exactly the encoding.\<close>

lemma fitting_all: "length (concat cs) \<le> n \<Longrightarrow> fitting n cs = concat cs"
  by (induction cs arbitrary: n) auto

lemma buf_write_utf8_full:
  assumes "0 \<le> off" and "off + int (length (utf8_encode s)) \<le> int (length b)"
    and "int (length (utf8_encode s)) \<le> len" and "len \<le> int (length b)"
  shows "buf_write_utf8 b s off len = buf_put b off (utf8_encode s)"
proof -
  have "length (concat (map utf8_scalar (js_scalars s))) \<le> min (nat len) (length b - nat off)"
    using assms by (auto simp: utf8_encode_def)
  with assms show ?thesis
    by (simp add: buf_write_utf8_def fitting_all utf8_encode_def Let_def)
qed

end
