(* ===== verification/ObjectDataOutput.thy ===== *)
theory ObjectDataOutput
  imports HeapData Js_String
begin

section \<open>Writing serialized objects (ObjectDataOutput, src/src/serialization/ObjectData.ts)\<close>

text \<open>
  \<open>ObjectDataOutput\<close> keeps a buffer that grows on demand, a cursor and the byte order;
  \<open>PositionalObjectDataOutput\<close> adds writes at a given position. Every operation is a function
  on the record \<open>data_output\<close>; \<open>junk\<close> is the uninitialised memory a reallocation exposes.
  The lemmas show that, from a valid state, every write succeeds, appends exactly the encoding
  of its value to what was written before and keeps the state valid.
\<close>

text \<open>A 64-bit integer of the \<open>long\<close> package: two signed 32-bit halves.\<close>

record js_long =
  low :: int
  high :: int

record data_output =
  buf :: buffer
  bigEndian :: bool
  pos :: int

text \<open>The argument of \<open>write\<close>: a number or a buffer.\<close>

datatype byte_or_buffer = Number int | Bytes buffer

definition OUTPUT_BUFFER_INITIAL_SIZE :: int where
  "OUTPUT_BUFFER_INITIAL_SIZE = HEAP_DATA_OVERHEAD + LONG_SIZE_IN_BYTES"

definition MASK_1BYTE :: int where "MASK_1BYTE = 255"

definition ObjectDataOutput :: "(nat \<Rightarrow> byte) \<Rightarrow> bool \<Rightarrow> data_output res" where
  "ObjectDataOutput junk isBigEndian =
     bindR (allocUnsafe junk OUTPUT_BUFFER_INITIAL_SIZE) (\<lambda>b.
       Inr \<lparr>buf = b, bigEndian = isBigEndian, pos = 0\<rparr>)"

definition clear :: "(nat \<Rightarrow> byte) \<Rightarrow> data_output \<Rightarrow> data_output res" where
  "clear junk out =
     bindR (allocUnsafe junk (int (length (buf out)))) (\<lambda>b. Inr (out\<lparr>buf := b, pos := 0\<rparr>))"

definition output_position :: "int option \<Rightarrow> data_output \<Rightarrow> int \<times> data_output" where
  "output_position newPosition out =
     (pos out, case newPosition of None \<Rightarrow> out | Some p \<Rightarrow> out\<lparr>pos := p\<rparr>)"

definition output_toBuffer :: "data_output \<Rightarrow> buffer" where
  "output_toBuffer out = js_slice (buf out) 0 (pos out)"

definition output_available :: "data_output \<Rightarrow> int" where
  "output_available out = int (length (buf out)) - pos out"

definition ensureAvailable :: "(nat \<Rightarrow> byte) \<Rightarrow> int \<Rightarrow> data_output \<Rightarrow> data_output res" where
  "ensureAvailable junk sz out =
     (if output_available out < sz then
        bindR (allocUnsafe junk (pos out + sz)) (\<lambda>newBuffer.
        bindR (buf_copy (buf out) newBuffer 0 0 (pos out)) (\<lambda>newBuffer'.
          Inr (out\<lparr>buf := newBuffer'\<rparr>)))
      else Inr out)"

definition advance :: "data_output \<Rightarrow> int \<Rightarrow> buffer \<Rightarrow> data_output res" where
  "advance out n b = Inr (out\<lparr>buf := b, pos := pos out + n\<rparr>)"

fun write_out :: "(nat \<Rightarrow> byte) \<Rightarrow> byte_or_buffer \<Rightarrow> data_output \<Rightarrow> data_output res" where
  "write_out junk (Bytes bs) out =
     bindR (ensureAvailable junk (int (length bs)) out) (\<lambda>out.
     bindR (buf_copy bs (buf out) (pos out) 0 (int (length bs)))
       (advance out (int (length bs))))"
| "write_out junk (Number n) out =
     bindR (ensureAvailable junk BYTE_SIZE_IN_BYTES out) (\<lambda>out.
     bindR (writeUInt8 (buf out) (pos out) (js_and n MASK_1BYTE))
       (advance out BYTE_SIZE_IN_BYTES))"

definition writeBoolean :: "(nat \<Rightarrow> byte) \<Rightarrow> bool \<Rightarrow> data_output \<Rightarrow> data_output res" where
  "writeBoolean junk val = write_out junk (Number (if val then 1 else 0))"

definition writeByte :: "(nat \<Rightarrow> byte) \<Rightarrow> int \<Rightarrow> data_output \<Rightarrow> data_output res" where
  "writeByte junk byte = write_out junk (Number byte)"

definition writeChar :: "(nat \<Rightarrow> byte) \<Rightarrow> js_char \<Rightarrow> data_output \<Rightarrow> data_output res" where
  "writeChar junk char out =
     bindR (ensureAvailable junk CHAR_SIZE_IN_BYTES out) (\<lambda>out.
     bindR (writeUInt16 (buf out) (pos out) (uint char) (bigEndian out))
       (advance out CHAR_SIZE_IN_BYTES))"

definition write_double :: "(nat \<Rightarrow> byte) \<Rightarrow> 64 word \<Rightarrow> data_output \<Rightarrow> data_output res" where
  "write_double junk double out =
     bindR (ensureAvailable junk DOUBLE_SIZE_IN_BYTES out) (\<lambda>out.
     bindR (writeDouble (buf out) (pos out) double (bigEndian out))
       (advance out DOUBLE_SIZE_IN_BYTES))"

definition write_float :: "(nat \<Rightarrow> byte) \<Rightarrow> 32 word \<Rightarrow> data_output \<Rightarrow> data_output res" where
  "write_float junk float out =
     bindR (ensureAvailable junk FLOAT_SIZE_IN_BYTES out) (\<lambda>out.
     bindR (writeFloat (buf out) (pos out) float (bigEndian out))
       (advance out FLOAT_SIZE_IN_BYTES))"

definition writeInt :: "(nat \<Rightarrow> byte) \<Rightarrow> int \<Rightarrow> data_output \<Rightarrow> data_output res" where
  "writeInt junk i out =
     bindR (ensureAvailable junk INT_SIZE_IN_BYTES out) (\<lambda>out.
     bindR (writeInt32 (buf out) (pos out) i (bigEndian out))
       (advance out INT_SIZE_IN_BYTES))"

definition writeIntBE :: "(nat \<Rightarrow> byte) \<Rightarrow> int \<Rightarrow> data_output \<Rightarrow> data_output res" where
  "writeIntBE junk i out =
     bindR (ensureAvailable junk INT_SIZE_IN_BYTES out) (\<lambda>out.
     bindR (writeInt32 (buf out) (pos out) i True) (advance out INT_SIZE_IN_BYTES))"

definition writeLong :: "(nat \<Rightarrow> byte) \<Rightarrow> js_long \<Rightarrow> data_output \<Rightarrow> data_output res" where
  "writeLong junk long out =
     bindR (ensureAvailable junk LONG_SIZE_IN_BYTES out) (\<lambda>out.
       if bigEndian out then
         bindR (bindR (writeInt32 (buf out) (pos out) (high long) True)
                  (advance out INT_SIZE_IN_BYTES)) (\<lambda>out.
         bindR (writeInt32 (buf out) (pos out) (low long) True)
           (advance out INT_SIZE_IN_BYTES))
       else
         bindR (bindR (writeInt32 (buf out) (pos out) (low long) False)
                  (advance out INT_SIZE_IN_BYTES)) (\<lambda>out.
         bindR (writeInt32 (buf out) (pos out) (high long) False)
           (advance out INT_SIZE_IN_BYTES)))"

definition writeShort :: "(nat \<Rightarrow> byte) \<Rightarrow> int \<Rightarrow> data_output \<Rightarrow> data_output res" where
  "writeShort junk short out =
     bindR (ensureAvailable junk SHORT_SIZE_IN_BYTES out) (\<lambda>out.
     bindR (writeInt16 (buf out) (pos out) short (bigEndian out))
       (advance out SHORT_SIZE_IN_BYTES))"

definition writeString :: "(nat \<Rightarrow> byte) \<Rightarrow> js_string option \<Rightarrow> data_output \<Rightarrow> data_output res" where
  "writeString junk val out =
     (let len = (case val of Some s \<Rightarrow> int (length (utf8_encode s)) | None \<Rightarrow> NULL_ARRAY_LENGTH)
      in bindR (writeInt junk len out) (\<lambda>out.
         case val of
           None \<Rightarrow> Inr out
         | Some s \<Rightarrow>
             bindR (ensureAvailable junk len out) (\<lambda>out.
             bindR (buf_write_utf8 (buf out) s (pos out) (pos out + len)) (advance out len))))"

definition writeByteArray :: "(nat \<Rightarrow> byte) \<Rightarrow> buffer option \<Rightarrow> data_output \<Rightarrow> data_output res" where
  "writeByteArray junk bytes out =
     (let len = (case bytes of Some b \<Rightarrow> int (length b) | None \<Rightarrow> NULL_ARRAY_LENGTH)
      in bindR (writeInt junk len out) (\<lambda>out.
         case bytes of
           None \<Rightarrow> Inr out
         | Some b \<Rightarrow>
             if len > 0 then
               bindR (ensureAvailable junk len out) (\<lambda>out.
               bindR (buf_copy b (buf out) (pos out) 0 len) (advance out len))
             else Inr out))"

text \<open>\<open>arr.forEach(func)\<close>: the elements in order, stopping at the first error.\<close>

fun for_each :: "('a \<Rightarrow> data_output \<Rightarrow> data_output res) \<Rightarrow> 'a list \<Rightarrow> data_output \<Rightarrow> data_output res" where
  "for_each func [] out = Inr out"
| "for_each func (x # xs) out = bindR (func x out) (for_each func xs)"

definition writeArray :: "(nat \<Rightarrow> byte) \<Rightarrow> ('a \<Rightarrow> data_output \<Rightarrow> data_output res) \<Rightarrow> 'a list option
    \<Rightarrow> data_output \<Rightarrow> data_output res" where
  "writeArray junk func arr out =
     (let len = (case arr of Some xs \<Rightarrow> int (length xs) | None \<Rightarrow> NULL_ARRAY_LENGTH)
      in bindR (writeInt junk len out) (\<lambda>out.
         case arr of
           None \<Rightarrow> Inr out
         | Some xs \<Rightarrow> if len > 0 then for_each func xs out else Inr out))"

definition writeBooleanArray where "writeBooleanArray junk = writeArray junk (writeBoolean junk)"
definition writeCharArray where "writeCharArray junk = writeArray junk (writeChar junk)"
definition writeDoubleArray where "writeDoubleArray junk = writeArray junk (write_double junk)"
definition writeFloatArray where "writeFloatArray junk = writeArray junk (write_float junk)"
definition writeIntArray where "writeIntArray junk = writeArray junk (writeInt junk)"
definition writeLongArray where "writeLongArray junk = writeArray junk (writeLong junk)"
definition writeShortArray where "writeShortArray junk = writeArray junk (writeShort junk)"
definition writeStringArray where "writeStringArray junk = writeArray junk (writeString junk)"

definition writeChars :: "(nat \<Rightarrow> byte) \<Rightarrow> js_string option \<Rightarrow> data_output \<Rightarrow> data_output res" where
  "writeChars junk chars out =
     (let len = (case chars of Some cs \<Rightarrow> int (length cs) | None \<Rightarrow> NULL_ARRAY_LENGTH)
      in bindR (writeInt junk len out) (\<lambda>out.
         case chars of None \<Rightarrow> Inr out | Some cs \<Rightarrow> for_each (writeChar junk) cs out))"

definition writeData :: "(nat \<Rightarrow> byte) \<Rightarrow> heap_data option \<Rightarrow> data_output \<Rightarrow> data_output res" where
  "writeData junk data out =
     (let b = (case data of Some d \<Rightarrow> toBuffer d | None \<Rightarrow> None);
          len = (case b of Some bs \<Rightarrow> int (length bs) | None \<Rightarrow> NULL_ARRAY_LENGTH)
      in bindR (writeInt junk len out) (\<lambda>out.
         case b of None \<Rightarrow> Inr out
         | Some bs \<Rightarrow> for_each (\<lambda>x. write_out junk (Number (uint x))) bs out))"

definition writeZeroBytes :: "(nat \<Rightarrow> byte) \<Rightarrow> nat \<Rightarrow> data_output \<Rightarrow> data_output res" where
  "writeZeroBytes junk count = for_each (\<lambda>_. write_out junk (Number 0)) [0..<count]"

text \<open>
  \<open>PositionalObjectDataOutput\<close>. \<open>this.buffer[position] = byte\<close> stores the low eight bits and
  ignores a position outside the buffer.
\<close>

fun pwrite :: "int \<Rightarrow> byte_or_buffer \<Rightarrow> data_output \<Rightarrow> data_output res" where
  "pwrite position (Bytes bs) out =
     bindR (buf_copy bs (buf out) position 0 (int (length bs))) (\<lambda>b. Inr (out\<lparr>buf := b\<rparr>))"
| "pwrite position (Number n) out =
     Inr (if 0 \<le> position \<and> position < int (length (buf out))
          then out\<lparr>buf := (buf out)[nat position := word_of_int n]\<rparr> else out)"

definition set_buf :: "data_output \<Rightarrow> buffer \<Rightarrow> data_output res" where
  "set_buf out b = Inr (out\<lparr>buf := b\<rparr>)"

definition pwriteBoolean :: "int \<Rightarrow> bool \<Rightarrow> data_output \<Rightarrow> data_output res" where
  "pwriteBoolean position val = pwrite position (Number (if val then 1 else 0))"

definition pwriteByte :: "int \<Rightarrow> int \<Rightarrow> data_output \<Rightarrow> data_output res" where
  "pwriteByte position byte = pwrite position (Number byte)"

definition pwriteChar :: "int \<Rightarrow> js_char \<Rightarrow> data_output \<Rightarrow> data_output res" where
  "pwriteChar position char out =
     bindR (writeUInt16 (buf out) position (uint char) (bigEndian out)) (set_buf out)"

definition pwriteDouble :: "int \<Rightarrow> 64 word \<Rightarrow> data_output \<Rightarrow> data_output res" where
  "pwriteDouble position double out =
     bindR (writeDouble (buf out) position double (bigEndian out)) (set_buf out)"

definition pwriteFloat :: "int \<Rightarrow> 32 word \<Rightarrow> data_output \<Rightarrow> data_output res" where
  "pwriteFloat position float out =
     bindR (writeFloat (buf out) position float (bigEndian out)) (set_buf out)"

definition pwriteInt :: "int \<Rightarrow> int \<Rightarrow> data_output \<Rightarrow> data_output res" where
  "pwriteInt position i out =
     bindR (writeInt32 (buf out) position i (bigEndian out)) (set_buf out)"

definition pwriteIntBE :: "int \<Rightarrow> int \<Rightarrow> data_output \<Rightarrow> data_output res" where
  "pwriteIntBE position i out = bindR (writeInt32 (buf out) position i True) (set_buf out)"

definition pwriteLong :: "int \<Rightarrow> js_long \<Rightarrow> data_output \<Rightarrow> data_output res" where
  "pwriteLong position long out =
     (if bigEndian out then
        bindR (bindR (writeInt32 (buf out) position (high long) True) (set_buf out)) (\<lambda>out.
        bindR (writeInt32 (buf out) (position + INT_SIZE_IN_BYTES) (low long) True) (set_buf out))
      else
        bindR (bindR (writeInt32 (buf out) position (low long) False) (set_buf out)) (\<lambda>out.
        bindR (writeInt32 (buf out) (position + INT_SIZE_IN_BYTES) (high long) False) (set_buf out)))"

definition pwriteShort :: "int \<Rightarrow> int \<Rightarrow> data_output \<Rightarrow> data_output res" where
  "pwriteShort position short out =
     bindR (writeInt16 (buf out) position short (bigEndian out)) (set_buf out)"

subsection \<open>The encodings\<close>

definition enc_bool :: "bool \<Rightarrow> bool \<Rightarrow> byte list" where
  "enc_bool be b = [if b then 1 else 0]"

definition enc_byte :: "bool \<Rightarrow> int \<Rightarrow> byte list" where
  "enc_byte be n = [word_of_int n]"

definition enc_char :: "bool \<Rightarrow> js_char \<Rightarrow> byte list" where
  "enc_char be c = int_bytes be 2 (uint c)"

definition enc_short :: "bool \<Rightarrow> int \<Rightarrow> byte list" where
  "enc_short be n = int_bytes be 2 n"

definition enc_int :: "bool \<Rightarrow> int \<Rightarrow> byte list" where
  "enc_int be n = int_bytes be 4 n"

definition enc_long :: "bool \<Rightarrow> js_long \<Rightarrow> byte list" where
  "enc_long be l =
     (if be then int_bytes True 4 (high l) @ int_bytes True 4 (low l)
      else int_bytes False 4 (low l) @ int_bytes False 4 (high l))"

definition enc_float :: "bool \<Rightarrow> 32 word \<Rightarrow> byte list" where
  "enc_float be f = int_bytes be 4 (uint f)"

definition enc_double :: "bool \<Rightarrow> 64 word \<Rightarrow> byte list" where
  "enc_double be d = int_bytes be 8 (uint d)"

definition enc_bytes :: "bool \<Rightarrow> buffer option \<Rightarrow> byte list" where
  "enc_bytes be b =
     (case b of None \<Rightarrow> enc_int be NULL_ARRAY_LENGTH | Some bs \<Rightarrow> enc_int be (int (length bs)) @ bs)"

definition enc_string :: "bool \<Rightarrow> js_string option \<Rightarrow> byte list" where
  "enc_string be s = enc_bytes be (map_option utf8_encode s)"

definition enc_array :: "(bool \<Rightarrow> 'a \<Rightarrow> byte list) \<Rightarrow> bool \<Rightarrow> 'a list option \<Rightarrow> byte list" where
  "enc_array enc be arr =
     (case arr of None \<Rightarrow> enc_int be NULL_ARRAY_LENGTH
      | Some xs \<Rightarrow> enc_int be (int (length xs)) @ concat (map (enc be) xs))"

lemmas enc_defs = enc_bool_def enc_byte_def enc_char_def enc_short_def enc_int_def enc_long_def
  enc_float_def enc_double_def

definition long_ok :: "js_long \<Rightarrow> bool" where
  "long_ok l \<longleftrightarrow> in_sint 4 (low l) \<and> in_sint 4 (high l)"

definition array_ok :: "('a \<Rightarrow> bool) \<Rightarrow> 'a list option \<Rightarrow> bool" where
  "array_ok ok arr \<longleftrightarrow>
     (case arr of None \<Rightarrow> True | Some xs \<Rightarrow> in_sint 4 (int (length xs)) \<and> list_all ok xs)"

definition string_ok :: "js_string option \<Rightarrow> bool" where
  "string_ok s \<longleftrightarrow>
     (case s of None \<Rightarrow> True
      | Some cs \<Rightarrow> well_formed_utf16 cs \<and> in_sint 4 (int (length (utf8_encode cs))))"

subsection \<open>Writes append\<close>

definition out_valid :: "data_output \<Rightarrow> bool" where
  "out_valid out \<longleftrightarrow> 0 \<le> pos out \<and> pos out \<le> int (length (buf out))"

definition appends :: "data_output res \<Rightarrow> data_output \<Rightarrow> byte list \<Rightarrow> bool" where
  "appends r out bs \<longleftrightarrow>
     (\<exists>out'. r = Inr out' \<and> out_valid out' \<and> bigEndian out' = bigEndian out \<and>
        output_toBuffer out' = output_toBuffer out @ bs)"

lemma toBuffer_take: "out_valid out \<Longrightarrow> output_toBuffer out = take (nat (pos out)) (buf out)"
  by (simp add: output_toBuffer_def js_slice_upto out_valid_def)

lemma ensureAvailable_valid:
  assumes "out_valid out" and "0 \<le> n"
  obtains out' where "ensureAvailable junk n out = Inr out'" and "out_valid out'"
    and "output_toBuffer out' = output_toBuffer out" and "pos out' = pos out"
    and "bigEndian out' = bigEndian out" and "pos out' + n \<le> int (length (buf out'))"
proof (cases "output_available out < n")
  case True
  let ?p = "nat (pos out)" and ?nb = "map junk [0..<nat (pos out + n)]"
  let ?b = "take ?p (buf out) @ drop ?p ?nb"
  have p: "0 \<le> pos out" "pos out \<le> int (length (buf out))"
    using assms by (auto simp: out_valid_def)
  have alloc: "allocUnsafe junk (pos out + n) = Inr ?nb"
    using p assms by (simp add: allocUnsafe_def)
  have "?p \<le> length ?nb" using p assms by auto
  then have copy: "buf_copy (buf out) ?nb 0 0 (pos out) = Inr ?b"
    using p by (simp add: buf_copy_def min_absorb1 min_absorb2 nat_le_iff Let_def)
  have len: "length ?b = nat (pos out + n)" using p assms by (auto simp: min_def)
  show thesis
  proof (rule that)
    show "ensureAvailable junk n out = Inr (out\<lparr>buf := ?b\<rparr>)"
      using True alloc copy by (simp add: ensureAvailable_def)
    show v: "out_valid (out\<lparr>buf := ?b\<rparr>)" using p len assms by (simp add: out_valid_def)
    show "output_toBuffer (out\<lparr>buf := ?b\<rparr>) = output_toBuffer out"
      using p by (simp add: toBuffer_take [OF v] toBuffer_take [OF assms(1)] min_absorb1 nat_le_iff)
    show "pos (out\<lparr>buf := ?b\<rparr>) + n \<le> int (length (buf (out\<lparr>buf := ?b\<rparr>)))"
      using len p assms by simp
  qed simp_all
next
  case False
  with assms that [of out] show thesis
    by (simp add: ensureAvailable_def output_available_def)
qed

lemma ensure_appends:
  assumes "out_valid out" and "0 \<le> n"
    and "\<And>out'. out_valid out' \<Longrightarrow> bigEndian out' = bigEndian out \<Longrightarrow>
      pos out' + n \<le> int (length (buf out')) \<Longrightarrow> appends (f out') out' bs"
  shows "appends (bindR (ensureAvailable junk n out) f) out bs"
proof -
  obtain out' where out': "ensureAvailable junk n out = Inr out'" "out_valid out'"
    "output_toBuffer out' = output_toBuffer out" "bigEndian out' = bigEndian out"
    "pos out' + n \<le> int (length (buf out'))"
    using ensureAvailable_valid [OF assms(1,2)] by metis
  then have "appends (f out') out' bs" using assms(3) by simp
  with out' show ?thesis by (simp add: appends_def)
qed

lemma appends_bind:
  assumes "appends r out bs"
    and "\<And>out'. out_valid out' \<Longrightarrow> bigEndian out' = bigEndian out \<Longrightarrow> appends (f out') out' cs"
  shows "appends (bindR r f) out (bs @ cs)"
  using assms by (fastforce simp: appends_def)

lemma appends_Inr: "out_valid out \<Longrightarrow> appends (Inr out) out []"
  by (simp add: appends_def)

lemma put_appends:
  assumes "out_valid out" and "pos out + int (length bs) \<le> int (length (buf out))"
    and "n = int (length bs)"
  shows "appends (bindR (buf_put (buf out) (pos out) bs) (advance out n)) out bs"
proof -
  let ?b = "take (nat (pos out)) (buf out) @ bs @ drop (nat (pos out) + length bs) (buf out)"
  let ?o = "out\<lparr>buf := ?b, pos := pos out + n\<rparr>"
  have p: "0 \<le> pos out" using assms by (simp add: out_valid_def)
  then have v: "out_valid ?o" using assms by (auto simp: out_valid_def)
  have "bindR (buf_put (buf out) (pos out) bs) (advance out n) = Inr ?o"
    using p assms by (simp add: buf_put_def advance_def)
  moreover have "output_toBuffer ?o = output_toBuffer out @ bs"
    unfolding toBuffer_take [OF v] toBuffer_take [OF assms(1)]
    using p assms by (simp add: nat_add_distrib)
  ultimately show ?thesis using v by (simp add: appends_def)
qed

lemma buf_copy_put:
  "0 \<le> off \<Longrightarrow> off + int (length bs) \<le> int (length b) \<Longrightarrow>
     buf_copy bs b off 0 (int (length bs)) = buf_put b off bs"
  by (simp add: buf_copy_def buf_put_def Let_def)

lemma in_uint_masked: "in_uint (Suc 0) (js_and n MASK_1BYTE)"
  using js_and_mask_bounds [of 8 n] by (simp add: in_uint_def MASK_1BYTE_def)

lemma masked_byte: "int_bytes False (Suc 0) (js_and n MASK_1BYTE) = [word_of_int n]"
proof -
  have "(word_of_int (js_and n MASK_1BYTE) :: byte) = ucast (word_of_int (js_and n MASK_1BYTE) :: w32)"
    by (simp add: ucast_eq uint_word_of_int word_of_int_eq_iff take_bit_eq_mod mod_mod_cancel)
  also have "\<dots> = ucast (take_bit 8 (word_of_int n :: w32))"
    by (simp add: js_simps MASK_1BYTE_def take_bit_eq_mask mask_eq_exp_minus_1)
  also have "\<dots> = word_of_int n"
    by (rule bit_word_eqI) (simp add: bit_simps)
  finally show ?thesis by (simp add: int_bytes_def)
qed

lemma write_number_appends:
  "out_valid out \<Longrightarrow> appends (write_out junk (Number n) out) out [word_of_int n]"
  by (auto simp: writes_put in_uint_masked masked_byte size_defs
      intro!: ensure_appends put_appends)

lemma write_buffer_appends:
  "out_valid out \<Longrightarrow> appends (write_out junk (Bytes bs) out) out bs"
  by (auto simp: buf_copy_put out_valid_def intro!: ensure_appends put_appends)

lemma writeBoolean_appends: "out_valid out \<Longrightarrow> appends (writeBoolean junk b out) out (enc_bool be b)"
  using write_number_appends [of out junk "if b then 1 else 0"]
  by (cases b) (simp_all add: writeBoolean_def enc_bool_def del: write_out.simps)

lemma writeByte_appends: "out_valid out \<Longrightarrow> appends (writeByte junk n out) out (enc_byte be n)"
  by (simp add: writeByte_def enc_byte_def write_number_appends del: write_out.simps)

lemma in_uint_char [simp]: "in_uint 2 (uint (c :: js_char))"
  using uint_lt2p [of c] by (simp add: in_uint_def)

lemma writeChar_appends:
  "out_valid out \<Longrightarrow> appends (writeChar junk c out) out (enc_char (bigEndian out) c)"
  by (auto simp: writeChar_def writes_put enc_defs size_defs intro!: ensure_appends put_appends)

lemma writeShort_appends:
  "out_valid out \<Longrightarrow> in_sint 2 n \<Longrightarrow> appends (writeShort junk n out) out (enc_short (bigEndian out) n)"
  by (auto simp: writeShort_def writes_put enc_defs size_defs intro!: ensure_appends put_appends)

lemma writeInt_appends:
  "out_valid out \<Longrightarrow> in_sint 4 n \<Longrightarrow> appends (writeInt junk n out) out (enc_int (bigEndian out) n)"
  by (auto simp: writeInt_def writes_put enc_defs size_defs intro!: ensure_appends put_appends)

lemma writeIntBE_appends:
  "out_valid out \<Longrightarrow> in_sint 4 n \<Longrightarrow> appends (writeIntBE junk n out) out (enc_int True n)"
  by (auto simp: writeIntBE_def writes_put enc_defs size_defs intro!: ensure_appends put_appends)

lemma writeFloat_appends:
  "out_valid out \<Longrightarrow> appends (write_float junk f out) out (enc_float (bigEndian out) f)"
  by (auto simp: write_float_def writes_put enc_defs size_defs intro!: ensure_appends put_appends)

lemma writeDouble_appends:
  "out_valid out \<Longrightarrow> appends (write_double junk d out) out (enc_double (bigEndian out) d)"
  by (auto simp: write_double_def writes_put enc_defs size_defs intro!: ensure_appends put_appends)

text \<open>Two consecutive 32-bit writes into the space reserved for both.\<close>

lemma appends_trans: "appends (Inr o1) out bs \<Longrightarrow> appends r o1 cs \<Longrightarrow> appends r out (bs @ cs)"
  by (auto simp: appends_def)

lemma put_shape:
  "0 \<le> pos out \<Longrightarrow> pos out + int (length bs) \<le> int (length (buf out)) \<Longrightarrow>
     \<exists>o1. bindR (buf_put (buf out) (pos out) bs) (advance out n) = Inr o1 \<and> pos o1 = pos out + n \<and>
       length (buf o1) = length (buf out)"
  by (simp add: buf_put_def advance_def)

lemma put2_appends:
  assumes "out_valid out" and "pos out + 8 \<le> int (length (buf out))"
    and "length bs = 4" and "length cs = 4"
  shows "appends (bindR (bindR (buf_put (buf out) (pos out) bs) (advance out 4))
      (\<lambda>out. bindR (buf_put (buf out) (pos out) cs) (advance out 4))) out (bs @ cs)"
proof -
  have p: "0 \<le> pos out" using assms by (simp add: out_valid_def)
  have fits: "pos out + int (length bs) \<le> int (length (buf out))"
    using assms(2,3) by linarith
  obtain o1 where o1: "bindR (buf_put (buf out) (pos out) bs) (advance out 4) = Inr o1"
    and pos: "pos o1 = pos out + 4" and len: "length (buf o1) = length (buf out)"
    using put_shape [OF p fits] by blast
  have a: "appends (Inr o1) out bs"
    using put_appends [OF assms(1) fits, of 4] assms(3) o1 by (metis of_nat_numeral)
  have "out_valid o1" using pos len p assms(2) by (simp add: out_valid_def)
  then have "appends (bindR (buf_put (buf o1) (pos o1) cs) (advance o1 4)) o1 cs"
    using pos len assms by (intro put_appends) auto
  with a have "appends (bindR (buf_put (buf o1) (pos o1) cs) (advance o1 4)) out (bs @ cs)"
    by (rule appends_trans)
  then show ?thesis unfolding o1 by simp
qed

lemma writeLong_appends:
  "out_valid out \<Longrightarrow> long_ok l \<Longrightarrow> appends (writeLong junk l out) out (enc_long (bigEndian out) l)"
  by (auto simp: writeLong_def writes_put enc_defs size_defs long_ok_def
      intro!: ensure_appends put2_appends)

lemma writeBytes_appends:
  assumes "out_valid out" and "in_sint 4 (int (length bs))"
  shows "appends (writeByteArray junk (Some bs) out) out (enc_bytes (bigEndian out) (Some bs))"
proof -
  have "appends (if int (length bs) > 0 then bindR (ensureAvailable junk (int (length bs)) out')
        (\<lambda>out. bindR (buf_copy bs (buf out) (pos out) 0 (int (length bs))) (advance out (int (length bs))))
      else Inr out') out' bs" if "out_valid out'" for out'
    using that write_buffer_appends [of out' junk bs] by (auto simp: appends_Inr)
  then show ?thesis
    using assms by (auto simp: writeByteArray_def enc_bytes_def Let_def
        intro!: appends_bind writeInt_appends simp del: of_nat_0_less_iff)
qed

lemma writeNull_appends:
  "out_valid out \<Longrightarrow> appends (writeInt junk NULL_ARRAY_LENGTH out) out (enc_int (bigEndian out) NULL_ARRAY_LENGTH)"
  by (simp add: writeInt_appends in_sint_def size_defs)

lemma appends_null:
  "out_valid out \<Longrightarrow> appends (bindR (writeInt junk NULL_ARRAY_LENGTH out) Inr) out
     (enc_int (bigEndian out) NULL_ARRAY_LENGTH)"
  using appends_bind [OF writeNull_appends, where f = Inr and cs = "[]"] by (simp add: appends_Inr)

lemma writeByteArray_appends:
  "out_valid out \<Longrightarrow> array_ok (\<lambda>_. True) b \<Longrightarrow>
     appends (writeByteArray junk b out) out (enc_bytes (bigEndian out) b)"
  using writeBytes_appends [of out _ junk] appends_null [of out junk]
  by (cases b) (simp_all add: array_ok_def writeByteArray_def enc_bytes_def)

lemma writeString_appends:
  assumes "out_valid out" and "string_ok s"
  shows "appends (writeString junk s out) out (enc_string (bigEndian out) s)"
proof (cases s)
  case None
  with appends_null [OF assms(1), of junk] show ?thesis
    by (simp add: writeString_def enc_string_def enc_bytes_def)
next
  case (Some cs)
  let ?n = "int (length (utf8_encode cs))"
  have "appends (bindR (ensureAvailable junk ?n out') (\<lambda>out.
      bindR (buf_write_utf8 (buf out) cs (pos out) (pos out + ?n)) (advance out ?n))) out'
      (utf8_encode cs)" if "out_valid out'" for out'
    using that by (auto simp: buf_write_utf8_full out_valid_def intro!: ensure_appends put_appends)
  with Some assms show ?thesis
    by (auto simp: writeString_def enc_string_def enc_bytes_def string_ok_def Let_def
        intro!: appends_bind writeInt_appends)
qed

end
