(* ===== verification/ObjectDataInput.thy ===== *)
theory ObjectDataInput
  imports ObjectDataOutput
begin

section \<open>Reading serialized objects (ObjectDataInput, src/src/serialization/ObjectData.ts)\<close>

text \<open>
  \<open>ObjectDataInput\<close> reads from a buffer, at its cursor (the optional position argument is
  \<open>None\<close>) or at a given position. A failed \<open>assert\<close> is the error \<open>AssertionError\<close>.
\<close>

record data_input =
  ibuf :: buffer
  offset :: int
  ibigEndian :: bool
  ipos :: int

definition ObjectDataInput :: "buffer \<Rightarrow> int \<Rightarrow> bool \<Rightarrow> data_input" where
  "ObjectDataInput b off isBigEndian = \<lparr>ibuf = b, offset = off, ibigEndian = isBigEndian, ipos = off\<rparr>"

definition input_position :: "int option \<Rightarrow> data_input \<Rightarrow> int \<times> data_input" where
  "input_position newPosition inp =
     (ipos inp, case newPosition of None \<Rightarrow> inp | Some p \<Rightarrow> inp\<lparr>ipos := p\<rparr>)"

definition assertAvailable :: "int \<Rightarrow> int option \<Rightarrow> data_input \<Rightarrow> 'a res \<Rightarrow> 'a res" where
  "assertAvailable numOfBytes p inp k =
     (let q = (case p of None \<Rightarrow> ipos inp | Some q \<Rightarrow> q)
      in assertR (q \<ge> 0) (assertR (q + numOfBytes \<le> int (length (ibuf inp))) k))"

definition addOrUndefined :: "int option \<Rightarrow> int \<Rightarrow> int option" where
  "addOrUndefined base adder = (case base of None \<Rightarrow> None | Some b \<Rightarrow> Some (b + adder))"

text \<open>A read at the cursor advances it; a read at a given position leaves it alone.\<close>

definition at_cursor :: "(buffer \<Rightarrow> int \<Rightarrow> 'a res) \<Rightarrow> int \<Rightarrow> int option \<Rightarrow> data_input
    \<Rightarrow> ('a \<times> data_input) res" where
  "at_cursor rd n p inp =
     (case p of
        None \<Rightarrow> bindR (rd (ibuf inp) (ipos inp)) (\<lambda>v. Inr (v, inp\<lparr>ipos := ipos inp + n\<rparr>))
      | Some q \<Rightarrow> bindR (rd (ibuf inp) q) (\<lambda>v. Inr (v, inp)))"

definition read_in :: "int option \<Rightarrow> data_input \<Rightarrow> (int \<times> data_input) res" where
  "read_in p inp =
     assertAvailable BYTE_SIZE_IN_BYTES p inp (at_cursor readUInt8 BYTE_SIZE_IN_BYTES p inp)"

definition readBoolean :: "int option \<Rightarrow> data_input \<Rightarrow> (bool \<times> data_input) res" where
  "readBoolean p inp = bindR (read_in p inp) (\<lambda>(v, inp). Inr (v = 1, inp))"

definition readByte :: "int option \<Rightarrow> data_input \<Rightarrow> (int \<times> data_input) res" where
  "readByte p inp = read_in p inp"

definition readChar :: "int option \<Rightarrow> data_input \<Rightarrow> (js_char \<times> data_input) res" where
  "readChar p inp =
     assertAvailable CHAR_SIZE_IN_BYTES None inp
       (bindR (at_cursor (\<lambda>b q. readUInt16 b q (ibigEndian inp)) CHAR_SIZE_IN_BYTES p inp)
          (\<lambda>(v, inp). Inr (word_of_int v, inp)))"

definition read_double :: "int option \<Rightarrow> data_input \<Rightarrow> (64 word \<times> data_input) res" where
  "read_double p inp =
     assertAvailable DOUBLE_SIZE_IN_BYTES p inp
       (at_cursor (\<lambda>b q. readDouble b q (ibigEndian inp)) DOUBLE_SIZE_IN_BYTES p inp)"

definition read_float :: "int option \<Rightarrow> data_input \<Rightarrow> (32 word \<times> data_input) res" where
  "read_float p inp =
     assertAvailable FLOAT_SIZE_IN_BYTES p inp
       (at_cursor (\<lambda>b q. readFloat b q (ibigEndian inp)) FLOAT_SIZE_IN_BYTES p inp)"

definition readInt :: "int option \<Rightarrow> data_input \<Rightarrow> (int \<times> data_input) res" where
  "readInt p inp =
     assertAvailable INT_SIZE_IN_BYTES p inp
       (at_cursor (\<lambda>b q. readInt32 b q (ibigEndian inp)) INT_SIZE_IN_BYTES p inp)"

definition readLong :: "int option \<Rightarrow> data_input \<Rightarrow> (js_long \<times> data_input) res" where
  "readLong p inp =
     assertAvailable LONG_SIZE_IN_BYTES p inp
       (bindR (case p of
          None \<Rightarrow>
            bindR (readInt32 (ibuf inp) (ipos inp) (ibigEndian inp)) (\<lambda>first.
              let inp = inp\<lparr>ipos := ipos inp + INT_SIZE_IN_BYTES\<rparr>
              in bindR (readInt32 (ibuf inp) (ipos inp) (ibigEndian inp)) (\<lambda>second.
                   Inr (first, second, inp\<lparr>ipos := ipos inp + INT_SIZE_IN_BYTES\<rparr>)))
        | Some q \<Rightarrow>
            bindR (readInt32 (ibuf inp) q (ibigEndian inp)) (\<lambda>first.
            bindR (readInt32 (ibuf inp) (q + INT_SIZE_IN_BYTES) (ibigEndian inp)) (\<lambda>second.
              Inr (first, second, inp))))
        (\<lambda>(first, second, inp).
           Inr (if ibigEndian inp then \<lparr>low = second, high = first\<rparr>
                else \<lparr>low = first, high = second\<rparr>, inp)))"

definition readShort :: "int option \<Rightarrow> data_input \<Rightarrow> (int \<times> data_input) res" where
  "readShort p inp =
     assertAvailable SHORT_SIZE_IN_BYTES p inp
       (at_cursor (\<lambda>b q. readInt16 b q (ibigEndian inp)) SHORT_SIZE_IN_BYTES p inp)"

definition readUnsignedByte :: "int option \<Rightarrow> data_input \<Rightarrow> (int \<times> data_input) res" where
  "readUnsignedByte p inp = read_in p inp"

definition readUnsignedShort :: "int option \<Rightarrow> data_input \<Rightarrow> (int \<times> data_input) res" where
  "readUnsignedShort p inp = bindR (readChar p inp) (\<lambda>(c, inp). Inr (uint c, inp))"

text \<open>\<open>buffer.toString('utf8', start, end)\<close> clamps both positions to the buffer.\<close>

definition buf_toString :: "buffer \<Rightarrow> int \<Rightarrow> int \<Rightarrow> js_string" where
  "buf_toString b start stop =
     (let len = int (length b); s = max 0 start; e = min stop len
      in if e \<le> s then [] else utf8_decode (take (nat (e - s)) (drop (nat s) b)))"

definition readString :: "int option \<Rightarrow> data_input \<Rightarrow> (js_string option \<times> data_input) res" where
  "readString p inp =
     bindR (readInt p inp) (\<lambda>(len, inp).
       let readPos = (case addOrUndefined p 4 of
                        Some q \<Rightarrow> if q = 0 then ipos inp else q | None \<Rightarrow> ipos inp)
       in if len = NULL_ARRAY_LENGTH then Inr (None, inp)
          else Inr (Some (buf_toString (ibuf inp) readPos (readPos + len)),
                    if p = None then inp\<lparr>ipos := ipos inp + len\<rparr> else inp))"

definition readByteArray :: "int option \<Rightarrow> data_input \<Rightarrow> (buffer option \<times> data_input) res" where
  "readByteArray p inp =
     (let backupPos = ipos inp;
          inp1 = (case p of None \<Rightarrow> inp | Some q \<Rightarrow> inp\<lparr>ipos := q\<rparr>)
      in bindR (readInt None inp1) (\<lambda>(len, inp2).
           if len = NULL_ARRAY_LENGTH
           then Inr (None, if p = None then inp2 else inp2\<lparr>ipos := backupPos\<rparr>)
           else Inr (Some (js_slice (ibuf inp2) (ipos inp2) (ipos inp2 + len)),
                     if p = None then inp2\<lparr>ipos := ipos inp2 + len\<rparr>
                     else inp2\<lparr>ipos := backupPos\<rparr>)))"

definition readData :: "data_input \<Rightarrow> (heap_data option \<times> data_input) res" where
  "readData inp =
     bindR (readByteArray None inp) (\<lambda>(bytes, inp).
       case bytes of
         None \<Rightarrow> Inr (None, inp)
       | Some b \<Rightarrow> bindR (HeapData (Some b)) (\<lambda>d. Inr (Some d, inp)))"

fun read_times :: "(data_input \<Rightarrow> ('a \<times> data_input) res) \<Rightarrow> nat \<Rightarrow> data_input
    \<Rightarrow> ('a list \<times> data_input) res" where
  "read_times func 0 inp = Inr ([], inp)"
| "read_times func (Suc n) inp =
     bindR (func inp) (\<lambda>(x, inp). bindR (read_times func n inp) (\<lambda>(xs, inp). Inr (x # xs, inp)))"

definition readArray :: "(data_input \<Rightarrow> ('a \<times> data_input) res) \<Rightarrow> int option \<Rightarrow> data_input
    \<Rightarrow> ('a list option \<times> data_input) res" where
  "readArray func p inp =
     (let backupPos = ipos inp;
          inp1 = (case p of None \<Rightarrow> inp | Some q \<Rightarrow> inp\<lparr>ipos := q\<rparr>)
      in bindR (readInt None inp1) (\<lambda>(len, inp2).
           if len = NULL_ARRAY_LENGTH
           then Inr (None, if p = None then inp2 else inp2\<lparr>ipos := backupPos\<rparr>)
           else bindR (read_times func (nat len) inp2) (\<lambda>(arr, inp3).
                  Inr (Some arr, if p = None then inp3 else inp3\<lparr>ipos := backupPos\<rparr>))))"

definition readBooleanArray where "readBooleanArray = readArray (readBoolean None)"
definition readCharArray where "readCharArray = readArray (readChar None)"
definition readDoubleArray where "readDoubleArray = readArray (read_double None)"
definition readFloatArray where "readFloatArray = readArray (read_float None)"
definition readIntArray where "readIntArray = readArray (readInt None)"
definition readLongArray where "readLongArray = readArray (readLong None)"
definition readShortArray where "readShortArray = readArray (readShort None)"
definition readStringArray where "readStringArray = readArray (readString None)"

definition reset_input :: "data_input \<Rightarrow> data_input" where
  "reset_input inp = inp\<lparr>ipos := 0\<rparr>"

definition skipBytes :: "int \<Rightarrow> data_input \<Rightarrow> data_input" where
  "skipBytes count inp = inp\<lparr>ipos := ipos inp + count\<rparr>"

definition input_available :: "data_input \<Rightarrow> int" where
  "input_available inp = int (length (ibuf inp)) - ipos inp"

definition readRaw :: "int \<Rightarrow> data_input \<Rightarrow> (buffer \<times> data_input) res" where
  "readRaw numOfBytes inp =
     assertAvailable numOfBytes (Some (ipos inp)) inp
       (Inr (js_slice (ibuf inp) (ipos inp) (ipos inp + numOfBytes),
             inp\<lparr>ipos := ipos inp + numOfBytes\<rparr>))"

subsection \<open>Reading back an encoding\<close>

text \<open>The cursor stands in front of the bytes \<open>bs\<close>.\<close>

definition at_bytes :: "data_input \<Rightarrow> byte list \<Rightarrow> bool" where
  "at_bytes inp bs \<longleftrightarrow>
     0 \<le> ipos inp \<and> ipos inp + int (length bs) \<le> int (length (ibuf inp)) \<and>
     take (length bs) (drop (nat (ipos inp)) (ibuf inp)) = bs"

definition consumed :: "data_input \<Rightarrow> byte list \<Rightarrow> data_input" where
  "consumed inp bs = inp\<lparr>ipos := ipos inp + int (length bs)\<rparr>"

lemma consumed_simps [simp]:
  "ibuf (consumed inp bs) = ibuf inp" "ibigEndian (consumed inp bs) = ibigEndian inp"
  "ipos (consumed inp bs) = ipos inp + int (length bs)"
  by (simp_all add: consumed_def)

lemma consumed_append: "consumed (consumed inp bs) cs = consumed inp (bs @ cs)"
  by (simp add: consumed_def add.assoc)

lemma consumed_Nil [simp]: "consumed inp [] = inp"
  by (simp add: consumed_def)

lemma at_bytes_append:
  "at_bytes inp (bs @ cs) \<longleftrightarrow> at_bytes inp bs \<and> at_bytes (consumed inp bs) cs"
proof -
  have "take (length bs + length cs) ys = bs @ cs \<longleftrightarrow>
      take (length bs) ys = bs \<and> take (length cs) (drop (length bs) ys) = cs"
    if "length bs + length cs \<le> length ys" for ys :: buffer
    using that by (simp add: take_add append_eq_append_conv)
  from this [of "drop (nat (ipos inp)) (ibuf inp)"] show ?thesis
    by (auto simp: at_bytes_def nat_add_distrib add.commute)
qed

lemma at_bytes_get: "at_bytes inp bs \<Longrightarrow> buf_get (ibuf inp) (ipos inp) (length bs) = Inr bs"
  by (simp add: at_bytes_def buf_get_def)

lemma assertAvailable_at:
  "at_bytes inp bs \<Longrightarrow> n \<le> int (length bs) \<Longrightarrow> assertAvailable n None inp k = k"
  by (simp add: assertAvailable_def at_bytes_def)

text \<open>Every fixed-size read at the cursor decodes the bytes there and advances past them.\<close>

lemma at_cursor_at:
  assumes "at_bytes inp bs" and "n = int (length bs)"
    and "\<And>b p. rd b p = bindR (buf_get b p (length bs)) (\<lambda>bs. Inr (dec bs))"
  shows "at_cursor rd n None inp = Inr (dec bs, consumed inp bs)"
  using assms by (simp add: at_cursor_def at_bytes_get consumed_def)

lemma readInt_at:
  assumes "at_bytes inp (enc_int (ibigEndian inp) n)" and "in_sint 4 n"
  shows "readInt None inp = Inr (n, consumed inp (enc_int (ibigEndian inp) n))"
proof -
  have "at_cursor (\<lambda>b q. readInt32 b q (ibigEndian inp)) 4 None inp =
      Inr (sint_val (ibigEndian inp) (enc_int (ibigEndian inp) n),
           consumed inp (enc_int (ibigEndian inp) n))"
    by (rule at_cursor_at [OF assms(1)]) (simp_all add: enc_int_def reads_get)
  with assms show ?thesis
    by (simp add: readInt_def size_defs assertAvailable_at enc_int_def)
qed

lemma readShort_at:
  assumes "at_bytes inp (enc_short (ibigEndian inp) n)" and "in_sint 2 n"
  shows "readShort None inp = Inr (n, consumed inp (enc_short (ibigEndian inp) n))"
proof -
  have "at_cursor (\<lambda>b q. readInt16 b q (ibigEndian inp)) 2 None inp =
      Inr (sint_val (ibigEndian inp) (enc_short (ibigEndian inp) n),
           consumed inp (enc_short (ibigEndian inp) n))"
    by (rule at_cursor_at [OF assms(1)]) (simp_all add: enc_short_def reads_get)
  with assms show ?thesis
    by (simp add: readShort_def size_defs assertAvailable_at enc_short_def)
qed

lemma readChar_at:
  assumes "at_bytes inp (enc_char (ibigEndian inp) c)"
  shows "readChar None inp = Inr (c, consumed inp (enc_char (ibigEndian inp) c))"
proof -
  have "at_cursor (\<lambda>b q. readUInt16 b q (ibigEndian inp)) 2 None inp =
      Inr (uint_val (ibigEndian inp) (enc_char (ibigEndian inp) c),
           consumed inp (enc_char (ibigEndian inp) c))"
    by (rule at_cursor_at [OF assms(1)]) (simp_all add: enc_char_def reads_get)
  with assms show ?thesis
    by (simp add: readChar_def size_defs assertAvailable_at enc_char_def)
qed

lemma readFloat_at:
  assumes "at_bytes inp (enc_float (ibigEndian inp) f)"
  shows "read_float None inp = Inr (f, consumed inp (enc_float (ibigEndian inp) f))"
proof -
  have "at_cursor (\<lambda>b q. readFloat b q (ibigEndian inp)) 4 None inp =
      Inr (word_of_int (uint_val (ibigEndian inp) (enc_float (ibigEndian inp) f)),
           consumed inp (enc_float (ibigEndian inp) f))"
    by (rule at_cursor_at [OF assms(1)]) (simp_all add: enc_float_def reads_get)
  with assms show ?thesis
    by (simp add: read_float_def size_defs assertAvailable_at enc_float_def)
qed

lemma readDouble_at:
  assumes "at_bytes inp (enc_double (ibigEndian inp) d)"
  shows "read_double None inp = Inr (d, consumed inp (enc_double (ibigEndian inp) d))"
proof -
  have "at_cursor (\<lambda>b q. readDouble b q (ibigEndian inp)) 8 None inp =
      Inr (word_of_int (uint_val (ibigEndian inp) (enc_double (ibigEndian inp) d)),
           consumed inp (enc_double (ibigEndian inp) d))"
    by (rule at_cursor_at [OF assms(1)]) (simp_all add: enc_double_def reads_get)
  with assms show ?thesis
    by (simp add: read_double_def size_defs assertAvailable_at enc_double_def)
qed

lemma read_at:
  assumes "at_bytes inp [b]"
  shows "read_in None inp = Inr (uint b, consumed inp [b])"
proof -
  have "at_cursor readUInt8 1 None inp = Inr (uint_val False [b], consumed inp [b])"
    by (rule at_cursor_at [OF assms(1)]) (simp_all add: reads_get)
  with assms show ?thesis
    by (simp add: read_in_def size_defs assertAvailable_at uint_val_def)
qed

lemma readBoolean_at:
  "at_bytes inp (enc_bool be b) \<Longrightarrow> readBoolean None inp = Inr (b, consumed inp (enc_bool be b))"
  by (cases b) (simp_all add: readBoolean_def enc_bool_def read_at)

lemma readByte_at:
  assumes "at_bytes inp (enc_byte be n)" and "in_uint 1 n"
  shows "readByte None inp = Inr (n, consumed inp (enc_byte be n))"
proof -
  have "uint (word_of_int n :: byte) = n"
    using assms(2) by (simp add: in_uint_def uint_word_of_int)
  with assms show ?thesis by (simp add: readByte_def enc_byte_def read_at)
qed

lemma readLong_at:
  assumes "at_bytes inp (enc_long (ibigEndian inp) l)" and "long_ok l"
  shows "readLong None inp = Inr (l, consumed inp (enc_long (ibigEndian inp) l))"
proof -
  let ?be = "ibigEndian inp"
  define x y where "x = (if ?be then high l else low l)" and "y = (if ?be then low l else high l)"
  have enc: "enc_long ?be l = int_bytes ?be 4 x @ int_bytes ?be 4 y"
    by (simp add: enc_long_def x_def y_def)
  have xy: "in_sint 4 x" "in_sint 4 y"
    using assms(2) by (auto simp: x_def y_def long_ok_def)
  have at1: "at_bytes inp (int_bytes ?be 4 x)"
    and at2: "at_bytes (consumed inp (int_bytes ?be 4 x)) (int_bytes ?be 4 y)"
    using assms(1) by (simp_all add: enc at_bytes_append)
  have r1: "readInt32 (ibuf inp) (ipos inp) ?be = Inr x"
    using at_bytes_get [OF at1] xy by (simp add: reads_get)
  have r2: "readInt32 (ibuf inp) (ipos inp + 4) ?be = Inr y"
    using at_bytes_get [OF at2] xy by (simp add: reads_get)
  have l: "(if ?be then \<lparr>low = y, high = x\<rparr> else \<lparr>low = x, high = y\<rparr>) = l"
    by (simp add: x_def y_def)
  have av: "assertAvailable 8 None inp k = k" for k :: "(js_long \<times> data_input) res"
    by (rule assertAvailable_at [OF assms(1)]) (simp add: enc)
  show ?thesis
    using r1 r2 l by (simp add: readLong_def size_defs av enc consumed_def)
qed

lemma readString_at:
  assumes "at_bytes inp (enc_string (ibigEndian inp) s)" and "string_ok s"
  shows "readString None inp = Inr (s, consumed inp (enc_string (ibigEndian inp) s))"
proof (cases s)
  case None
  then have "readInt None inp = Inr (- 1, consumed inp (enc_int (ibigEndian inp) (- 1)))"
    using assms(1) by (intro readInt_at) (simp_all add: enc_string_def enc_bytes_def size_defs in_sint_def)
  with None show ?thesis
    by (simp add: readString_def enc_string_def enc_bytes_def size_defs)
next
  case (Some cs)
  let ?n = "int (length (utf8_encode cs))" and ?be = "ibigEndian inp"
  let ?inp = "consumed inp (enc_int ?be ?n)"
  have at: "at_bytes inp (enc_int ?be ?n)" "at_bytes ?inp (utf8_encode cs)"
    using assms(1) Some by (simp_all add: enc_string_def enc_bytes_def at_bytes_append)
  have ok: "well_formed_utf16 cs" "in_sint 4 ?n" using assms(2) Some by (simp_all add: string_ok_def)
  have "readInt None inp = Inr (?n, ?inp)" using at(1) ok(2) by (rule readInt_at)
  moreover have "buf_toString (ibuf ?inp) (ipos ?inp) (ipos ?inp + ?n) = cs"
  proof (cases "utf8_encode cs = []")
    case True
    then have "cs = []" using utf8_roundtrip [OF ok(1)] by (simp add: utf8_decode_def)
    then show ?thesis by (simp add: buf_toString_def Let_def utf8_encode_def utf8_decode_def)
  next
    case False
    then have "take (nat ?n) (drop (nat (ipos ?inp)) (ibuf ?inp)) = utf8_encode cs"
      using at(2) by (simp add: at_bytes_def)
    moreover have "max 0 (ipos ?inp) = ipos ?inp"
      "min (ipos ?inp + ?n) (int (length (ibuf ?inp))) = ipos ?inp + ?n" "0 < ?n"
      using at(2) False by (auto simp: at_bytes_def)
    ultimately show ?thesis
      using utf8_roundtrip [OF ok(1)] by (simp add: buf_toString_def Let_def)
  qed
  ultimately show ?thesis
    using Some by (simp add: readString_def addOrUndefined_def size_defs enc_string_def
        enc_bytes_def consumed_def add.assoc)
qed

lemma readByteArray_at:
  assumes "at_bytes inp (enc_bytes (ibigEndian inp) b)" and "array_ok (\<lambda>_. True) b"
  shows "readByteArray None inp = Inr (b, consumed inp (enc_bytes (ibigEndian inp) b))"
proof (cases b)
  case None
  then have "readInt None inp = Inr (- 1, consumed inp (enc_int (ibigEndian inp) (- 1)))"
    using assms(1) by (intro readInt_at) (simp_all add: enc_bytes_def size_defs in_sint_def)
  with None show ?thesis by (simp add: readByteArray_def enc_bytes_def size_defs)
next
  case (Some bs)
  let ?n = "int (length bs)" and ?be = "ibigEndian inp"
  let ?inp = "consumed inp (enc_int ?be ?n)"
  have at: "at_bytes inp (enc_int ?be ?n)" "at_bytes ?inp bs"
    using assms(1) Some by (simp_all add: enc_bytes_def at_bytes_append)
  have "readInt None inp = Inr (?n, ?inp)"
    using at(1) assms(2) Some by (intro readInt_at) (simp_all add: array_ok_def)
  moreover have "js_slice (ibuf ?inp) (ipos ?inp) (ipos ?inp + ?n) = bs"
    using at(2) by (subst js_slice_in_range) (simp_all add: at_bytes_def)
  ultimately show ?thesis
    using Some by (simp add: readByteArray_def enc_bytes_def size_defs consumed_def add.assoc)
qed

end
