(* ===== verification/ObjectData.thy ===== *)
theory ObjectData
  imports ObjectDataInput
begin

section \<open>The contract between writers and readers\<close>

text \<open>
  The locale \<open>data_codec\<close> states what a pair of a write and a read operation promises: the
  write appends the encoding of its value, the read decodes it at the cursor and advances
  behind it. Inside the locale the array operations are shown to satisfy the same contract.
  The interpretations discharge the contract for the operations of \<open>ObjectDataOutput\<close> and
  \<open>ObjectDataInput\<close>; the properties of this theory rest on them.
\<close>

locale data_codec =
  fixes wr :: "(nat \<Rightarrow> byte) \<Rightarrow> 'a \<Rightarrow> data_output \<Rightarrow> data_output res"
    and rd :: "data_input \<Rightarrow> ('a \<times> data_input) res"
    and enc :: "bool \<Rightarrow> 'a \<Rightarrow> byte list"
    and ok :: "'a \<Rightarrow> bool"
  assumes wr_appends: "out_valid out \<Longrightarrow> ok v \<Longrightarrow> appends (wr junk v out) out (enc (bigEndian out) v)"
    and rd_at: "at_bytes inp (enc (ibigEndian inp) v) \<Longrightarrow> ok v \<Longrightarrow>
      rd inp = Inr (v, consumed inp (enc (ibigEndian inp) v))"
begin

lemma for_each_appends:
  "out_valid out \<Longrightarrow> list_all ok vs \<Longrightarrow>
     appends (for_each (wr junk) vs out) out (concat (map (enc (bigEndian out)) vs))"
proof (induction vs arbitrary: out)
  case Nil
  then show ?case by (simp add: appends_Inr)
next
  case (Cons v vs)
  have "appends (bindR (wr junk v out) (for_each (wr junk) vs)) out
      (enc (bigEndian out) v @ concat (map (enc (bigEndian out)) vs))"
  proof (rule appends_bind)
    show "appends (wr junk v out) out (enc (bigEndian out) v)"
      using Cons.prems by (simp add: wr_appends)
  next
    fix out' assume "out_valid out'" and be: "bigEndian out' = bigEndian out"
    then show "appends (for_each (wr junk) vs out') out' (concat (map (enc (bigEndian out)) vs))"
      using Cons.IH [of out'] Cons.prems by simp
  qed
  then show ?case by simp
qed

lemma read_times_at:
  "at_bytes inp (concat (map (enc (ibigEndian inp)) vs)) \<Longrightarrow> list_all ok vs \<Longrightarrow>
     read_times rd (length vs) inp =
       Inr (vs, consumed inp (concat (map (enc (ibigEndian inp)) vs)))"
proof (induction vs arbitrary: inp)
  case (Cons v vs)
  let ?be = "ibigEndian inp"
  have at: "at_bytes inp (enc ?be v)"
    "at_bytes (consumed inp (enc ?be v)) (concat (map (enc ?be) vs))"
    using Cons.prems by (simp_all add: at_bytes_append)
  have "rd inp = Inr (v, consumed inp (enc ?be v))"
    using at(1) Cons.prems by (simp add: rd_at)
  moreover have "read_times rd (length vs) (consumed inp (enc ?be v)) =
      Inr (vs, consumed inp (enc ?be v @ concat (map (enc ?be) vs)))"
    using Cons.IH [of "consumed inp (enc ?be v)"] at(2) Cons.prems
    by (simp add: consumed_append)
  ultimately show ?case by simp
qed simp

lemma array_wr:
  assumes "out_valid out" and "array_ok ok arr"
  shows "appends (writeArray junk (wr junk) arr out) out (enc_array enc (bigEndian out) arr)"
proof (cases arr)
  case None
  with appends_null [OF assms(1), of junk] show ?thesis
    by (simp add: writeArray_def enc_array_def)
next
  case (Some vs)
  have "appends (if int (length vs) > 0 then for_each (wr junk) vs out' else Inr out') out'
      (concat (map (enc (bigEndian out)) vs))"
    if "out_valid out'" and "bigEndian out' = bigEndian out" for out'
    using for_each_appends [of out' vs junk] that assms(2) Some
    by (cases "vs = []") (simp_all add: array_ok_def appends_Inr)
  with Some assms show ?thesis
    by (auto simp: writeArray_def enc_array_def array_ok_def Let_def
        intro!: appends_bind writeInt_appends simp del: of_nat_0_less_iff)
qed

lemma array_rd:
  assumes "at_bytes inp (enc_array enc (ibigEndian inp) arr)" and "array_ok ok arr"
  shows "readArray rd None inp = Inr (arr, consumed inp (enc_array enc (ibigEndian inp) arr))"
proof (cases arr)
  case None
  then have "readInt None inp = Inr (- 1, consumed inp (enc_int (ibigEndian inp) (- 1)))"
    using assms(1) by (intro readInt_at) (simp_all add: enc_array_def size_defs in_sint_def)
  with None show ?thesis by (simp add: readArray_def enc_array_def size_defs)
next
  case (Some vs)
  let ?n = "int (length vs)" and ?be = "ibigEndian inp"
  let ?inp = "consumed inp (enc_int ?be ?n)"
  have at: "at_bytes inp (enc_int ?be ?n)" "at_bytes ?inp (concat (map (enc ?be) vs))"
    using assms(1) Some by (simp_all add: enc_array_def at_bytes_append)
  have "readInt None inp = Inr (?n, ?inp)"
    using at(1) assms(2) Some by (intro readInt_at) (simp_all add: array_ok_def)
  moreover have "read_times rd (length vs) ?inp =
      Inr (vs, consumed inp (enc_int ?be ?n @ concat (map (enc ?be) vs)))"
    using read_times_at [of ?inp vs] at(2) assms(2) Some
    by (simp add: array_ok_def consumed_append)
  ultimately show ?thesis
    using Some by (simp add: readArray_def enc_array_def size_defs)
qed

lemma array_codec:
  "data_codec (\<lambda>junk. writeArray junk (wr junk)) (readArray rd None) (enc_array enc) (array_ok ok)"
  by unfold_locales (simp_all add: array_wr array_rd)

end

interpretation bool_codec: data_codec writeBoolean "readBoolean None" enc_bool "\<lambda>_. True"
  by unfold_locales (simp_all add: writeBoolean_appends readBoolean_at)

interpretation byte_codec: data_codec writeByte "readByte None" enc_byte "in_uint 1"
  by unfold_locales (simp_all add: writeByte_appends readByte_at)

interpretation char_codec: data_codec writeChar "readChar None" enc_char "\<lambda>_. True"
  by unfold_locales (simp_all add: writeChar_appends readChar_at)

interpretation short_codec: data_codec writeShort "readShort None" enc_short "in_sint 2"
  by unfold_locales (simp_all add: writeShort_appends readShort_at)

interpretation int_codec: data_codec writeInt "readInt None" enc_int "in_sint 4"
  by unfold_locales (simp_all add: writeInt_appends readInt_at)

interpretation long_codec: data_codec writeLong "readLong None" enc_long long_ok
  by unfold_locales (simp_all add: writeLong_appends readLong_at)

interpretation float_codec: data_codec write_float "read_float None" enc_float "\<lambda>_. True"
  by unfold_locales (simp_all add: writeFloat_appends readFloat_at)

interpretation double_codec: data_codec write_double "read_double None" enc_double "\<lambda>_. True"
  by unfold_locales (simp_all add: writeDouble_appends readDouble_at)

interpretation string_codec: data_codec writeString "readString None" enc_string string_ok
  by unfold_locales (simp_all add: writeString_appends readString_at)

interpretation bytes_codec: data_codec writeByteArray "readByteArray None" enc_bytes
    "array_ok (\<lambda>_. True)"
  by unfold_locales (simp_all add: writeByteArray_appends readByteArray_at)

subsection \<open>Arrays\<close>

interpretation bools_codec: data_codec writeBooleanArray "readBooleanArray None" "enc_array enc_bool"
    "array_ok (\<lambda>_. True)"
  unfolding writeBooleanArray_def [abs_def] readBooleanArray_def by (rule bool_codec.array_codec)

interpretation chars_codec: data_codec writeCharArray "readCharArray None" "enc_array enc_char"
    "array_ok (\<lambda>_. True)"
  unfolding writeCharArray_def [abs_def] readCharArray_def by (rule char_codec.array_codec)

interpretation shorts_codec: data_codec writeShortArray "readShortArray None" "enc_array enc_short"
    "array_ok (in_sint 2)"
  unfolding writeShortArray_def [abs_def] readShortArray_def by (rule short_codec.array_codec)

interpretation ints_codec: data_codec writeIntArray "readIntArray None" "enc_array enc_int"
    "array_ok (in_sint 4)"
  unfolding writeIntArray_def [abs_def] readIntArray_def by (rule int_codec.array_codec)

interpretation longs_codec: data_codec writeLongArray "readLongArray None" "enc_array enc_long"
    "array_ok (long_ok)"
  unfolding writeLongArray_def [abs_def] readLongArray_def by (rule long_codec.array_codec)

interpretation floats_codec: data_codec writeFloatArray "readFloatArray None" "enc_array enc_float"
    "array_ok (\<lambda>_. True)"
  unfolding writeFloatArray_def [abs_def] readFloatArray_def by (rule float_codec.array_codec)

interpretation doubles_codec: data_codec writeDoubleArray "readDoubleArray None" "enc_array enc_double"
    "array_ok (\<lambda>_. True)"
  unfolding writeDoubleArray_def [abs_def] readDoubleArray_def by (rule double_codec.array_codec)

interpretation strings_codec: data_codec writeStringArray "readStringArray None" "enc_array enc_string"
    "array_ok (string_ok)"
  unfolding writeStringArray_def [abs_def] readStringArray_def by (rule string_codec.array_codec)

subsection \<open>Records of heterogeneous fields\<close>

text \<open>
  What a \<open>writePortable\<close> or \<open>writeData\<close> method does: a sequence of writes of different types,
  read back by the reads of the same types in the same order.
\<close>

datatype field_value =
    FBool "bool"
  | FByte "int"
  | FChar "js_char"
  | FShort "int"
  | FInt "int"
  | FLong "js_long"
  | FFloat "32 word"
  | FDouble "64 word"
  | FString "js_string option"
  | FBytes "buffer option"
  | FBooleans "bool list option"
  | FChars "js_char list option"
  | FShorts "int list option"
  | FInts "int list option"
  | FLongs "js_long list option"
  | FFloats "(32 word) list option"
  | FDoubles "(64 word) list option"
  | FStrings "(js_string option) list option"

datatype field_type =
    TBool | TByte | TChar | TShort | TInt | TLong | TFloat | TDouble | TString
  | TBytes | TBooleans | TChars | TShorts | TInts | TLongs | TFloats | TDoubles | TStrings

fun type_of :: "field_value \<Rightarrow> field_type" where
  "type_of (FBool _) = TBool"
| "type_of (FByte _) = TByte"
| "type_of (FChar _) = TChar"
| "type_of (FShort _) = TShort"
| "type_of (FInt _) = TInt"
| "type_of (FLong _) = TLong"
| "type_of (FFloat _) = TFloat"
| "type_of (FDouble _) = TDouble"
| "type_of (FString _) = TString"
| "type_of (FBytes _) = TBytes"
| "type_of (FBooleans _) = TBooleans"
| "type_of (FChars _) = TChars"
| "type_of (FShorts _) = TShorts"
| "type_of (FInts _) = TInts"
| "type_of (FLongs _) = TLongs"
| "type_of (FFloats _) = TFloats"
| "type_of (FDoubles _) = TDoubles"
| "type_of (FStrings _) = TStrings"

fun field_ok :: "field_value \<Rightarrow> bool" where
  "field_ok (FBool v) = True"
| "field_ok (FByte v) = in_uint 1 v"
| "field_ok (FChar v) = True"
| "field_ok (FShort v) = in_sint 2 v"
| "field_ok (FInt v) = in_sint 4 v"
| "field_ok (FLong v) = long_ok v"
| "field_ok (FFloat v) = True"
| "field_ok (FDouble v) = True"
| "field_ok (FString v) = string_ok v"
| "field_ok (FBytes v) = array_ok (\<lambda>_. True) v"
| "field_ok (FBooleans v) = array_ok (\<lambda>_. True) v"
| "field_ok (FChars v) = array_ok (\<lambda>_. True) v"
| "field_ok (FShorts v) = array_ok (in_sint 2) v"
| "field_ok (FInts v) = array_ok (in_sint 4) v"
| "field_ok (FLongs v) = array_ok (long_ok) v"
| "field_ok (FFloats v) = array_ok (\<lambda>_. True) v"
| "field_ok (FDoubles v) = array_ok (\<lambda>_. True) v"
| "field_ok (FStrings v) = array_ok (string_ok) v"

fun write_field :: "(nat \<Rightarrow> byte) \<Rightarrow> field_value \<Rightarrow> data_output \<Rightarrow> data_output res" where
  "write_field junk (FBool v) = writeBoolean junk v"
| "write_field junk (FByte v) = writeByte junk v"
| "write_field junk (FChar v) = writeChar junk v"
| "write_field junk (FShort v) = writeShort junk v"
| "write_field junk (FInt v) = writeInt junk v"
| "write_field junk (FLong v) = writeLong junk v"
| "write_field junk (FFloat v) = write_float junk v"
| "write_field junk (FDouble v) = write_double junk v"
| "write_field junk (FString v) = writeString junk v"
| "write_field junk (FBytes v) = writeByteArray junk v"
| "write_field junk (FBooleans v) = writeBooleanArray junk v"
| "write_field junk (FChars v) = writeCharArray junk v"
| "write_field junk (FShorts v) = writeShortArray junk v"
| "write_field junk (FInts v) = writeIntArray junk v"
| "write_field junk (FLongs v) = writeLongArray junk v"
| "write_field junk (FFloats v) = writeFloatArray junk v"
| "write_field junk (FDoubles v) = writeDoubleArray junk v"
| "write_field junk (FStrings v) = writeStringArray junk v"

definition as_field :: "('a \<Rightarrow> field_value) \<Rightarrow> ('a \<times> data_input) res \<Rightarrow> (field_value \<times> data_input) res" where
  "as_field f r = bindR r (\<lambda>(v, inp). Inr (f v, inp))"

fun read_field :: "field_type \<Rightarrow> data_input \<Rightarrow> (field_value \<times> data_input) res" where
  "read_field TBool inp = as_field FBool (readBoolean None inp)"
| "read_field TByte inp = as_field FByte (readByte None inp)"
| "read_field TChar inp = as_field FChar (readChar None inp)"
| "read_field TShort inp = as_field FShort (readShort None inp)"
| "read_field TInt inp = as_field FInt (readInt None inp)"
| "read_field TLong inp = as_field FLong (readLong None inp)"
| "read_field TFloat inp = as_field FFloat (read_float None inp)"
| "read_field TDouble inp = as_field FDouble (read_double None inp)"
| "read_field TString inp = as_field FString (readString None inp)"
| "read_field TBytes inp = as_field FBytes (readByteArray None inp)"
| "read_field TBooleans inp = as_field FBooleans (readBooleanArray None inp)"
| "read_field TChars inp = as_field FChars (readCharArray None inp)"
| "read_field TShorts inp = as_field FShorts (readShortArray None inp)"
| "read_field TInts inp = as_field FInts (readIntArray None inp)"
| "read_field TLongs inp = as_field FLongs (readLongArray None inp)"
| "read_field TFloats inp = as_field FFloats (readFloatArray None inp)"
| "read_field TDoubles inp = as_field FDoubles (readDoubleArray None inp)"
| "read_field TStrings inp = as_field FStrings (readStringArray None inp)"

fun field_bytes :: "bool \<Rightarrow> field_value \<Rightarrow> byte list" where
  "field_bytes be (FBool v) = enc_bool be v"
| "field_bytes be (FByte v) = enc_byte be v"
| "field_bytes be (FChar v) = enc_char be v"
| "field_bytes be (FShort v) = enc_short be v"
| "field_bytes be (FInt v) = enc_int be v"
| "field_bytes be (FLong v) = enc_long be v"
| "field_bytes be (FFloat v) = enc_float be v"
| "field_bytes be (FDouble v) = enc_double be v"
| "field_bytes be (FString v) = enc_string be v"
| "field_bytes be (FBytes v) = enc_bytes be v"
| "field_bytes be (FBooleans v) = enc_array enc_bool be v"
| "field_bytes be (FChars v) = enc_array enc_char be v"
| "field_bytes be (FShorts v) = enc_array enc_short be v"
| "field_bytes be (FInts v) = enc_array enc_int be v"
| "field_bytes be (FLongs v) = enc_array enc_long be v"
| "field_bytes be (FFloats v) = enc_array enc_float be v"
| "field_bytes be (FDoubles v) = enc_array enc_double be v"
| "field_bytes be (FStrings v) = enc_array enc_string be v"

fun read_fields :: "field_type list \<Rightarrow> data_input \<Rightarrow> (field_value list \<times> data_input) res" where
  "read_fields [] inp = Inr ([], inp)"
| "read_fields (t # ts) inp =
     bindR (read_field t inp) (\<lambda>(v, inp). bindR (read_fields ts inp) (\<lambda>(vs, inp). Inr (v # vs, inp)))"

lemmas codec_writes = bool_codec.wr_appends
  byte_codec.wr_appends
  char_codec.wr_appends
  short_codec.wr_appends
  int_codec.wr_appends
  long_codec.wr_appends
  float_codec.wr_appends
  double_codec.wr_appends
  string_codec.wr_appends
  bytes_codec.wr_appends
  bools_codec.wr_appends
  chars_codec.wr_appends
  shorts_codec.wr_appends
  ints_codec.wr_appends
  longs_codec.wr_appends
  floats_codec.wr_appends
  doubles_codec.wr_appends
  strings_codec.wr_appends

lemmas codec_reads = bool_codec.rd_at
  byte_codec.rd_at
  char_codec.rd_at
  short_codec.rd_at
  int_codec.rd_at
  long_codec.rd_at
  float_codec.rd_at
  double_codec.rd_at
  string_codec.rd_at
  bytes_codec.rd_at
  bools_codec.rd_at
  chars_codec.rd_at
  shorts_codec.rd_at
  ints_codec.rd_at
  longs_codec.rd_at
  floats_codec.rd_at
  doubles_codec.rd_at
  strings_codec.rd_at

lemma write_field_appends:
  "out_valid out \<Longrightarrow> field_ok v \<Longrightarrow> appends (write_field junk v out) out (field_bytes (bigEndian out) v)"
  by (cases v) (simp_all add: codec_writes)

lemma read_field_at:
  "at_bytes inp (field_bytes (ibigEndian inp) v) \<Longrightarrow> field_ok v \<Longrightarrow>
     read_field (type_of v) inp = Inr (v, consumed inp (field_bytes (ibigEndian inp) v))"
  by (cases v) (simp_all add: codec_reads as_field_def)

lemma write_fields_appends:
  "out_valid out \<Longrightarrow> list_all field_ok vs \<Longrightarrow>
     appends (for_each (write_field junk) vs out) out (concat (map (field_bytes (bigEndian out)) vs))"
proof (induction vs arbitrary: out)
  case (Cons v vs)
  have "appends (bindR (write_field junk v out) (for_each (write_field junk) vs)) out
      (field_bytes (bigEndian out) v @ concat (map (field_bytes (bigEndian out)) vs))"
  proof (rule appends_bind)
    fix out' assume "out_valid out'" and "bigEndian out' = bigEndian out"
    then show "appends (for_each (write_field junk) vs out') out'
        (concat (map (field_bytes (bigEndian out)) vs))"
      using Cons.IH [of out'] Cons.prems by simp
  qed (use Cons.prems in \<open>simp add: write_field_appends\<close>)
  then show ?case by simp
qed (simp add: appends_Inr)

lemma read_fields_at:
  "at_bytes inp (concat (map (field_bytes (ibigEndian inp)) vs)) \<Longrightarrow> list_all field_ok vs \<Longrightarrow>
     read_fields (map type_of vs) inp =
       Inr (vs, consumed inp (concat (map (field_bytes (ibigEndian inp)) vs)))"
proof (induction vs arbitrary: inp)
  case (Cons v vs)
  let ?bs = "field_bytes (ibigEndian inp) v"
  have at: "at_bytes inp ?bs" "at_bytes (consumed inp ?bs) (concat (map (field_bytes (ibigEndian inp)) vs))"
    using Cons.prems by (simp_all add: at_bytes_append)
  with Cons.IH [of "consumed inp ?bs"] Cons.prems show ?case
    by (simp add: read_field_at consumed_append)
qed simp

lemma fresh_output:
  "ObjectDataOutput junk be = Inr out \<Longrightarrow>
     out_valid out \<and> bigEndian out = be \<and> output_toBuffer out = []"
  by (auto simp: ObjectDataOutput_def allocUnsafe_def out_valid_def output_toBuffer_def
      js_slice_upto split: if_splits)

text \<open>
  C11. Whatever fields an object writes to a fresh \<open>ObjectDataOutput\<close> (in either byte order, with
  any uninitialised memory), the writes succeed, and an \<open>ObjectDataInput\<close> of the same byte order
  over the resulting buffer reads the same values back, in order, and ends at the end of the
  buffer.
\<close>

theorem object_data_roundtrip:
  assumes "ObjectDataOutput junk be = Inr out" and "list_all field_ok vs"
  shows "\<exists>out' inp'. for_each (write_field junk) vs out = Inr out' \<and>
    read_fields (map type_of vs) (ObjectDataInput (output_toBuffer out') 0 be) = Inr (vs, inp') \<and>
    input_available inp' = 0"
proof -
  let ?bs = "concat (map (field_bytes be) vs)"
  have out: "out_valid out" "bigEndian out = be" "output_toBuffer out = []"
    using fresh_output [OF assms(1)] by auto
  then obtain out' where out': "for_each (write_field junk) vs out = Inr out'"
    and bs: "output_toBuffer out' = ?bs"
    using write_fields_appends [OF out(1) assms(2), of junk] by (auto simp: appends_def)
  let ?inp = "ObjectDataInput ?bs 0 be"
  have "at_bytes ?inp ?bs" by (simp add: at_bytes_def ObjectDataInput_def)
  then have "read_fields (map type_of vs) ?inp = Inr (vs, consumed ?inp ?bs)"
    using read_fields_at [of ?inp vs] assms(2) by (simp add: ObjectDataInput_def)
  moreover have "input_available (consumed ?inp ?bs) = 0"
    by (simp add: input_available_def ObjectDataInput_def)
  ultimately show ?thesis using out' bs by auto
qed

theorem object_data_roundtrip_witness:
  "\<exists>out. ObjectDataOutput (\<lambda>_. 7) True = Inr out \<and>
    (\<exists>out' inp'. for_each (write_field (\<lambda>_. 7)) [FInt (- 5), FString (Some [72, 105]), FBooleans None] out = Inr out' \<and>
      read_fields [TInt, TString, TBooleans] (ObjectDataInput (output_toBuffer out') 0 True) =
        Inr ([FInt (- 5), FString (Some [72, 105]), FBooleans None], inp') \<and> input_available inp' = 0)"
proof -
  obtain out where out: "ObjectDataOutput (\<lambda>_. 7) True = Inr out"
    by (simp add: ObjectDataOutput_def allocUnsafe_def OUTPUT_BUFFER_INITIAL_SIZE_def
        heap_data_offsets size_defs)
  have "list_all field_ok [FInt (- 5), FString (Some [72, 105]), FBooleans None]"
    by (simp add: in_sint_def string_ok_def array_ok_def is_high_def is_low_def utf8_encode_def
        unit_scalar_def utf8_scalar_def)
  from object_data_roundtrip [OF out this] out show ?thesis by simp
qed

definition read_pos :: "int option \<Rightarrow> data_input \<Rightarrow> int" where
  "read_pos p inp = (case p of None \<Rightarrow> ipos inp | Some q \<Rightarrow> q)"

definition fixed_read :: "nat \<Rightarrow> (byte list \<Rightarrow> 'a) \<Rightarrow> int option \<Rightarrow> data_input \<Rightarrow> ('a \<times> data_input) res" where
  "fixed_read n dec p inp =
     (if 0 \<le> read_pos p inp \<and> read_pos p inp + int n \<le> int (length (ibuf inp))
      then Inr (dec (take n (drop (nat (read_pos p inp)) (ibuf inp))),
                if p = None then inp\<lparr>ipos := ipos inp + int n\<rparr> else inp)
      else Inl AssertionError)"

definition dec_long :: "bool \<Rightarrow> byte list \<Rightarrow> js_long" where
  "dec_long be bs =
     (let x = sint_val be (take 4 bs); y = sint_val be (drop 4 bs)
      in if be then \<lparr>low = y, high = x\<rparr> else \<lparr>low = x, high = y\<rparr>)"

lemmas fixed_read_defs = fixed_read_def read_pos_def assertAvailable_def assertR_def at_cursor_def
  reads_get buf_get_def size_defs Let_def

lemma fixed_reads:
  "readByte p inp = fixed_read 1 (uint_val False) p inp"
  "readShort p inp = fixed_read 2 (sint_val (ibigEndian inp)) p inp"
  "readInt p inp = fixed_read 4 (sint_val (ibigEndian inp)) p inp"
  "readLong p inp = fixed_read 8 (dec_long (ibigEndian inp)) p inp"
  "read_float p inp = fixed_read 4 (\<lambda>bs. word_of_int (uint_val (ibigEndian inp) bs)) p inp"
  "read_double p inp = fixed_read 8 (\<lambda>bs. word_of_int (uint_val (ibigEndian inp) bs)) p inp"
  subgoal by (simp add: readByte_def read_in_def fixed_read_defs split: option.split)
  subgoal by (simp add: readShort_def fixed_read_defs split: option.split)
  subgoal by (simp add: readInt_def fixed_read_defs split: option.split)
  subgoal by (simp add: readLong_def dec_long_def fixed_read_defs nat_add_distrib take_drop add.commute split: option.split)
  subgoal by (simp add: read_float_def fixed_read_defs split: option.split)
  subgoal by (simp add: read_double_def fixed_read_defs split: option.split)
  done


text \<open>
  C24. \<open>readChar\<close> at an explicit position checks the wrong position: it asserts that two bytes are
  available at the cursor. With the cursor at the end of the buffer it raises for every
  position, also for those where the character can be read.
\<close>

theorem readChar_checks_cursor:
  assumes "ipos inp + 2 > int (length (ibuf inp))"
  shows "readChar (Some p) inp = Inl AssertionError"
  using assms by (simp add: readChar_def assertAvailable_def assertR_def size_defs Let_def)

theorem readChar_checks_cursor_witness:
  "let inp = (ObjectDataInput [0, 65] 0 True)\<lparr>ipos := 2\<rparr> in
     readChar (Some 0) inp = Inl AssertionError \<and>
     readUInt16 (ibuf inp) 0 True = Inr 65"
  using readChar_checks_cursor [of "(ObjectDataInput [0, 65] 0 True)\<lparr>ipos := 2\<rparr>" 0]
  by (simp add: ObjectDataInput_def readUInt16_def buf_read_uint_def buf_get_def uint_val_def)



end
