(* ===== verification/DataStoreHashMap.thy ===== *)
theory DataStoreHashMap
  imports HeapData "HOL-Library.AList"
begin

section \<open>Hash map keyed by serialized objects (src/src/nearcache/DataStoreHashMap.ts)\<close>

text \<open>
  \<open>DataKeyedHashMap\<close>: a JavaScript map from hash codes to buckets, each bucket an array of key-value
  records. The JavaScript map is the list of its entries in insertion order, \<open>AList.update\<close> is its \<open>set\<close>.
  Keys are data of the serialization service; \<open>hashCode\<close> and \<open>equals\<close> raise on a null payload.
\<close>

record 'v keyed_map =
  msize :: int
  internalStore :: "(int \<times> (heap_data \<times> 'v) list) list"

definition new_keyed_map :: "'v keyed_map" where
  "new_keyed_map = \<lparr>msize = 0, internalStore = []\<rparr>"

definition map_clear :: "'v keyed_map \<Rightarrow> 'v keyed_map" where
  "map_clear m = m\<lparr>msize := 0, internalStore := []\<rparr>"

text \<open>\<open>bucket.findIndex(item => item.key.equals(key))\<close>, counting from \<open>i\<close>.\<close>

fun findIndex :: "heap_data \<Rightarrow> int \<Rightarrow> (heap_data \<times> 'v) list \<Rightarrow> int res" where
  "findIndex key i [] = Inr (-1)"
| "findIndex key i ((k, v) # es) =
     bindR (equals k key) (\<lambda>e. if e then Inr i else findIndex key (i + 1) es)"

definition findIndexInBucket :: "heap_data \<Rightarrow> 'v keyed_map \<Rightarrow> int res" where
  "findIndexInBucket key m =
     bindR (hashCode key) (\<lambda>keyHash.
       case map_of (internalStore m) keyHash of None \<Rightarrow> Inr (-1) | Some bucket \<Rightarrow> findIndex key 0 bucket)"

definition getOrCreateBucket :: "int \<Rightarrow> 'v keyed_map \<Rightarrow> (heap_data \<times> 'v) list \<times> 'v keyed_map" where
  "getOrCreateBucket keyHash m =
     (case map_of (internalStore m) keyHash of
        Some bucket \<Rightarrow> (bucket, m)
      | None \<Rightarrow> ([], m\<lparr>internalStore := AList.update keyHash [] (internalStore m)\<rparr>))"

text \<open>The bucket array is changed in place; the model writes the changed bucket back.\<close>

definition put_bucket :: "int \<Rightarrow> (heap_data \<times> 'v) list \<Rightarrow> 'v keyed_map \<Rightarrow> 'v keyed_map" where
  "put_bucket keyHash bucket m = m\<lparr>internalStore := AList.update keyHash bucket (internalStore m)\<rparr>"

definition map_delete :: "heap_data \<Rightarrow> 'v keyed_map \<Rightarrow> (bool \<times> 'v keyed_map) res" where
  "map_delete key m =
     bindR (findIndexInBucket key m) (\<lambda>i.
       if i = -1 then Inr (False, m)
       else bindR (hashCode key) (\<lambda>keyHash.
         case getOrCreateBucket keyHash m of (bucket, m) \<Rightarrow>
           let m = put_bucket keyHash (take (nat i) bucket @ drop (Suc (nat i)) bucket) m
           in Inr (True, m\<lparr>msize := msize m - 1\<rparr>)))"

definition map_has :: "heap_data \<Rightarrow> 'v keyed_map \<Rightarrow> bool res" where
  "map_has key m = bindR (findIndexInBucket key m) (\<lambda>i. Inr (i \<noteq> -1))"

definition map_get :: "heap_data \<Rightarrow> 'v keyed_map \<Rightarrow> 'v option res" where
  "map_get key m =
     bindR (hashCode key) (\<lambda>keyHash.
     bindR (findIndexInBucket key m) (\<lambda>i.
       if i \<noteq> -1 then Inr (Some (snd (fst (getOrCreateBucket keyHash m) ! nat i))) else Inr None))"

definition map_set :: "heap_data \<Rightarrow> 'v \<Rightarrow> 'v keyed_map \<Rightarrow> 'v keyed_map res" where
  "map_set key v m =
     bindR (hashCode key) (\<lambda>keyHash.
     bindR (findIndexInBucket key m) (\<lambda>i.
       case getOrCreateBucket keyHash m of (bucket, m) \<Rightarrow>
         if i \<noteq> -1 then Inr (put_bucket keyHash (bucket[nat i := (fst (bucket ! nat i), v)]) m)
         else let m = put_bucket keyHash (bucket @ [(key, v)]) m in Inr (m\<lparr>msize := msize m + 1\<rparr>)))"

definition map_values :: "'v keyed_map \<Rightarrow> 'v list" where
  "map_values m = concat (map (\<lambda>(h, bucket). map snd bucket) (internalStore m))"

definition map_entries :: "'v keyed_map \<Rightarrow> (heap_data \<times> 'v) list" where
  "map_entries m = concat (map snd (internalStore m))"

subsection \<open>Invariant and abstraction\<close>

text \<open>
  A bucket holds keys with a payload, of the hash code it is filed under, with pairwise different
  bodies; no hash code has two buckets; the size is the number of entries.
\<close>

definition bucket_ok :: "int \<Rightarrow> (heap_data \<times> 'v) list \<Rightarrow> bool" where
  "bucket_ok h b \<longleftrightarrow> (let ks = map fst b in
     list_all (\<lambda>k. payload k \<noteq> None \<and> key_hash (body k) = h) ks \<and> distinct (map body ks))"

definition keyed_inv :: "'v keyed_map \<Rightarrow> bool" where
  "keyed_inv m \<longleftrightarrow> distinct (map fst (internalStore m)) \<and>
     list_all (\<lambda>(h, b). bucket_ok h b) (internalStore m) \<and> msize m = int (length (map_values m))"

abbreviation by_body :: "(heap_data \<times> 'v) list \<Rightarrow> (byte list \<times> 'v) list" where
  "by_body b \<equiv> map (\<lambda>(k, v). (body k, v)) b"

definition keyed_abs :: "'v keyed_map \<Rightarrow> byte list \<Rightarrow> 'v option" where
  "keyed_abs m x = (case map_of (internalStore m) (key_hash x) of None \<Rightarrow> None | Some b \<Rightarrow> map_of (by_body b) x)"

subsection \<open>The interface\<close>

text \<open>
  What a client of the map relies on: a finite map from the bodies of the keys to values, with its
  size and the collection of its values. Keys are looked at up to their body only.
\<close>

locale keyed_store =
  fixes empty :: 'm
    and get :: "heap_data \<Rightarrow> 'm \<Rightarrow> 'v option res"
    and put :: "heap_data \<Rightarrow> 'v \<Rightarrow> 'm \<Rightarrow> 'm res"
    and del :: "heap_data \<Rightarrow> 'm \<Rightarrow> (bool \<times> 'm) res"
    and vals :: "'m \<Rightarrow> 'v list"
    and sz :: "'m \<Rightarrow> int"
    and inv :: "'m \<Rightarrow> bool"
    and abs :: "'m \<Rightarrow> byte list \<Rightarrow> 'v option"
  assumes empty_law: "inv empty \<and> abs empty = (\<lambda>_. None)"
    and get_law: "inv m \<Longrightarrow> payload k \<noteq> None \<Longrightarrow> get k m = Inr (abs m (body k))"
    and put_law: "inv m \<Longrightarrow> payload k \<noteq> None \<Longrightarrow>
      \<exists>m'. put k v m = Inr m' \<and> inv m' \<and> abs m' = (abs m)(body k \<mapsto> v)"
    and del_law: "inv m \<Longrightarrow> payload k \<noteq> None \<Longrightarrow>
      \<exists>m'. del k m = Inr (abs m (body k) \<noteq> None, m') \<and> inv m' \<and> abs m' = (abs m)(body k := None)"
    and vals_law: "inv m \<Longrightarrow> set (vals m) = ran (abs m)"
    and size_law: "inv m \<Longrightarrow> finite (dom (abs m)) \<and> sz m = int (card (dom (abs m))) \<and> sz m = int (length (vals m))"
begin

lemma size_put:
  assumes "inv m" "payload k \<noteq> None" "put k v m = Inr m'"
  shows "sz m' = sz m + (if abs m (body k) = None then 1 else 0)"
proof -
  have m': "inv m'" "abs m' = (abs m)(body k \<mapsto> v)" using put_law [OF assms(1,2), of v] assms(3) by auto
  show ?thesis
    using size_law [OF assms(1)] size_law [OF m'(1)] m'(2) by (auto simp: domIff card_insert_if)
qed

lemma size_del:
  assumes "inv m" "payload k \<noteq> None" "del k m = Inr (b, m')"
  shows "sz m' = sz m - (if b then 1 else 0)"
proof -
  have m': "b = (abs m (body k) \<noteq> None)" "inv m'" "abs m' = (abs m)(body k := None)"
    using del_law [OF assms(1,2)] assms(3) by auto
  have "card (dom (abs m) - {body k}) = card (dom (abs m)) - (if b then 1 else 0)"
    using size_law [OF assms(1)] m'(1) by (auto simp: domIff)
  moreover have "b \<Longrightarrow> 0 < card (dom (abs m))"
    using size_law [OF assms(1)] m'(1) by (auto simp: card_gt_0_iff)
  ultimately show ?thesis
    using size_law [OF assms(1)] size_law [OF m'(2)] m'(3) by (auto split: if_splits)
qed

lemma vals_empty_iff: "inv m \<Longrightarrow> vals m = [] \<longleftrightarrow> sz m = 0"
  using size_law [of m] by auto

end

subsection \<open>The map provides the interface\<close>

lemma findIndex_spec:
  assumes "payload key \<noteq> None" "list_all (\<lambda>(k, v). payload k \<noteq> None) es" "distinct (map (body \<circ> fst) es)"
  shows "map_of (by_body es) (body key) = None \<and> findIndex key i es = Inr (-1) \<or>
    (\<exists>j < length es. findIndex key i es = Inr (i + int j) \<and> body (fst (es ! j)) = body key \<and>
       map_of (by_body es) (body key) = Some (snd (es ! j)))"
  using assms
proof (induction es arbitrary: i)
  case (Cons e es)
  obtain k v where e: "e = (k, v)" by (cases e)
  have eq: "equals k key = Inr (body k = body key)" using Cons.prems e by (simp add: equals_body)
  show ?case
  proof (cases "body k = body key")
    case True
    then show ?thesis using e eq by (intro disjI2 exI [of _ 0]) simp
  next
    case False
    then consider "map_of (by_body es) (body key) = None" "findIndex key (i + 1) es = Inr (-1)"
      | j where "j < length es" "findIndex key (i + 1) es = Inr (i + 1 + int j)" "body (fst (es ! j)) = body key"
        "map_of (by_body es) (body key) = Some (snd (es ! j))"
      using Cons.IH [of "i + 1"] Cons.prems by auto
    then show ?thesis
    proof cases
      case 1
      then show ?thesis using False e eq by simp
    next
      case (2 j)
      then show ?thesis using False e eq by (intro disjI2 exI [of _ "Suc j"]) simp
    qed
  qed
qed simp

lemma keyed_bucket: "keyed_inv m \<Longrightarrow> map_of (internalStore m) h = Some b \<Longrightarrow> bucket_ok h b"
  by (auto simp: keyed_inv_def list_all_iff dest!: map_of_SomeD)

lemma find_spec:
  assumes "keyed_inv m" "payload key \<noteq> None"
  obtains (absent) "keyed_abs m (body key) = None" "findIndexInBucket key m = Inr (-1)"
  | (present) b j where "map_of (internalStore m) (key_hash (body key)) = Some b" "j < length b"
      "findIndexInBucket key m = Inr (int j)" "body (fst (b ! j)) = body key"
      "keyed_abs m (body key) = Some (snd (b ! j))"
proof (cases "map_of (internalStore m) (key_hash (body key))")
  case None
  then show ?thesis using assms absent by (simp add: keyed_abs_def findIndexInBucket_def hashCode_body)
next
  case (Some b)
  have "list_all (\<lambda>(k, v). payload k \<noteq> None) b" "distinct (map (body \<circ> fst) b)"
    using keyed_bucket [OF assms(1) Some] by (auto simp: bucket_ok_def Let_def list_all_iff comp_def)
  then show ?thesis
    using findIndex_spec [OF assms(2), of b 0] Some assms(2) absent present [OF Some]
    by (auto simp: keyed_abs_def findIndexInBucket_def hashCode_body)
qed

abbreviation entry_count :: "(int \<times> (heap_data \<times> 'v) list) list \<Rightarrow> nat" where
  "entry_count al \<equiv> sum_list (map (\<lambda>(h, b). length b) al)"

lemma length_map_values: "length (map_values m) = entry_count (internalStore m)"
  by (simp add: map_values_def length_concat case_prod_beta' comp_def)

lemma entry_count_update:
  "distinct (map fst al) \<Longrightarrow>
     entry_count (AList.update h b al) + (case map_of al h of None \<Rightarrow> 0 | Some b' \<Rightarrow> length b') =
     entry_count al + length b"
  by (induction al) (auto split: option.splits)

lemma set_update_cases: "x \<in> set (AList.update h b al) \<Longrightarrow> x = (h, b) \<or> x \<in> set al"
  by (induction al) (auto split: if_splits)

lemma put_bucket_spec:
  assumes m: "distinct (map fst (internalStore m))" "list_all (\<lambda>(h, b). bucket_ok h b) (internalStore m)"
    and b: "bucket_ok h b"
  shows "distinct (map fst (internalStore (put_bucket h b m)))"
    and "list_all (\<lambda>(h, b). bucket_ok h b) (internalStore (put_bucket h b m))"
    and "keyed_abs (put_bucket h b m) x = (if key_hash x = h then map_of (by_body b) x else keyed_abs m x)"
proof -
  show "distinct (map fst (internalStore (put_bucket h b m)))"
    using distinct_update [OF m(1)] by (simp add: put_bucket_def)
  show "list_all (\<lambda>(h, b). bucket_ok h b) (internalStore (put_bucket h b m))"
    using m(2) b by (auto simp: put_bucket_def list_all_iff dest!: set_update_cases)
  show "keyed_abs (put_bucket h b m) x = (if key_hash x = h then map_of (by_body b) x else keyed_abs m x)"
    by (simp add: keyed_abs_def put_bucket_def update_conv')
qed

lemma put_bucket_size:
  assumes "keyed_inv m"
  shows "int (length (map_values (put_bucket h b m))) =
    msize m + int (length b) - (case map_of (internalStore m) h of None \<Rightarrow> 0 | Some b' \<Rightarrow> int (length b'))"
proof -
  have "distinct (map fst (internalStore m))" "msize m = int (entry_count (internalStore m))"
    using assms by (auto simp: keyed_inv_def length_map_values)
  moreover note entry_count_update [of "internalStore m" h b]
  moreover have "entry_count (internalStore (put_bucket h b m)) = entry_count (AList.update h b (internalStore m))"
    by (simp add: put_bucket_def)
  ultimately show ?thesis unfolding length_map_values by (cases "map_of (internalStore m) h") simp_all
qed

lemma put_bucket_inv:
  assumes "keyed_inv m" "bucket_ok h b"
    and "d = int (length b) - (case map_of (internalStore m) h of None \<Rightarrow> 0 | Some b' \<Rightarrow> int (length b'))"
  shows "keyed_inv ((put_bucket h b m)\<lparr>msize := msize m + d\<rparr>)"
  using put_bucket_spec(1,2) [of m h b] put_bucket_size [OF assms(1), of h b] assms
  by (simp add: keyed_inv_def map_values_def)

lemma bucket_twice: "put_bucket h b (m\<lparr>internalStore := AList.update h b' (internalStore m)\<rparr>) = put_bucket h b m"
proof -
  have "AList.update h b (AList.update h b' al) = AList.update h b al" for al
    by (induction al) auto
  then show ?thesis by (simp add: put_bucket_def)
qed

lemma bucket_append:
  "bucket_ok h b \<Longrightarrow> payload k \<noteq> None \<Longrightarrow> key_hash (body k) = h \<Longrightarrow> map_of (by_body b) (body k) = None \<Longrightarrow>
     bucket_ok h (b @ [(k, v)])"
  by (auto simp: bucket_ok_def Let_def map_of_eq_None_iff image_iff)

lemma bucket_Nil: "bucket_ok h []"
  by (simp add: bucket_ok_def)

lemma map_of_set_nth:
  "distinct (map fst xs) \<Longrightarrow> j < length xs \<Longrightarrow> map_of (xs[j := (fst (xs ! j), v)]) = (map_of xs)(fst (xs ! j) \<mapsto> v)"
proof (induction xs arbitrary: j)
  case (Cons x xs)
  then show ?case
  proof (cases j)
    case (Suc i)
    then have "fst (xs ! i) \<noteq> fst x" using Cons.prems nth_mem [of i "map fst xs"] by (metis Suc_less_eq distinct.simps(2) length_Cons length_map list.simps(9) nth_map)
    then show ?thesis using Cons Suc by (auto simp: fun_upd_twist)
  qed auto
qed simp

lemma map_of_remove_nth:
  "distinct (map fst xs) \<Longrightarrow> j < length xs \<Longrightarrow>
     map_of (take j xs @ drop (Suc j) xs) = (map_of xs)(fst (xs ! j) := None)"
proof (induction xs arbitrary: j)
  case (Cons x xs)
  then show ?case
  proof (cases j)
    case 0
    have "map_of xs (fst x) = None" using Cons.prems by (simp add: map_of_eq_None_iff)
    then show ?thesis using 0 by (auto simp: fun_upd_idem)
  next
    case (Suc i)
    then have "fst (xs ! i) \<noteq> fst x" using Cons.prems nth_mem [of i "map fst xs"] by (metis Suc_less_eq distinct.simps(2) length_Cons length_map list.simps(9) nth_map)
    then show ?thesis using Cons Suc by (auto simp: fun_upd_twist)
  qed
qed simp

lemma bucket_update:
  assumes "bucket_ok h b" "j < length b"
  shows "bucket_ok h (b[j := (fst (b ! j), v)])"
    and "map_of (by_body (b[j := (fst (b ! j), v)])) = (map_of (by_body b))(body (fst (b ! j)) \<mapsto> v)"
proof -
  let ?b = "b[j := (fst (b ! j), v)]"
  have keys: "map fst ?b = map fst b"
    using assms(2) by (simp add: map_update) (metis list_update_id nth_map)
  have d: "distinct (map fst (by_body b))" using assms(1) by (simp add: bucket_ok_def Let_def case_prod_beta' comp_def)
  show "bucket_ok h ?b" using assms(1) keys by (simp add: bucket_ok_def Let_def del: map_map)
  have "by_body ?b = (by_body b)[j := (fst (by_body b ! j), v)]"
    using assms(2) by (simp add: map_update case_prod_beta')
  then show "map_of (by_body ?b) = (map_of (by_body b))(body (fst (b ! j)) \<mapsto> v)"
    using map_of_set_nth [OF d, of j v] assms(2) by (simp add: case_prod_beta')
qed

lemma bucket_remove:
  assumes "bucket_ok h b" "j < length b"
  shows "bucket_ok h (take j b @ drop (Suc j) b)"
    and "map_of (by_body (take j b @ drop (Suc j) b)) = (map_of (by_body b))(body (fst (b ! j)) := None)"
proof -
  have d: "distinct (map fst (by_body b))" using assms(1) by (simp add: bucket_ok_def Let_def case_prod_beta' comp_def)
  have "distinct (take j xs @ drop (Suc j) xs)" if "distinct xs" for xs :: "byte list list"
    using that set_take_disj_set_drop_if_distinct [of xs j "Suc j"] by simp
  from this [of "map body (map fst b)"] show "bucket_ok h (take j b @ drop (Suc j) b)"
    using assms(1) by (auto simp: bucket_ok_def Let_def take_map drop_map list_all_iff dest: in_set_takeD in_set_dropD)
  show "map_of (by_body (take j b @ drop (Suc j) b)) = (map_of (by_body b))(body (fst (b ! j)) := None)"
    using map_of_remove_nth [OF d, of j] assms(2) by (simp add: take_map drop_map case_prod_beta')
qed

lemma put_law:
  assumes "keyed_inv m" "payload k \<noteq> None"
  shows "\<exists>m'. map_set k v m = Inr m' \<and> keyed_inv m' \<and> keyed_abs m' = (keyed_abs m)(body k \<mapsto> v)"
proof -
  let ?h = "key_hash (body k)"
  have wf: "distinct (map fst (internalStore m))" "list_all (\<lambda>(h, b). bucket_ok h b) (internalStore m)"
    using assms(1) by (auto simp: keyed_inv_def)
  show ?thesis
  proof (cases rule: find_spec [OF assms])
    case 1
    define b where "b = (case map_of (internalStore m) ?h of None \<Rightarrow> [] | Some b \<Rightarrow> b)"
    have b: "bucket_ok ?h (b @ [(k, v)])"
      using keyed_bucket [OF assms(1)] 1(1) assms(2)
      by (intro bucket_append) (auto simp: b_def bucket_Nil keyed_abs_def split: option.splits)
    have "map_set k v m = Inr ((put_bucket ?h (b @ [(k, v)]) m)\<lparr>msize := msize m + 1\<rparr>)"
      using 1(2) assms(2) by (cases "map_of (internalStore m) ?h")
        (simp_all add: map_set_def hashCode_body getOrCreateBucket_def b_def bucket_twice Let_def,
          simp_all add: put_bucket_def)
    moreover have "keyed_inv ((put_bucket ?h (b @ [(k, v)]) m)\<lparr>msize := msize m + 1\<rparr>)"
      by (rule put_bucket_inv [OF assms(1) b]) (auto simp: b_def split: option.splits)
    moreover have "keyed_abs ((put_bucket ?h (b @ [(k, v)]) m)\<lparr>msize := msize m + 1\<rparr>) = (keyed_abs m)(body k \<mapsto> v)"
      using put_bucket_spec(3) [OF wf b] 1(1)
      by (auto simp: fun_eq_iff keyed_abs_def b_def map_add_def split: option.splits)
    ultimately show ?thesis by blast
  next
    case (2 b j)
    let ?b = "b[j := (fst (b ! j), v)]"
    note b = bucket_update [OF keyed_bucket [OF assms(1) 2(1)] 2(2), of v]
    have "map_set k v m = Inr ((put_bucket ?h ?b m)\<lparr>msize := msize m + 0\<rparr>)"
      using 2 assms(2) by (simp add: map_set_def hashCode_body getOrCreateBucket_def put_bucket_def)
    moreover have "keyed_inv ((put_bucket ?h ?b m)\<lparr>msize := msize m + 0\<rparr>)"
      by (rule put_bucket_inv [OF assms(1) b(1)]) (simp add: 2(1))
    moreover have "keyed_abs ((put_bucket ?h ?b m)\<lparr>msize := msize m + 0\<rparr>) = (keyed_abs m)(body k \<mapsto> v)"
      using put_bucket_spec(3) [OF wf b(1)] b(2) 2(1,4) by (auto simp: fun_eq_iff keyed_abs_def)
    ultimately show ?thesis by blast
  qed
qed

lemma del_law:
  assumes "keyed_inv m" "payload k \<noteq> None"
  shows "\<exists>m'. map_delete k m = Inr (keyed_abs m (body k) \<noteq> None, m') \<and> keyed_inv m' \<and>
    keyed_abs m' = (keyed_abs m)(body k := None)"
proof -
  let ?h = "key_hash (body k)"
  have wf: "distinct (map fst (internalStore m))" "list_all (\<lambda>(h, b). bucket_ok h b) (internalStore m)"
    using assms(1) by (auto simp: keyed_inv_def)
  show ?thesis
  proof (cases rule: find_spec [OF assms])
    case 1
    then show ?thesis using assms(1) by (auto simp: map_delete_def fun_upd_idem)
  next
    case (2 b j)
    let ?b = "take j b @ drop (Suc j) b"
    note b = bucket_remove [OF keyed_bucket [OF assms(1) 2(1)] 2(2)]
    have "map_delete k m = Inr (True, (put_bucket ?h ?b m)\<lparr>msize := msize m + (-1)\<rparr>)"
      using 2 assms(2) by (simp add: map_delete_def hashCode_body getOrCreateBucket_def put_bucket_def Let_def)
    moreover have "keyed_inv ((put_bucket ?h ?b m)\<lparr>msize := msize m + (-1)\<rparr>)"
      by (rule put_bucket_inv [OF assms(1) b(1)]) (use 2(1,2) in \<open>simp add: of_nat_diff\<close>)
    moreover have "keyed_abs ((put_bucket ?h ?b m)\<lparr>msize := msize m + (-1)\<rparr>) = (keyed_abs m)(body k := None)"
      using put_bucket_spec(3) [OF wf b(1)] b(2) 2(1,4) by (auto simp: fun_eq_iff keyed_abs_def)
    ultimately show ?thesis using 2(5) by auto
  qed
qed

lemma get_law:
  assumes "keyed_inv m" "payload k \<noteq> None"
  shows "map_get k m = Inr (keyed_abs m (body k))"
  using assms(2) by (cases rule: find_spec [OF assms]) (simp_all add: map_get_def hashCode_body getOrCreateBucket_def)

lemma has_law:
  assumes "keyed_inv m" "payload k \<noteq> None"
  shows "map_has k m = Inr (keyed_abs m (body k) \<noteq> None)"
  by (cases rule: find_spec [OF assms]) (simp_all add: map_has_def)

text \<open>The map is the association list of its entries, by body.\<close>

lemma bucket_hash: "bucket_ok h b \<Longrightarrow> key_hash x \<noteq> h \<Longrightarrow> map_of (by_body b) x = None"
  by (auto simp: bucket_ok_def Let_def list_all_iff map_of_eq_None_iff)

lemma buckets_entries:
  assumes "distinct (map fst al)" "list_all (\<lambda>(h, b). bucket_ok h b) al"
  shows "map_of (by_body (concat (map snd al))) x =
    (case map_of al (key_hash x) of None \<Rightarrow> None | Some b \<Rightarrow> map_of (by_body b) x)"
  using assms
proof (induction al)
  case (Cons a al)
  obtain h b where a: "a = (h, b)" by (cases a)
  show ?case
  proof (cases "key_hash x = h")
    case True
    then have "map_of al (key_hash x) = None" using Cons.prems(1) a by (simp add: map_of_eq_None_iff)
    then show ?thesis using True Cons a by (auto simp: map_add_def split: option.splits)
  next
    case False
    then show ?thesis using Cons a bucket_hash [of h b x] by (auto simp: map_add_def split: option.splits)
  qed
qed simp

lemma buckets_distinct:
  assumes "distinct (map fst al)" "list_all (\<lambda>(h, b). bucket_ok h b) al"
  shows "distinct (map fst (by_body (concat (map snd al))))"
  using assms
proof (induction al)
  case (Cons a al)
  obtain h b where a: "a = (h, b)" by (cases a)
  have "x \<notin> set (map fst (by_body (concat (map snd al))))" if "key_hash x = h" for x
  proof -
    have "map_of al h = None" using Cons.prems(1) a by (auto simp: map_of_eq_None_iff)
    then have "map_of (by_body (concat (map snd al))) x = None"
      using buckets_entries [of al x] Cons.prems a that by simp
    then show ?thesis unfolding map_of_eq_None_iff set_map .
  qed
  moreover have "key_hash x = h" if "x \<in> set (map fst (by_body b))" for x
    using Cons.prems a that by (auto simp: bucket_ok_def Let_def list_all_iff)
  ultimately have "set (map fst (by_body b)) \<inter> set (map fst (by_body (concat (map snd al)))) = {}"
    by blast
  moreover have "distinct (map fst (by_body b))"
    using Cons.prems a by (simp add: bucket_ok_def Let_def case_prod_beta' comp_def)
  ultimately show ?case using Cons a by simp
qed simp

lemma abs_entries:
  assumes "keyed_inv m"
  shows "keyed_abs m = map_of (by_body (map_entries m))" "distinct (map fst (by_body (map_entries m)))"
  using assms buckets_entries [of "internalStore m"] buckets_distinct [of "internalStore m"]
  by (auto simp: keyed_inv_def keyed_abs_def map_entries_def fun_eq_iff)

lemma values_entries: "map_values m = map snd (by_body (map_entries m))"
  by (simp add: map_values_def map_entries_def map_concat case_prod_beta' comp_def)

lemma new_keyed_map_ok [simp]: "keyed_inv new_keyed_map" "keyed_abs new_keyed_map = (\<lambda>_. None)"
  by (simp_all add: keyed_inv_def keyed_abs_def new_keyed_map_def map_values_def fun_eq_iff)

interpretation store: keyed_store new_keyed_map map_get map_set map_delete map_values msize keyed_inv keyed_abs
proof
  fix m :: "'v keyed_map" assume m: "keyed_inv m"
  note e = abs_entries [OF m]
  show "set (map_values m) = ran (keyed_abs m)"
    using ran_distinct [OF e(2)] by (simp add: e(1) values_entries del: map_map)
  have "card (dom (keyed_abs m)) = length (map_values m)"
    using distinct_card [OF e(2)] by (simp add: e(1) dom_map_of_conv_image_fst values_entries image_image)
  moreover have "finite (dom (keyed_abs m))" by (simp add: e(1) finite_dom_map_of)
  moreover have "msize m = int (length (map_values m))" using m by (simp add: keyed_inv_def)
  ultimately show "finite (dom (keyed_abs m)) \<and> msize m = int (card (dom (keyed_abs m))) \<and>
      msize m = int (length (map_values m))"
    by simp
qed (simp, rule get_law, assumption+, rule put_law, assumption+, rule del_law, assumption+)

subsection \<open>Sequences of operations\<close>

datatype 'v map_op = OpSet heap_data 'v | OpDelete heap_data | OpClear

fun op_key_ok :: "'v map_op \<Rightarrow> bool" where
  "op_key_ok (OpSet k v) \<longleftrightarrow> payload k \<noteq> None"
| "op_key_ok (OpDelete k) \<longleftrightarrow> payload k \<noteq> None"
| "op_key_ok OpClear \<longleftrightarrow> True"

fun run_op :: "'v map_op \<Rightarrow> 'v keyed_map \<Rightarrow> 'v keyed_map res" where
  "run_op (OpSet k v) m = map_set k v m"
| "run_op (OpDelete k) m = bindR (map_delete k m) (\<lambda>(b, m). Inr m)"
| "run_op OpClear m = Inr (map_clear m)"

fun run_ops :: "'v map_op list \<Rightarrow> 'v keyed_map \<Rightarrow> 'v keyed_map res" where
  "run_ops [] m = Inr m"
| "run_ops (x # xs) m = bindR (run_op x m) (run_ops xs)"

fun spec_op :: "'v map_op \<Rightarrow> (byte list \<Rightarrow> 'v option) \<Rightarrow> byte list \<Rightarrow> 'v option" where
  "spec_op (OpSet k v) f = f(body k \<mapsto> v)"
| "spec_op (OpDelete k) f = f(body k := None)"
| "spec_op OpClear f = (\<lambda>_. None)"

lemma run_op_refines:
  "keyed_inv m \<Longrightarrow> op_key_ok x \<Longrightarrow>
     \<exists>m'. run_op x m = Inr m' \<and> keyed_inv m' \<and> keyed_abs m' = spec_op x (keyed_abs m)"
  using put_law [of m] del_law [of m]
  by (cases x) (force simp: map_clear_def new_keyed_map_def keyed_inv_def keyed_abs_def map_values_def)+

lemma run_ops_refines:
  "keyed_inv m \<Longrightarrow> list_all op_key_ok xs \<Longrightarrow>
     \<exists>m'. run_ops xs m = Inr m' \<and> keyed_inv m' \<and> keyed_abs m' = fold spec_op xs (keyed_abs m)"
proof (induction xs arbitrary: m)
  case (Cons x xs)
  then show ?case using run_op_refines [of m x] by fastforce
qed simp

lemma run_new:
  assumes "list_all op_key_ok xs"
  obtains m where "run_ops xs new_keyed_map = Inr m" "keyed_inv m" "keyed_abs m = fold spec_op xs (\<lambda>_. None)"
  using run_ops_refines [OF new_keyed_map_ok(1) assms] by auto

text \<open>
  C12. The hash map of the near cache is a finite map on the bytes behind the header of its keys, for every
  sequence of operations: a lookup returns the value of the last \<open>set\<close> of an equal key that was not followed
  by a \<open>delete\<close> or a \<open>clear\<close>, \<open>delete\<close> reports whether the key was present, \<open>size\<close> is the number of keys, and
  no operation raises. Hash collisions do not matter, and neither does the type id of a key.
\<close>

theorem hash_map_is_map:
  assumes "list_all op_key_ok xs" and "payload k \<noteq> None"
  shows "\<exists>m f. run_ops xs new_keyed_map = Inr m \<and> f = fold spec_op xs (\<lambda>_. None) \<and>
    map_get k m = Inr (f (body k)) \<and> map_has k m = Inr (f (body k) \<noteq> None) \<and>
    (\<exists>m'. map_delete k m = Inr (f (body k) \<noteq> None, m')) \<and>
    msize m = int (card (dom f)) \<and> set (map_values m) = ran f"
proof -
  obtain m where m: "run_ops xs new_keyed_map = Inr m" "keyed_inv m" "keyed_abs m = fold spec_op xs (\<lambda>_. None)"
    by (rule run_new [OF assms(1)])
  have "\<exists>m'. map_delete k m = Inr (keyed_abs m (body k) \<noteq> None, m')"
    using del_law [OF m(2) assms(2)] by blast
  moreover have "msize m = int (card (dom (keyed_abs m)))" "set (map_values m) = ran (keyed_abs m)"
    using store.size_law [OF m(2)] store.vals_law [OF m(2)] by blast+
  moreover note get_law [OF m(2) assms(2)] has_law [OF m(2) assms(2)]
  ultimately have "run_ops xs new_keyed_map = Inr m \<and> keyed_abs m = fold spec_op xs (\<lambda>_. None) \<and>
    map_get k m = Inr (keyed_abs m (body k)) \<and> map_has k m = Inr (keyed_abs m (body k) \<noteq> None) \<and>
    (\<exists>m'. map_delete k m = Inr (keyed_abs m (body k) \<noteq> None, m')) \<and>
    msize m = int (card (dom (keyed_abs m))) \<and> set (map_values m) = ran (keyed_abs m)"
    using m(1,3) by (intro conjI)
  then have "\<exists>f. run_ops xs new_keyed_map = Inr m \<and> f = fold spec_op xs (\<lambda>_. None) \<and>
    map_get k m = Inr (f (body k)) \<and> map_has k m = Inr (f (body k) \<noteq> None) \<and>
    (\<exists>m'. map_delete k m = Inr (f (body k) \<noteq> None, m')) \<and>
    msize m = int (card (dom f)) \<and> set (map_values m) = ran f"
    by (rule exI [of _ "keyed_abs m"])
  then show ?thesis by (rule exI [of _ m])
qed

definition sample_key :: "byte \<Rightarrow> byte \<Rightarrow> heap_data" where
  "sample_key t b = \<lparr>payload = Some [0, 0, 0, 0, 0, 0, 0, t, b]\<rparr>"

theorem hash_map_is_map_witness:
  "\<exists>m f. run_ops [OpSet (sample_key 1 5) ''a'', OpSet (sample_key 2 5) ''b'', OpDelete (sample_key 1 6)]
      new_keyed_map = Inr m \<and>
    f = fold spec_op [OpSet (sample_key 1 5) ''a'', OpSet (sample_key 2 5) ''b'', OpDelete (sample_key 1 6)] (\<lambda>_. None) \<and>
    map_get (sample_key 1 5) m = Inr (f (body (sample_key 1 5))) \<and>
    map_has (sample_key 1 5) m = Inr (f (body (sample_key 1 5)) \<noteq> None) \<and>
    (\<exists>m'. map_delete (sample_key 1 5) m = Inr (f (body (sample_key 1 5)) \<noteq> None, m')) \<and>
    msize m = int (card (dom f)) \<and> set (map_values m) = ran f"
  by (rule hash_map_is_map) (simp_all add: sample_key_def)

lemma sample_types: "getType (sample_key 1 5) = Inr 1" "getType (sample_key 2 5) = Inr 2"
  by (simp_all add: getType_def sample_key_def totalSize_def heap_data_offsets buf_read_sint_def buf_get_def sint_val_def uint_val_def)


end
