(* ===== verification/FixSizedTypesCodec.thy ===== *)
theory FixSizedTypesCodec
  imports ObjectDataOutput
begin

section \<open>Fixed-size values of the binary protocol (src/src/codec/builtin/FixSizedTypesCodec.ts)\<close>

text \<open>
  The client protocol is little-endian. Every operation works on the content buffer of a frame
  at a given offset and raises a \<open>RangeError\<close> outside of it.
\<close>

record uuid =
  mostSignificant :: js_long
  leastSignificant :: js_long

definition TWO_PWR_32_DBL :: int where "TWO_PWR_32_DBL = 2 ^ 32"
definition TWO_PWR_63_DBL :: int where "TWO_PWR_63_DBL = 2 ^ 63"

definition encodeInt :: "buffer \<Rightarrow> int \<Rightarrow> int \<Rightarrow> buffer res" where
  "encodeInt b off val = buf_write_sint False 4 b val off"

definition decodeInt :: "buffer \<Rightarrow> int \<Rightarrow> int res" where
  "decodeInt b off = buf_read_sint False 4 b off"

definition decodeShort :: "buffer \<Rightarrow> int \<Rightarrow> int res" where
  "decodeShort b off = buf_read_sint False 2 b off"

definition decodeFloat :: "buffer \<Rightarrow> int \<Rightarrow> (32 word) res" where
  "decodeFloat b off = readFloat b off False"

definition decodeDouble :: "buffer \<Rightarrow> int \<Rightarrow> (64 word) res" where
  "decodeDouble b off = readDouble b off False"

definition encodeLong :: "buffer \<Rightarrow> int \<Rightarrow> js_long \<Rightarrow> buffer res" where
  "encodeLong b off val =
     bindR (buf_write_sint False 4 b (low val) off) (\<lambda>b.
       buf_write_sint False 4 b (high val) (off + INT_SIZE_IN_BYTES))"

definition decodeLong :: "buffer \<Rightarrow> int \<Rightarrow> js_long res" where
  "decodeLong b off =
     bindR (buf_read_sint False 4 b off) (\<lambda>l.
     bindR (buf_read_sint False 4 b (off + INT_SIZE_IN_BYTES)) (\<lambda>h.
       Inr \<lparr>low = l, high = h\<rparr>))"

definition encodeNonNegativeNumberAsLong :: "buffer \<Rightarrow> int \<Rightarrow> int \<Rightarrow> buffer res" where
  "encodeNonNegativeNumberAsLong b off val =
     (if val < 0 then Inl PlainError
      else if val + 1 \<ge> TWO_PWR_63_DBL then
        bindR (buf_write_sint False 4 b (js_or 0xFFFFFFFF 0) off) (\<lambda>b.
          buf_write_sint False 4 b (js_or 0x7FFFFFFF 0) (off + INT_SIZE_IN_BYTES))
      else
        bindR (buf_write_sint False 4 b (js_or (val mod TWO_PWR_32_DBL) 0) off) (\<lambda>b.
          buf_write_sint False 4 b (js_or (val div TWO_PWR_32_DBL) 0) (off + INT_SIZE_IN_BYTES)))"

definition decodeNumberFromLong :: "buffer \<Rightarrow> int \<Rightarrow> int res" where
  "decodeNumberFromLong b off =
     bindR (buf_read_sint False 4 b off) (\<lambda>l.
     bindR (buf_read_sint False 4 b (off + INT_SIZE_IN_BYTES)) (\<lambda>h.
       Inr (h * TWO_PWR_32_DBL + js_ushr l 0)))"

definition encodeBoolean :: "buffer \<Rightarrow> int \<Rightarrow> bool \<Rightarrow> buffer res" where
  "encodeBoolean b off val = buf_write_uint False 1 b (if val then 1 else 0) off"

definition decodeBoolean :: "buffer \<Rightarrow> int \<Rightarrow> bool res" where
  "decodeBoolean b off = bindR (buf_read_uint False 1 b off) (\<lambda>v. Inr (v = 1))"

definition encodeByte :: "buffer \<Rightarrow> int \<Rightarrow> int \<Rightarrow> buffer res" where
  "encodeByte b off val = buf_write_uint False 1 b val off"

definition decodeByte :: "buffer \<Rightarrow> int \<Rightarrow> int res" where
  "decodeByte b off = buf_read_uint False 1 b off"

definition encodeUUID :: "buffer \<Rightarrow> int \<Rightarrow> uuid option \<Rightarrow> buffer res" where
  "encodeUUID b off val =
     bindR (encodeBoolean b off (val = None)) (\<lambda>b.
       case val of
         None \<Rightarrow> Inr b
       | Some u \<Rightarrow>
           bindR (encodeLong b (off + BOOLEAN_SIZE_IN_BYTES) (mostSignificant u)) (\<lambda>b.
             encodeLong b (off + BOOLEAN_SIZE_IN_BYTES + LONG_SIZE_IN_BYTES) (leastSignificant u)))"

definition decodeUUID :: "buffer \<Rightarrow> int \<Rightarrow> uuid option res" where
  "decodeUUID b off =
     bindR (decodeBoolean b off) (\<lambda>isNull.
       if isNull then Inr None
       else bindR (decodeLong b (off + BOOLEAN_SIZE_IN_BYTES)) (\<lambda>msb.
            bindR (decodeLong b (off + BOOLEAN_SIZE_IN_BYTES + LONG_SIZE_IN_BYTES)) (\<lambda>lsb.
              Inr (Some \<lparr>mostSignificant = msb, leastSignificant = lsb\<rparr>))))"

text \<open>
  The loops of the list codecs: item \<open>i\<close> is stored at offset \<open>i * size\<close>; an entry stores its
  value behind its key.
\<close>

fun encode_items :: "(buffer \<Rightarrow> int \<Rightarrow> 'a \<Rightarrow> buffer res) \<Rightarrow> int \<Rightarrow> int \<Rightarrow> 'a list \<Rightarrow> buffer \<Rightarrow> buffer res" where
  "encode_items enc sz i [] b = Inr b"
| "encode_items enc sz i (x # xs) b = bindR (enc b (i * sz) x) (encode_items enc sz (i + 1) xs)"

fun decode_items :: "(buffer \<Rightarrow> int \<Rightarrow> 'a res) \<Rightarrow> int \<Rightarrow> int \<Rightarrow> nat \<Rightarrow> buffer \<Rightarrow> 'a list res" where
  "decode_items dec sz i 0 b = Inr []"
| "decode_items dec sz i (Suc n) b =
     bindR (dec b (i * sz)) (\<lambda>x. bindR (decode_items dec sz (i + 1) n b) (\<lambda>xs. Inr (x # xs)))"

definition encode_entry :: "(buffer \<Rightarrow> int \<Rightarrow> 'k \<Rightarrow> buffer res) \<Rightarrow> (buffer \<Rightarrow> int \<Rightarrow> 'v \<Rightarrow> buffer res) \<Rightarrow> int
    \<Rightarrow> buffer \<Rightarrow> int \<Rightarrow> 'k \<times> 'v \<Rightarrow> buffer res" where
  "encode_entry encK encV keySize b off e =
     bindR (encK b off (fst e)) (\<lambda>b. encV b (off + keySize) (snd e))"

definition decode_entry :: "(buffer \<Rightarrow> int \<Rightarrow> 'k res) \<Rightarrow> (buffer \<Rightarrow> int \<Rightarrow> 'v res) \<Rightarrow> int
    \<Rightarrow> buffer \<Rightarrow> int \<Rightarrow> ('k \<times> 'v) res" where
  "decode_entry decK decV keySize b off =
     bindR (decK b off) (\<lambda>k. bindR (decV b (off + keySize)) (\<lambda>v. Inr (k, v)))"

subsection \<open>The contract of a fixed-size codec\<close>

text \<open>
  What a codec of a fixed-size type promises its users: in range, encoding succeeds, keeps the
  length of the buffer and every byte run outside its own \<open>sz\<close> bytes, and decoding at the same
  offset gives the value back; decoding depends on those \<open>sz\<close> bytes only.
\<close>

definition same_outside :: "int \<Rightarrow> int \<Rightarrow> buffer \<Rightarrow> buffer \<Rightarrow> bool" where
  "same_outside lo hi b b' \<longleftrightarrow>
     (\<forall>p n. p + int n \<le> lo \<or> hi \<le> p \<longrightarrow> buf_get b' p n = buf_get b p n)"

definition same_inside :: "int \<Rightarrow> int \<Rightarrow> buffer \<Rightarrow> buffer \<Rightarrow> bool" where
  "same_inside lo hi b b' \<longleftrightarrow>
     (\<forall>p n. lo \<le> p \<and> p + int n \<le> hi \<longrightarrow> buf_get b' p n = buf_get b p n)"

lemma same_outside_refl [simp]: "same_outside lo hi b b"
  by (simp add: same_outside_def)

lemma same_outside_trans:
  "same_outside lo mid b b1 \<Longrightarrow> same_outside mid hi b1 b2 \<Longrightarrow> lo \<le> mid \<Longrightarrow> mid \<le> hi \<Longrightarrow>
     same_outside lo hi b b2"
  by (auto simp: same_outside_def)

lemma same_outside_mono:
  "same_outside lo hi b b' \<Longrightarrow> lo' \<le> lo \<Longrightarrow> hi \<le> hi' \<Longrightarrow> same_outside lo' hi' b b'"
  by (simp add: same_outside_def)

lemma same_outside_inside: "same_outside mid hi b b' \<Longrightarrow> same_inside lo mid b b'"
  by (simp add: same_outside_def same_inside_def)

lemma same_inside_get:
  "same_inside lo hi b b' \<Longrightarrow> lo \<le> p \<Longrightarrow> p + int n \<le> hi \<Longrightarrow> buf_get b' p n = buf_get b p n"
  by (simp add: same_inside_def)

lemma same_inside_mono:
  "same_inside lo hi b b' \<Longrightarrow> lo \<le> lo' \<Longrightarrow> hi' \<le> hi \<Longrightarrow> same_inside lo' hi' b b'"
  by (simp add: same_inside_def)

lemma put_outside: "buf_put b off bs = Inr b' \<Longrightarrow> same_outside off (off + int (length bs)) b b'"
  unfolding same_outside_def by (blast intro: buf_get_put_other)

locale fixed_codec =
  fixes enc :: "buffer \<Rightarrow> int \<Rightarrow> 'a \<Rightarrow> buffer res"
    and dec :: "buffer \<Rightarrow> int \<Rightarrow> 'a res"
    and sz :: int
    and ok :: "'a \<Rightarrow> bool"
  assumes sz_pos: "0 < sz"
    and enc_ok: "ok v \<Longrightarrow> 0 \<le> off \<Longrightarrow> off + sz \<le> int (length b) \<Longrightarrow>
      \<exists>b'. enc b off v = Inr b' \<and> length b' = length b \<and> dec b' off = Inr v \<and>
        same_outside off (off + sz) b b'"
    and dec_local: "same_inside off (off + sz) b b' \<Longrightarrow> dec b' off = dec b off"
begin

lemma items_roundtrip:
  "list_all ok xs \<Longrightarrow> 0 \<le> i \<Longrightarrow> (i + int (length xs)) * sz \<le> int (length b) \<Longrightarrow>
     \<exists>b'. encode_items enc sz i xs b = Inr b' \<and> length b' = length b \<and>
       decode_items dec sz i (length xs) b' = Inr xs \<and>
       same_outside (i * sz) ((i + int (length xs)) * sz) b b'"
proof (induction xs arbitrary: i b)
  case (Cons x xs)
  have le: "i * sz + sz \<le> (i + int (length (x # xs))) * sz"
    using sz_pos by (simp add: algebra_simps)
  obtain b1 where b1: "enc b (i * sz) x = Inr b1" "length b1 = length b" "dec b1 (i * sz) = Inr x"
    "same_outside (i * sz) (i * sz + sz) b b1"
    using enc_ok [of x "i * sz" b] Cons.prems le sz_pos by auto
  have "(i + 1 + int (length xs)) * sz \<le> int (length b1)"
    using Cons.prems(3) b1(2) by (simp add: algebra_simps)
  then obtain b2 where b2: "encode_items enc sz (i + 1) xs b1 = Inr b2" "length b2 = length b1"
    "decode_items dec sz (i + 1) (length xs) b2 = Inr xs"
    "same_outside ((i + 1) * sz) ((i + 1 + int (length xs)) * sz) b1 b2"
    using Cons.IH [of "i + 1" b1] Cons.prems by auto
  have mid: "(i + 1) * sz = i * sz + sz" by (simp add: algebra_simps)
  have "dec b2 (i * sz) = Inr x"
    using dec_local [of "i * sz" b1 b2] b2(4) b1(3) unfolding mid
    by (simp add: same_outside_inside)
  moreover have "same_outside (i * sz) ((i + int (length (x # xs))) * sz) b b2"
    using same_outside_trans [OF b1(4) b2(4) [unfolded mid]] le sz_pos
    by (simp add: algebra_simps)
  ultimately show ?case using b1 b2 by simp
qed simp

end

text \<open>Two fixed-size codecs side by side make one of the pairs: the entry lists.\<close>

locale entry_codec =
  K: fixed_codec encK decK szK okK + V: fixed_codec encV decV szV okV
  for encK :: "buffer \<Rightarrow> int \<Rightarrow> 'k \<Rightarrow> buffer res" and decK szK okK
    and encV :: "buffer \<Rightarrow> int \<Rightarrow> 'v \<Rightarrow> buffer res" and decV szV okV
begin

sublocale entry: fixed_codec "encode_entry encK encV szK" "decode_entry decK decV szK"
  "szK + szV" "\<lambda>e. okK (fst e) \<and> okV (snd e)"
proof unfold_locales
  show "0 < szK + szV" using K.sz_pos V.sz_pos by simp
next
  fix e :: "'k \<times> 'v" and off :: int and b :: buffer
  assume ok: "okK (fst e) \<and> okV (snd e)" and off: "0 \<le> off" "off + (szK + szV) \<le> int (length b)"
  obtain b1 where b1: "encK b off (fst e) = Inr b1" "length b1 = length b" "decK b1 off = Inr (fst e)"
    "same_outside off (off + szK) b b1"
    using K.enc_ok [of "fst e" off b] ok off V.sz_pos by auto
  obtain b2 where b2: "encV b1 (off + szK) (snd e) = Inr b2" "length b2 = length b1"
    "decV b2 (off + szK) = Inr (snd e)" "same_outside (off + szK) (off + szK + szV) b1 b2"
    using V.enc_ok [of "snd e" "off + szK" b1] ok off K.sz_pos b1(2) by auto
  have "decK b2 off = Inr (fst e)"
    using K.dec_local [OF same_outside_inside [OF b2(4)]] b1(3) by simp
  moreover have "same_outside off (off + (szK + szV)) b b2"
    using same_outside_trans [OF b1(4) b2(4)] K.sz_pos V.sz_pos by (simp add: add.assoc)
  ultimately show "\<exists>b'. encode_entry encK encV szK b off e = Inr b' \<and> length b' = length b \<and>
      decode_entry decK decV szK b' off = Inr e \<and> same_outside off (off + (szK + szV)) b b'"
    using b1 b2 by (simp add: encode_entry_def decode_entry_def)
next
  fix off :: int and b b' :: buffer
  assume s: "same_inside off (off + (szK + szV)) b b'"
  have "decK b' off = decK b off"
    using s V.sz_pos by (intro K.dec_local) (simp add: same_inside_def)
  moreover have "decV b' (off + szK) = decV b (off + szK)"
    using s K.sz_pos by (intro V.dec_local) (simp add: same_inside_def)
  ultimately show "decode_entry decK decV szK b' off = decode_entry decK decV szK b off"
    by (simp add: decode_entry_def)
qed

end

subsection \<open>The codecs meet the contract\<close>

lemma put_codec:
  assumes "\<And>b off v. ok v \<Longrightarrow> enc b off v = buf_put b off (bytes v)"
    and "\<And>v. ok v \<Longrightarrow> length (bytes v) = n" and "\<And>v. ok v \<Longrightarrow> val (bytes v) = v"
    and "\<And>b off. dec b off = bindR (buf_get b off n) (\<lambda>bs. Inr (val bs))" and "0 < n"
  shows "fixed_codec enc dec (int n) ok"
proof unfold_locales
  fix v off and b :: buffer
  assume v: "ok v" "0 \<le> off" "off + int n \<le> int (length b)"
  then obtain b' where b': "buf_put b off (bytes v) = Inr b'"
    using assms(2) [OF v(1)] by (auto simp: buf_put_def)
  show "\<exists>b'. enc b off v = Inr b' \<and> length b' = length b \<and> dec b' off = Inr v \<and>
      same_outside off (off + int n) b b'"
    using b' buf_get_put_same [OF b'] length_buf_put [OF b'] put_outside [OF b'] assms v
    by (intro exI [of _ b']) simp
qed (use assms in \<open>simp_all add: same_inside_get\<close>)

text \<open>Storing a value through a representation of it.\<close>

lemma fixed_codec_via:
  assumes "fixed_codec enc dec sz ok" and "\<And>v. ok' v \<Longrightarrow> g (f v) = v"
    and "\<And>b off v. ok' v \<Longrightarrow> enc' b off v = enc b off (f v)"
    and "\<And>b off. dec' b off = bindR (dec b off) (\<lambda>r. Inr (g r))"
    and "\<And>v. ok' v \<Longrightarrow> ok (f v)"
  shows "fixed_codec enc' dec' sz ok'"
proof unfold_locales
  show "0 < sz" using assms(1) by (rule fixed_codec.sz_pos)
next
  fix v off and b :: buffer
  assume v: "ok' v" "0 \<le> off" "off + sz \<le> int (length b)"
  show "\<exists>b'. enc' b off v = Inr b' \<and> length b' = length b \<and> dec' b' off = Inr v \<and>
      same_outside off (off + sz) b b'"
    using fixed_codec.enc_ok [OF assms(1), of "f v" off b] v assms by fastforce
next
  fix off and b b' :: buffer
  assume s: "same_inside off (off + sz) b b'"
  show "dec' b' off = dec' b off"
    using fixed_codec.dec_local [OF assms(1) s] assms(4) by simp
qed

interpretation int_item: fixed_codec encodeInt decodeInt 4 "in_sint 4"
  using put_codec [of "in_sint 4" encodeInt "int_bytes False 4" 4 "sint_val False" decodeInt]
  by (simp add: encodeInt_def decodeInt_def buf_write_sint_def buf_read_sint_def)

interpretation byte_item: fixed_codec encodeByte decodeByte 1 "in_uint 1"
  using put_codec [of "in_uint 1" encodeByte "int_bytes False 1" 1 "uint_val False" decodeByte]
  by (simp add: encodeByte_def decodeByte_def buf_write_uint_def buf_read_uint_def)

interpretation boolean_item: fixed_codec encodeBoolean decodeBoolean 1 "\<lambda>_. True"
  using fixed_codec_via [OF byte_item.fixed_codec_axioms, where f = "\<lambda>v. if v then 1 else 0"
      and g = "\<lambda>v. v = 1" and enc' = encodeBoolean and dec' = decodeBoolean and ok' = "\<lambda>_. True"]
  by (simp add: encodeBoolean_def decodeBoolean_def encodeByte_def decodeByte_def in_uint_def)

interpretation int_int_entry: entry_codec encodeInt decodeInt 4 "in_sint 4" encodeInt decodeInt 4
    "in_sint 4"
  by unfold_locales

interpretation long_item: fixed_codec encodeLong decodeLong 8 long_ok
  using fixed_codec_via [OF int_int_entry.entry.fixed_codec_axioms,
      where f = "\<lambda>l. (low l, high l)" and g = "\<lambda>e. \<lparr>low = fst e, high = snd e\<rparr>"
      and enc' = encodeLong and dec' = decodeLong and ok' = long_ok]
  by (simp add: encodeLong_def decodeLong_def encode_entry_def decode_entry_def encodeInt_def
      decodeInt_def long_ok_def INT_SIZE_IN_BYTES_def bindR_assoc)

lemma to_int32_in_sint: "in_sint 4 (to_int32 x)"
  using to_int32_bounds [of x] by (simp add: in_sint_def)

lemma js_or_0: "js_or x 0 = to_int32 x"
  by (simp add: js_or_def to_int32_def)

lemma js_ushr_to_int32: "js_ushr (to_int32 x) 0 = x mod 2 ^ 32"
  by (simp add: js_ushr_def of_to_int32 uint_word_of_int)

lemma to_int32_id: "in_sint 4 x \<Longrightarrow> to_int32 x = x"
  by (simp add: to_int32_def signed_of_int in_sint_def signed_take_bit_int_eq_self)

definition safe_id :: "int \<Rightarrow> bool" where
  "safe_id v \<longleftrightarrow> 0 \<le> v \<and> safe_int v"

interpretation number_item: fixed_codec encodeNonNegativeNumberAsLong decodeNumberFromLong 8 safe_id
proof (rule fixed_codec_via [OF long_item.fixed_codec_axioms])
  fix v assume v: "safe_id v"
  have hi: "in_sint 4 (v div 2 ^ 32)"
    using v by (auto simp: safe_id_def safe_int_def in_sint_def)
  show "(\<lambda>l. high l * 2 ^ 32 + js_ushr (low l) 0)
      \<lparr>low = to_int32 (v mod 2 ^ 32), high = to_int32 (v div 2 ^ 32)\<rparr> = v"
    using hi by (simp only: js_ushr_to_int32 to_int32_id js_long.simps) simp
  show "encodeNonNegativeNumberAsLong b off v =
      encodeLong b off \<lparr>low = to_int32 (v mod 2 ^ 32), high = to_int32 (v div 2 ^ 32)\<rparr>" for b off
    using v by (auto simp: encodeNonNegativeNumberAsLong_def encodeLong_def safe_id_def safe_int_def
        TWO_PWR_32_DBL_def TWO_PWR_63_DBL_def js_or_0)
  show "long_ok \<lparr>low = to_int32 (v mod 2 ^ 32), high = to_int32 (v div 2 ^ 32)\<rparr>"
    by (simp add: long_ok_def to_int32_in_sint)
next
  show "decodeNumberFromLong b off =
      bindR (decodeLong b off) (\<lambda>l. Inr (high l * 2 ^ 32 + js_ushr (low l) 0))" for b off
    by (simp add: decodeNumberFromLong_def decodeLong_def bindR_assoc TWO_PWR_32_DBL_def)
qed

interpretation long_long_entry: entry_codec encodeLong decodeLong 8 long_ok encodeLong decodeLong 8
    long_ok
  by unfold_locales

interpretation flag_uuid_entry: entry_codec encodeBoolean decodeBoolean 1 "\<lambda>_. True"
    "encode_entry encodeLong encodeLong 8" "decode_entry decodeLong decodeLong 8" "8 + 8"
    "\<lambda>e. long_ok (fst e) \<and> long_ok (snd e)"
  by unfold_locales

definition uuid_ok :: "uuid option \<Rightarrow> bool" where
  "uuid_ok u \<longleftrightarrow> (case u of None \<Rightarrow> True
     | Some u \<Rightarrow> long_ok (mostSignificant u) \<and> long_ok (leastSignificant u))"

lemma encodeUUID_Some:
  "encodeUUID b off (Some u) = encode_entry encodeBoolean (encode_entry encodeLong encodeLong 8) 1
     b off (False, mostSignificant u, leastSignificant u)"
  by (simp add: encodeUUID_def encode_entry_def size_defs)

lemma decodeUUID_entry:
  assumes "decode_entry decodeBoolean (decode_entry decodeLong decodeLong 8) 1 b off = Inr (False, e)"
  shows "decodeUUID b off = Inr (Some \<lparr>mostSignificant = fst e, leastSignificant = snd e\<rparr>)"
  using assms unfolding decodeUUID_def decode_entry_def size_defs bindR_Inr_iff
  by clarsimp blast

lemma decodeUUID_local:
  assumes "same_inside off (off + 17) b b'"
  shows "decodeUUID b' off = decodeUUID b off"
proof -
  have "decodeBoolean b' off = decodeBoolean b off"
    by (rule boolean_item.dec_local) (rule same_inside_mono [OF assms], simp_all)
  moreover have "decodeLong b' (off + 1) = decodeLong b (off + 1)"
    by (rule long_item.dec_local) (rule same_inside_mono [OF assms], simp_all)
  moreover have "decodeLong b' (off + 1 + 8) = decodeLong b (off + 1 + 8)"
    by (rule long_item.dec_local) (rule same_inside_mono [OF assms], simp_all)
  ultimately show ?thesis
    by (simp only: decodeUUID_def size_defs)
qed

interpretation uuid_item: fixed_codec encodeUUID decodeUUID 17 uuid_ok
proof unfold_locales
  fix u off and b :: buffer
  assume u: "uuid_ok u" and off: "0 \<le> off" "off + 17 \<le> int (length b)"
  show "\<exists>b'. encodeUUID b off u = Inr b' \<and> length b' = length b \<and> decodeUUID b' off = Inr u \<and>
      same_outside off (off + 17) b b'"
  proof (cases u)
    case None
    obtain b' where b': "encodeBoolean b off True = Inr b'" "length b' = length b"
      "decodeBoolean b' off = Inr True" "same_outside off (off + 1) b b'"
      using boolean_item.enc_ok [where v = True and off = off and b = b] off by auto
    show ?thesis using None b' same_outside_mono [OF b'(4)]
      by (intro exI [of _ b']) (simp add: encodeUUID_def decodeUUID_def)
  next
    case (Some v)
    let ?e = "(False, mostSignificant v, leastSignificant v)"
    have "\<exists>b'. encodeUUID b off u = Inr b' \<and> length b' = length b \<and>
      decode_entry decodeBoolean (decode_entry decodeLong decodeLong 8) 1 b' off = Inr ?e \<and>
      same_outside off (off + 17) b b'"
      using flag_uuid_entry.entry.enc_ok [of ?e off b] off u Some
      by (simp add: encodeUUID_Some uuid_ok_def)
    then obtain b' where b': "encodeUUID b off u = Inr b'" "length b' = length b"
      "decode_entry decodeBoolean (decode_entry decodeLong decodeLong 8) 1 b' off = Inr ?e"
      "same_outside off (off + 17) b b'" by blast
    show ?thesis using b' decodeUUID_entry [OF b'(3)] Some
      by (intro exI [of _ b']) simp
  qed
qed (simp, rule decodeUUID_local)

text \<open>The entry types of the partition table, near cache and CP codecs.\<close>

interpretation integer_uuid_entry: entry_codec encodeInt decodeInt 4 "in_sint 4" encodeUUID
    decodeUUID 17 uuid_ok
  by unfold_locales

interpretation uuid_long_entry: entry_codec encodeUUID decodeUUID 17 uuid_ok encodeLong decodeLong
    8 long_ok
  by unfold_locales

interpretation integer_long_entry: entry_codec encodeInt decodeInt 4 "in_sint 4" encodeLong
    decodeLong 8 long_ok
  by unfold_locales

end
