(* ===== verification/Js_Long.thy ===== *)
theory Js_Long
  imports FixSizedTypesCodec
begin

section \<open>64-bit integers of the long package and UUIDs (src/src/core/UUID.ts)\<close>

text \<open>
  The arithmetic of the \<open>long\<close> package is not part of the client: its operations are the fields of a
  record that every definition using them takes as an argument. \<open>long_laws\<close> states what the package documents:
  two's complement arithmetic on 64 bits and comparisons of the values.
\<close>

record long_ops =
  long_fromNumber :: "int \<Rightarrow> js_long"
  long_add :: "js_long \<Rightarrow> js_long \<Rightarrow> js_long"
  long_subtract :: "js_long \<Rightarrow> js_long \<Rightarrow> js_long"
  long_negate :: "js_long \<Rightarrow> js_long"
  long_equals :: "js_long \<Rightarrow> js_long \<Rightarrow> bool"
  long_lessThan :: "js_long \<Rightarrow> js_long \<Rightarrow> bool"
  long_greaterThan :: "js_long \<Rightarrow> js_long \<Rightarrow> bool"
  long_greaterThanOrEqual :: "js_long \<Rightarrow> js_long \<Rightarrow> bool"
  long_multiply :: "js_long \<Rightarrow> js_long \<Rightarrow> js_long"
  long_toNumber :: "js_long \<Rightarrow> int"
  long_getHighBitsUnsigned :: "js_long \<Rightarrow> int"
  long_getLowBitsUnsigned :: "js_long \<Rightarrow> int"

definition long_val :: "js_long \<Rightarrow> int" where
  "long_val l = high l * 2 ^ 32 + low l mod 2 ^ 32"

definition wrap64 :: "int \<Rightarrow> int" where
  "wrap64 n = (n + 2 ^ 63) mod 2 ^ 64 - 2 ^ 63"

definition long_laws :: "long_ops \<Rightarrow> bool" where
  "long_laws L \<longleftrightarrow>
     (\<forall>n. \<bar>n\<bar> < 2 ^ 53 \<longrightarrow> long_val (long_fromNumber L n) = n) \<and>
     (\<forall>a b. long_val (long_add L a b) = wrap64 (long_val a + long_val b)) \<and>
     (\<forall>a b. long_val (long_subtract L a b) = wrap64 (long_val a - long_val b)) \<and>
     (\<forall>a. long_val (long_negate L a) = wrap64 (- long_val a)) \<and>
     (\<forall>a b. long_equals L a b \<longleftrightarrow> long_val a = long_val b) \<and>
     (\<forall>a b. long_lessThan L a b \<longleftrightarrow> long_val a < long_val b) \<and>
     (\<forall>a b. long_greaterThan L a b \<longleftrightarrow> long_val a > long_val b) \<and>
     (\<forall>a b. long_greaterThanOrEqual L a b \<longleftrightarrow> long_val a \<ge> long_val b) \<and>
     (\<forall>a b. long_val (long_multiply L a b) = wrap64 (long_val a * long_val b)) \<and>
     (\<forall>a. \<bar>long_val a\<bar> < 2 ^ 53 \<longrightarrow> long_toNumber L a = long_val a) \<and>
     (\<forall>a. long_getHighBitsUnsigned L a = high a mod 2 ^ 32) \<and>
     (\<forall>a. long_getLowBitsUnsigned L a = low a mod 2 ^ 32)"

lemma long_lawsD:
  assumes "long_laws L"
  shows "\<bar>n\<bar> < 2 ^ 53 \<Longrightarrow> long_val (long_fromNumber L n) = n"
    and "long_val (long_add L a b) = wrap64 (long_val a + long_val b)"
    and "long_val (long_subtract L a b) = wrap64 (long_val a - long_val b)"
    and "long_val (long_negate L a) = wrap64 (- long_val a)"
    and "long_equals L a b \<longleftrightarrow> long_val a = long_val b"
    and "long_lessThan L a b \<longleftrightarrow> long_val a < long_val b"
    and "long_greaterThan L a b \<longleftrightarrow> long_val a > long_val b"
    and "long_greaterThanOrEqual L a b \<longleftrightarrow> long_val a \<ge> long_val b"
    and "long_val (long_multiply L a b) = wrap64 (long_val a * long_val b)"
    and "\<bar>long_val a\<bar> < 2 ^ 53 \<Longrightarrow> long_toNumber L a = long_val a"
    and "long_getHighBitsUnsigned L a = high a mod 2 ^ 32"
    and "long_getLowBitsUnsigned L a = low a mod 2 ^ 32"
  using assms by (auto simp: long_laws_def)

lemma wrap64_id: "- (2 ^ 63) \<le> n \<Longrightarrow> n < 2 ^ 63 \<Longrightarrow> wrap64 n = n"
  by (simp add: wrap64_def)

lemma wrap64_bounds: "- (2 ^ 63) \<le> wrap64 n" "wrap64 n < 2 ^ 63"
  using pos_mod_bound [of "2 ^ 64" "n + 2 ^ 63"] by (simp_all add: wrap64_def)

subsection \<open>Equality of UUIDs\<close>

definition uuid_equals :: "long_ops \<Rightarrow> uuid \<Rightarrow> uuid option \<Rightarrow> bool" where
  "uuid_equals L u other =
     (case other of None \<Rightarrow> False
      | Some v \<Rightarrow> long_equals L (mostSignificant v) (mostSignificant u) \<and>
                  long_equals L (leastSignificant v) (leastSignificant u))"

lemma uuid_equals_refl: "long_laws L \<Longrightarrow> uuid_equals L u (Some u)"
  by (simp add: uuid_equals_def long_lawsD(5))

subsection \<open>A realisation of the laws\<close>

definition long_of :: "int \<Rightarrow> js_long" where
  "long_of n = (let w = wrap64 n in \<lparr>low = to_int32 (w mod 2 ^ 32), high = w div 2 ^ 32\<rparr>)"

definition word_longs :: long_ops where
  "word_longs = \<lparr>long_fromNumber = long_of,
     long_add = (\<lambda>a b. long_of (long_val a + long_val b)),
     long_subtract = (\<lambda>a b. long_of (long_val a - long_val b)),
     long_negate = (\<lambda>a. long_of (- long_val a)),
     long_equals = (\<lambda>a b. long_val a = long_val b),
     long_lessThan = (\<lambda>a b. long_val a < long_val b),
     long_greaterThan = (\<lambda>a b. long_val a > long_val b),
     long_greaterThanOrEqual = (\<lambda>a b. long_val a \<ge> long_val b),
     long_multiply = (\<lambda>a b. long_of (long_val a * long_val b)),
     long_toNumber = long_val,
     long_getHighBitsUnsigned = (\<lambda>a. high a mod 2 ^ 32),
     long_getLowBitsUnsigned = (\<lambda>a. low a mod 2 ^ 32)\<rparr>"

lemma to_int32_mod: "to_int32 n mod 2 ^ 32 = n mod 2 ^ 32"
proof -
  have "uint (word_of_int (to_int32 n) :: w32) = uint (word_of_int n :: w32)"
    by (simp only: of_to_int32)
  then show ?thesis by (simp add: uint_word_of_int)
qed

lemma long_val_of: "long_val (long_of n) = wrap64 n"
  by (simp add: long_val_def long_of_def Let_def to_int32_mod [simplified])

lemma word_longs_laws: "long_laws word_longs"
  by (simp add: long_laws_def word_longs_def long_val_of wrap64_id)

end
