(* ===== verification/ClientMessage.thy ===== *)
theory ClientMessage
  imports FixSizedTypesCodec HeapData
begin

section \<open>Frames and messages (src/src/protocol/ClientMessage.ts)\<close>

text \<open>
  A message is a linked list of frames. The model keeps the chain that starts at
  \<open>startFrame\<close> as a list; \<open>nxt\<close> is the position of \<open>_nextFrame\<close> in it (\<open>None\<close> when the pointer
  is null), and \<open>endFrame\<close> says whether that pointer is null, the last frame of the chain, or a
  frame outside of it: dropping the only frame of a message, or copying a message of one frame,
  leaves \<open>endFrame\<close> outside, and what is linked behind it later cannot be reached from
  \<open>startFrame\<close>. Frames are values: that
  a copied message shares the frames behind its first one with the original is not visible here.
\<close>

definition MESSAGE_TYPE_OFFSET :: int where "MESSAGE_TYPE_OFFSET = 0"
definition CORRELATION_ID_OFFSET :: int where
  "CORRELATION_ID_OFFSET = MESSAGE_TYPE_OFFSET + INT_SIZE_IN_BYTES"
definition RESPONSE_BACKUP_ACKS_OFFSET :: int where
  "RESPONSE_BACKUP_ACKS_OFFSET = CORRELATION_ID_OFFSET + LONG_SIZE_IN_BYTES"
definition PARTITION_ID_OFFSET :: int where
  "PARTITION_ID_OFFSET = CORRELATION_ID_OFFSET + LONG_SIZE_IN_BYTES"
definition FRAGMENTATION_ID_OFFSET :: int where "FRAGMENTATION_ID_OFFSET = 0"

definition DEFAULT_FLAGS :: int where "DEFAULT_FLAGS = 0"
definition BEGIN_FRAGMENT_FLAG :: int where "BEGIN_FRAGMENT_FLAG = js_shl 1 15"
definition END_FRAGMENT_FLAG :: int where "END_FRAGMENT_FLAG = js_shl 1 14"
definition UNFRAGMENTED_MESSAGE :: int where
  "UNFRAGMENTED_MESSAGE = js_or BEGIN_FRAGMENT_FLAG END_FRAGMENT_FLAG"
definition IS_FINAL_FLAG :: int where "IS_FINAL_FLAG = js_shl 1 13"
definition BEGIN_DATA_STRUCTURE_FLAG :: int where "BEGIN_DATA_STRUCTURE_FLAG = js_shl 1 12"
definition END_DATA_STRUCTURE_FLAG :: int where "END_DATA_STRUCTURE_FLAG = js_shl 1 11"
definition IS_NULL_FLAG :: int where "IS_NULL_FLAG = js_shl 1 10"
definition IS_EVENT_FLAG :: int where "IS_EVENT_FLAG = js_shl 1 9"
definition IS_BACKUP_AWARE_FLAG :: int where "IS_BACKUP_AWARE_FLAG = js_shl 1 8"
definition IS_BACKUP_EVENT_FLAG :: int where "IS_BACKUP_EVENT_FLAG = js_shl 1 7"

definition SIZE_OF_FRAME_LENGTH_AND_FLAGS :: int where
  "SIZE_OF_FRAME_LENGTH_AND_FLAGS = INT_SIZE_IN_BYTES + SHORT_SIZE_IN_BYTES"

lemmas offset_defs = MESSAGE_TYPE_OFFSET_def CORRELATION_ID_OFFSET_def
  RESPONSE_BACKUP_ACKS_OFFSET_def PARTITION_ID_OFFSET_def FRAGMENTATION_ID_OFFSET_def
  SIZE_OF_FRAME_LENGTH_AND_FLAGS_def

lemmas flag_defs = DEFAULT_FLAGS_def BEGIN_FRAGMENT_FLAG_def END_FRAGMENT_FLAG_def
  UNFRAGMENTED_MESSAGE_def IS_FINAL_FLAG_def BEGIN_DATA_STRUCTURE_FLAG_def
  END_DATA_STRUCTURE_FLAG_def IS_NULL_FLAG_def IS_EVENT_FLAG_def IS_BACKUP_AWARE_FLAG_def
  IS_BACKUP_EVENT_FLAG_def

subsection \<open>Frame\<close>

record frame =
  content :: buffer
  flags :: int

definition newFrame :: "buffer \<Rightarrow> int option \<Rightarrow> frame" where
  "newFrame b fl = \<lparr>content = b, flags = (case fl of None \<Rightarrow> DEFAULT_FLAGS | Some f \<Rightarrow> f)\<rparr>"

definition createInitialFrame :: "(nat \<Rightarrow> byte) \<Rightarrow> int \<Rightarrow> int option \<Rightarrow> frame res" where
  "createInitialFrame junk n fl =
     bindR (allocUnsafe junk n) (\<lambda>b.
       Inr (newFrame b (Some (case fl of None \<Rightarrow> UNFRAGMENTED_MESSAGE | Some f \<Rightarrow> f))))"

definition getLength :: "frame \<Rightarrow> int" where
  "getLength f = SIZE_OF_FRAME_LENGTH_AND_FLAGS + int (length (content f))"

definition copyFrame :: "frame \<Rightarrow> frame" where
  "copyFrame f = newFrame (content f) (Some (flags f))"

definition deepCopy :: "frame \<Rightarrow> frame" where
  "deepCopy f = newFrame (content f) (Some (flags f))"

definition isFlagSet :: "int \<Rightarrow> int \<Rightarrow> bool" where
  "isFlagSet fl flagMask \<longleftrightarrow> js_and fl flagMask = flagMask"

definition isBeginFrame :: "frame \<Rightarrow> bool" where
  "isBeginFrame f = isFlagSet (flags f) BEGIN_DATA_STRUCTURE_FLAG"
definition isEndFrame :: "frame \<Rightarrow> bool" where
  "isEndFrame f = isFlagSet (flags f) END_DATA_STRUCTURE_FLAG"
definition isNullFrame :: "frame \<Rightarrow> bool" where
  "isNullFrame f = isFlagSet (flags f) IS_NULL_FLAG"
definition hasEventFlag :: "frame \<Rightarrow> bool" where
  "hasEventFlag f = isFlagSet (flags f) IS_EVENT_FLAG"
definition hasBackupEventFlag :: "frame \<Rightarrow> bool" where
  "hasBackupEventFlag f = isFlagSet (flags f) IS_BACKUP_EVENT_FLAG"
definition isFinalFrame :: "frame \<Rightarrow> bool" where
  "isFinalFrame f = isFlagSet (flags f) IS_FINAL_FLAG"
definition hasUnfragmentedMessageFlag :: "frame \<Rightarrow> bool" where
  "hasUnfragmentedMessageFlag f = isFlagSet (flags f) UNFRAGMENTED_MESSAGE"
definition hasBeginFragmentFlag :: "frame \<Rightarrow> bool" where
  "hasBeginFragmentFlag f = isFlagSet (flags f) BEGIN_FRAGMENT_FLAG"
definition hasEndFragmentFlag :: "frame \<Rightarrow> bool" where
  "hasEndFragmentFlag f = isFlagSet (flags f) END_FRAGMENT_FLAG"

definition addFlag :: "int \<Rightarrow> frame \<Rightarrow> frame" where
  "addFlag flag f = f\<lparr>flags := js_or (flags f) flag\<rparr>"

lemmas frame_tests = isBeginFrame_def isEndFrame_def isNullFrame_def hasEventFlag_def
  hasBackupEventFlag_def isFinalFrame_def hasUnfragmentedMessageFlag_def hasBeginFragmentFlag_def
  hasEndFragmentFlag_def

definition NULL_FRAME :: frame where "NULL_FRAME = newFrame [] (Some IS_NULL_FLAG)"
definition BEGIN_FRAME :: frame where "BEGIN_FRAME = newFrame [] (Some BEGIN_DATA_STRUCTURE_FLAG)"
definition END_FRAME :: frame where "END_FRAME = newFrame [] (Some END_DATA_STRUCTURE_FLAG)"

subsection \<open>ClientMessage\<close>

datatype end_ref = EndNull | EndDetached | EndAttached

record client_message =
  frames :: "frame list"
  endFrame :: end_ref
  nxt :: "nat option"
  retryable :: bool
  connection :: "nat option"
  cachedTotalLength :: "int option"

text \<open>The private constructor, with the chain of \<open>startFrame\<close> and the place of \<open>endFrame\<close>.\<close>

definition newMessage :: "frame list \<Rightarrow> end_ref \<Rightarrow> client_message" where
  "newMessage chain e =
     \<lparr>frames = chain, endFrame = e, nxt = (if chain = [] then None else Some 0),
      retryable = False, connection = None, cachedTotalLength = None\<rparr>"

definition createForEncode :: client_message where
  "createForEncode = newMessage [] EndNull"

definition createForDecode :: "frame \<Rightarrow> client_message" where
  "createForDecode startFrame = newMessage [startFrame] EndAttached"

definition getStartFrame :: "client_message \<Rightarrow> frame option" where
  "getStartFrame m = (case frames m of [] \<Rightarrow> None | f # _ \<Rightarrow> Some f)"

definition nextFrame :: "client_message \<Rightarrow> frame option \<times> client_message" where
  "nextFrame m =
     (case nxt m of
        None \<Rightarrow> (None, m)
      | Some i \<Rightarrow> (Some (frames m ! i),
                   m\<lparr>nxt := if Suc i < length (frames m) then Some (Suc i) else None\<rparr>))"

definition hasNextFrame :: "client_message \<Rightarrow> bool" where
  "hasNextFrame m \<longleftrightarrow> nxt m \<noteq> None"

definition peekNextFrame :: "client_message \<Rightarrow> frame option" where
  "peekNextFrame m = map_option (\<lambda>i. frames m ! i) (nxt m)"

definition addFrame :: "frame \<Rightarrow> client_message \<Rightarrow> client_message" where
  "addFrame f m =
     (let m = m\<lparr>cachedTotalLength := None\<rparr> in
      if frames m = [] then m\<lparr>frames := [f], endFrame := EndAttached, nxt := Some 0\<rparr>
      else if endFrame m = EndAttached then m\<lparr>frames := frames m @ [f]\<rparr> else m)"

text \<open>Every access to the header goes through the content of the first frame.\<close>

definition read_start :: "(buffer \<Rightarrow> 'a res) \<Rightarrow> client_message \<Rightarrow> 'a res" where
  "read_start rd m = (case frames m of [] \<Rightarrow> Inl TypeError | f # _ \<Rightarrow> rd (content f))"

definition write_start :: "(buffer \<Rightarrow> buffer res) \<Rightarrow> client_message \<Rightarrow> client_message res" where
  "write_start wr m =
     (case frames m of [] \<Rightarrow> Inl TypeError
      | f # fs \<Rightarrow> bindR (wr (content f)) (\<lambda>b. Inr (m\<lparr>frames := f\<lparr>content := b\<rparr> # fs\<rparr>)))"

definition getMessageType :: "client_message \<Rightarrow> int res" where
  "getMessageType = read_start (\<lambda>b. buf_read_sint False 4 b MESSAGE_TYPE_OFFSET)"

definition setMessageType :: "int \<Rightarrow> client_message \<Rightarrow> client_message res" where
  "setMessageType messageType =
     write_start (\<lambda>b. buf_write_sint False 4 b messageType MESSAGE_TYPE_OFFSET)"

definition getCorrelationId :: "client_message \<Rightarrow> int res" where
  "getCorrelationId = read_start (\<lambda>b. decodeNumberFromLong b CORRELATION_ID_OFFSET)"

definition resetCorrelationId :: "client_message \<Rightarrow> client_message res" where
  "resetCorrelationId = write_start (\<lambda>b.
     bindR (buf_write_sint False 4 b (js_or 0xFFFFFFFF 0) CORRELATION_ID_OFFSET) (\<lambda>b.
       buf_write_sint False 4 b (js_or 0xFFFFFFFF 0) (CORRELATION_ID_OFFSET + INT_SIZE_IN_BYTES)))"

definition setCorrelationId :: "int \<Rightarrow> client_message \<Rightarrow> client_message res" where
  "setCorrelationId correlationId =
     write_start (\<lambda>b. encodeNonNegativeNumberAsLong b CORRELATION_ID_OFFSET correlationId)"

definition getPartitionId :: "client_message \<Rightarrow> int res" where
  "getPartitionId = read_start (\<lambda>b. buf_read_sint False 4 b PARTITION_ID_OFFSET)"

definition setPartitionId :: "int \<Rightarrow> client_message \<Rightarrow> client_message res" where
  "setPartitionId partitionId =
     write_start (\<lambda>b. buf_write_sint False 4 b partitionId PARTITION_ID_OFFSET)"

definition getNumberOfBackupAcks :: "client_message \<Rightarrow> int res" where
  "getNumberOfBackupAcks = read_start (\<lambda>b. buf_read_uint False 1 b RESPONSE_BACKUP_ACKS_OFFSET)"

definition setRetryable :: "bool \<Rightarrow> client_message \<Rightarrow> client_message" where
  "setRetryable r m = m\<lparr>retryable := r\<rparr>"

definition setConnection :: "nat \<Rightarrow> client_message \<Rightarrow> client_message" where
  "setConnection c m = m\<lparr>connection := Some c\<rparr>"

fun total_length :: "frame list \<Rightarrow> int \<Rightarrow> int" where
  "total_length [] acc = acc"
| "total_length (f # fs) acc = total_length fs (acc + getLength f)"

definition getTotalLength :: "client_message \<Rightarrow> int \<times> client_message" where
  "getTotalLength m =
     (case cachedTotalLength m of
        Some n \<Rightarrow> (n, m)
      | None \<Rightarrow> let n = total_length (frames m) 0 in (n, m\<lparr>cachedTotalLength := Some n\<rparr>))"

text \<open>\<open>toNumber\<close> is the conversion of the \<open>long\<close> package.\<close>

definition getFragmentationId :: "(js_long \<Rightarrow> int) \<Rightarrow> client_message \<Rightarrow> int res" where
  "getFragmentationId toNumber =
     read_start (\<lambda>b. bindR (decodeLong b FRAGMENTATION_ID_OFFSET) (\<lambda>l. Inr (toNumber l)))"

text \<open>
  \<open>merge\<close> links the chain of the fragment behind \<open>endFrame\<close>: it becomes part of the message when
  \<open>endFrame\<close> is in the chain, and then \<open>endFrame\<close> is in the chain again if it is in the fragment's.
\<close>

definition merge :: "client_message \<Rightarrow> client_message \<Rightarrow> client_message res" where
  "merge fragment m =
     (case endFrame m of
        EndNull \<Rightarrow> Inl TypeError
      | EndDetached \<Rightarrow>
          Inr (m\<lparr>endFrame := (if endFrame fragment = EndNull then EndNull else EndDetached),
                 cachedTotalLength := None\<rparr>)
      | EndAttached \<Rightarrow>
          Inr (m\<lparr>frames := frames m @ frames fragment, endFrame := endFrame fragment,
                 cachedTotalLength := None\<rparr>))"

definition dropFragmentationFrame :: "client_message \<Rightarrow> client_message res" where
  "dropFragmentationFrame m =
     (case (frames m, nxt m) of
        (f # fs, Some i) \<Rightarrow>
          Inr (m\<lparr>frames := fs, endFrame := (if fs = [] then EndDetached else endFrame m),
                 nxt := (if i < length fs then Some i else None), cachedTotalLength := None\<rparr>)
      | _ \<Rightarrow> Inl TypeError)"

definition copyWithNewCorrelationId :: "client_message \<Rightarrow> client_message res" where
  "copyWithNewCorrelationId m =
     (case frames m of
        [] \<Rightarrow> Inl TypeError
      | f # fs \<Rightarrow>
          bindR (resetCorrelationId (newMessage (deepCopy f # fs) (if fs = [] then EndDetached else endFrame m))) (\<lambda>m'.
            Inr (m'\<lparr>retryable := retryable m\<rparr>)))"

fun write_frames :: "frame list \<Rightarrow> buffer \<Rightarrow> int \<Rightarrow> (buffer \<times> int) res" where
  "write_frames [] b p = Inr (b, p)"
| "write_frames (f # fs) b p =
     bindR (buf_write_sint False 4 b (int (length (content f)) + SIZE_OF_FRAME_LENGTH_AND_FLAGS) p) (\<lambda>b.
     bindR (buf_write_uint False 2 b (if fs = [] then js_or (flags f) IS_FINAL_FLAG else flags f)
              (p + INT_SIZE_IN_BYTES)) (\<lambda>b.
     bindR (buf_copy (content f) b (p + SIZE_OF_FRAME_LENGTH_AND_FLAGS) 0 (int (length (content f)))) (\<lambda>b.
       write_frames fs b (p + SIZE_OF_FRAME_LENGTH_AND_FLAGS + int (length (content f))))))"

definition writeTo :: "client_message \<Rightarrow> buffer \<Rightarrow> int \<Rightarrow> (buffer \<times> int) res" where
  "writeTo m b off = write_frames (frames m) b off"

definition toBuffer_message :: "(nat \<Rightarrow> byte) \<Rightarrow> client_message \<Rightarrow> (buffer \<times> client_message) res" where
  "toBuffer_message junk m =
     (let (n, m) = getTotalLength m in
      bindR (allocUnsafe junk n) (\<lambda>b.
      bindR (writeTo m b 0) (\<lambda>r. Inr (fst r, m))))"

subsection \<open>Flags\<close>

lemma flag_values [simp]:
  "BEGIN_FRAGMENT_FLAG = 32768" "END_FRAGMENT_FLAG = 16384" "UNFRAGMENTED_MESSAGE = 49152"
  "IS_FINAL_FLAG = 8192" "BEGIN_DATA_STRUCTURE_FLAG = 4096" "END_DATA_STRUCTURE_FLAG = 2048"
  "IS_NULL_FLAG = 1024" "IS_EVENT_FLAG = 512" "IS_BACKUP_AWARE_FLAG = 256"
  "IS_BACKUP_EVENT_FLAG = 128" "DEFAULT_FLAGS = 0"
  by (simp_all add: flag_defs js_shl_def js_or_def)

lemma header_sizes [simp]:
  "SIZE_OF_FRAME_LENGTH_AND_FLAGS = 6" "MESSAGE_TYPE_OFFSET = 0" "CORRELATION_ID_OFFSET = 4"
  "RESPONSE_BACKUP_ACKS_OFFSET = 12" "PARTITION_ID_OFFSET = 12" "FRAGMENTATION_ID_OFFSET = 0"
  by (simp_all add: offset_defs size_defs)

definition frame_ok :: "frame \<Rightarrow> bool" where
  "frame_ok f \<longleftrightarrow> in_uint 2 (flags f) \<and> int (length (content f)) + 6 < 2 ^ 31"

lemma frame_ok_flags: "frame_ok f \<Longrightarrow> 0 \<le> flags f \<and> flags f < 2 ^ 16"
  by (simp add: frame_ok_def in_uint_def)

lemma addFlag_final:
  assumes "frame_ok f"
  shows "js_or (flags f) IS_FINAL_FLAG = flags f OR 8192"
    and "frame_ok (addFlag IS_FINAL_FLAG f)"
    and "isFinalFrame (addFlag IS_FINAL_FLAG f)"
proof -
  note or = js_or_flags [of "flags f" 8192]
  show eq: "js_or (flags f) IS_FINAL_FLAG = flags f OR 8192"
    using frame_ok_flags [OF assms] or by simp
  show "frame_ok (addFlag IS_FINAL_FLAG f)"
    using assms eq frame_ok_flags [OF assms] or by (simp add: addFlag_def frame_ok_def in_uint_def)
  have "(flags f OR 8192) AND 8192 = 8192"
    by (rule bit_eqI) (auto simp: bit_simps)
  then show "isFinalFrame (addFlag IS_FINAL_FLAG f)"
    using eq frame_ok_flags [OF assms] or
    by (simp add: addFlag_def isFinalFrame_def isFlagSet_def js_and_flags)
qed

subsection \<open>The invariant of a message\<close>

definition frames_length :: "frame list \<Rightarrow> int" where
  "frames_length fs = sum_list (map getLength fs)"

definition message_wf :: "client_message \<Rightarrow> bool" where
  "message_wf m \<longleftrightarrow>
     (\<forall>i. nxt m = Some i \<longrightarrow> i < length (frames m)) \<and>
     (frames m \<noteq> [] \<longrightarrow> endFrame m \<noteq> EndNull) \<and> (frames m = [] \<longrightarrow> endFrame m \<noteq> EndAttached) \<and>
     (\<forall>n. cachedTotalLength m = Some n \<longrightarrow> n = frames_length (frames m))"

lemma total_length_eq: "total_length fs acc = acc + frames_length fs"
  by (induction fs arbitrary: acc) (simp_all add: frames_length_def)

lemma getTotalLength_eq:
  "message_wf m \<Longrightarrow> fst (getTotalLength m) = frames_length (frames m)"
  by (auto simp: getTotalLength_def total_length_eq message_wf_def Let_def split: option.split)

lemma frames_length_start:
  "length b = length (content f) \<Longrightarrow> frames_length (f\<lparr>content := b\<rparr> # fs) = frames_length (f # fs)"
  by (simp add: frames_length_def getLength_def)

lemma write_start_wf:
  assumes "\<And>b b'. wr b = Inr b' \<Longrightarrow> length b' = length b" and "write_start wr m = Inr m'"
    and "message_wf m"
  shows "message_wf m'"
  using assms(2,3)
  by (auto simp: write_start_def message_wf_def bindR_Inr_iff frames_length_start [OF assms(1)]
      split: list.splits)

lemma buf_write_length:
  "buf_write_sint be n b v off = Inr b' \<Longrightarrow> length b' = length b"
  by (auto simp: buf_write_sint_def split: if_splits dest: length_buf_put)

lemma encodeNumber_length:
  "encodeNonNegativeNumberAsLong b off v = Inr b' \<Longrightarrow> length b' = length b"
  by (auto simp: encodeNonNegativeNumberAsLong_def bindR_Inr_iff split: if_splits
      dest!: buf_write_length)

lemma resetCorrelationId_wf: "resetCorrelationId m = Inr m' \<Longrightarrow> message_wf m \<Longrightarrow> message_wf m'"
  unfolding resetCorrelationId_def
  by (erule write_start_wf [rotated]) (auto simp: bindR_Inr_iff dest!: buf_write_length)

text \<open>Every operation keeps the invariant.\<close>

lemma new_wf: "message_wf createForEncode" "message_wf (createForDecode f)"
  by (simp_all add: createForEncode_def createForDecode_def newMessage_def message_wf_def)

lemma nextFrame_wf: "message_wf m \<Longrightarrow> message_wf (snd (nextFrame m))"
  by (auto simp: nextFrame_def message_wf_def split: option.split)

lemma addFrame_wf: "message_wf m \<Longrightarrow> message_wf (addFrame f m)"
  by (auto simp: addFrame_def message_wf_def Let_def)

lemma setters_wf:
  "setMessageType t m = Inr m' \<Longrightarrow> message_wf m \<Longrightarrow> message_wf m'"
  "setPartitionId t m = Inr m' \<Longrightarrow> message_wf m \<Longrightarrow> message_wf m'"
  "setCorrelationId t m = Inr m' \<Longrightarrow> message_wf m \<Longrightarrow> message_wf m'"
  unfolding setMessageType_def setPartitionId_def setCorrelationId_def
  by (erule write_start_wf [rotated], auto dest: buf_write_length encodeNumber_length)+

lemma getTotalLength_wf: "message_wf m \<Longrightarrow> message_wf (snd (getTotalLength m))"
  by (auto simp: getTotalLength_def total_length_eq message_wf_def Let_def split: option.split)

lemma dropFragmentationFrame_wf:
  "dropFragmentationFrame m = Inr m' \<Longrightarrow> message_wf m \<Longrightarrow> message_wf m'"
  by (auto simp: dropFragmentationFrame_def message_wf_def split: list.splits option.splits if_splits)

lemma merge_wf:
  "merge fragment m = Inr m' \<Longrightarrow> message_wf m \<Longrightarrow> message_wf fragment \<Longrightarrow> endFrame fragment \<noteq> EndNull \<Longrightarrow>
     message_wf m'"
  by (auto simp: merge_def message_wf_def split: end_ref.splits)

lemma copy_wf: "copyWithNewCorrelationId m = Inr m' \<Longrightarrow> message_wf m \<Longrightarrow> message_wf m'"
proof -
  assume c: "copyWithNewCorrelationId m = Inr m'" and wf: "message_wf m"
  then obtain f fs n where fs: "frames m = f # fs" and m': "m' = n\<lparr>retryable := retryable m\<rparr>"
    and n: "resetCorrelationId (newMessage (deepCopy f # fs) (if fs = [] then EndDetached else endFrame m))
      = Inr n"
    by (auto simp: copyWithNewCorrelationId_def bindR_Inr_iff split: list.splits)
  have "message_wf n"
    using n by (rule resetCorrelationId_wf) (use wf fs in \<open>auto simp: newMessage_def message_wf_def\<close>)
  then show ?thesis by (simp add: m' message_wf_def)
qed

subsection \<open>The wire format\<close>

text \<open>
  A frame on the wire: its length (the header included), its flags, its content. The last frame of
  a message carries the final flag.
\<close>

definition enc_frame :: "frame \<Rightarrow> byte list" where
  "enc_frame f =
     int_bytes False 4 (int (length (content f)) + 6) @ int_bytes False 2 (flags f) @ content f"

fun wire_frames :: "frame list \<Rightarrow> frame list" where
  "wire_frames [] = []"
| "wire_frames [f] = [addFlag IS_FINAL_FLAG f]"
| "wire_frames (f # fs) = f # wire_frames fs"

definition enc_frames :: "frame list \<Rightarrow> byte list" where
  "enc_frames fs = concat (map enc_frame (wire_frames fs))"

lemma length_enc_frame [simp]: "length (enc_frame f) = length (content f) + 6"
  by (simp add: enc_frame_def)

lemma content_addFlag [simp]: "content (addFlag fl f) = content f"
  by (simp add: addFlag_def)

lemma enc_frames_Cons:
  "enc_frames (f # fs) =
     enc_frame (if fs = [] then addFlag IS_FINAL_FLAG f else f) @ enc_frames fs"
  by (cases fs) (simp_all add: enc_frames_def)

lemma length_enc_frames: "int (length (enc_frames fs)) = frames_length fs"
  by (induction fs) (simp_all add: enc_frames_Cons frames_length_def getLength_def,
    simp add: enc_frames_def)

lemma split4:
  assumes "length (old :: 'a list) = i + (j + (k + l))"
  obtains a b c d where "old = a @ b @ c @ d" "length a = i" "length b = j" "length c = k" "length d = l"
proof -
  obtain a r where r: "old = a @ r" "length a = i"
    by (rule split_run [of i old]) (use assms in auto)
  obtain b s where s: "r = b @ s" "length b = j"
    by (rule split_run [of j r]) (use assms r in auto)
  obtain c d where d: "s = c @ d" "length c = k"
    by (rule split_run [of k s]) (use assms r s in auto)
  show ?thesis
    by (rule that [of a b c d]) (use assms r s d in auto)
qed

lemma write_frames_eq:
  "list_all frame_ok fs \<Longrightarrow> length old = length (enc_frames fs) \<Longrightarrow> int (length a) = p \<Longrightarrow>
     write_frames fs (a @ old @ c) p = Inr (a @ enc_frames fs @ c, p + int (length old))"
proof (induction fs arbitrary: a old p)
  case Nil
  then show ?case by (simp add: enc_frames_def)
next
  case (Cons f fs)
  let ?g = "if fs = [] then addFlag IS_FINAL_FLAG f else f"
  have ok: "frame_ok f" "frame_ok ?g" using Cons.prems(1) addFlag_final(2) [of f] by auto
  have fl: "(if fs = [] then js_or (flags f) IS_FINAL_FLAG else flags f) = flags ?g"
    by (simp add: addFlag_def)
  obtain o1 o2 o3 o4 where old: "old = o1 @ o2 @ o3 @ o4" "length o1 = 4" "length o2 = 2"
    "length o3 = length (content f)" "length o4 = length (enc_frames fs)"
    by (rule split4 [of old 4 2 "length (content f)" "length (enc_frames fs)"])
      (use Cons.prems(2) in \<open>simp_all add: enc_frames_Cons split: if_splits\<close>)
  let ?L = "int_bytes False 4 (int (length (content f)) + 6)" and ?F = "int_bytes False 2 (flags ?g)"
  have w1: "buf_write_sint False 4 (a @ old @ c) (int (length (content f)) + SIZE_OF_FRAME_LENGTH_AND_FLAGS) p
      = Inr (a @ ?L @ (o2 @ o3 @ o4 @ c))"
    using ok(1) buf_put_run [of o1 ?L a p "o2 @ o3 @ o4 @ c"] Cons.prems(3) old
    by (simp add: buf_write_sint_def frame_ok_def in_sint_def)
  have w2: "buf_write_uint False 2 (a @ ?L @ (o2 @ o3 @ o4 @ c)) (flags ?g) (p + INT_SIZE_IN_BYTES)
      = Inr ((a @ ?L) @ ?F @ (o3 @ o4 @ c))"
    using ok(2) buf_put_run [of o2 ?F "a @ ?L" "p + 4" "o3 @ o4 @ c"] Cons.prems(3) old
    by (simp add: buf_write_uint_def frame_ok_def size_defs)
  have w3: "buf_copy (content f) ((a @ ?L) @ ?F @ (o3 @ o4 @ c)) (p + SIZE_OF_FRAME_LENGTH_AND_FLAGS) 0
      (int (length (content f))) = Inr ((a @ ?L @ ?F @ content f) @ o4 @ c)"
    using buf_copy_run [of o3 "content f" "a @ ?L @ ?F" "p + 6" "o4 @ c"] Cons.prems(3) old by simp
  have "write_frames fs ((a @ ?L @ ?F @ content f) @ o4 @ c) (p + 6 + int (length (content f)))
      = Inr ((a @ ?L @ ?F @ content f) @ enc_frames fs @ c, p + 6 + int (length (content f)) + int (length o4))"
    using Cons.prems old by (intro Cons.IH) simp_all
  then show ?case
    using w1 w2 w3 old unfolding write_frames.simps fl
    by (simp add: enc_frames_Cons enc_frame_def)
qed

lemma toBuffer_ok:
  assumes "message_wf m" and "list_all frame_ok (frames m)"
  shows "\<exists>m'. toBuffer_message junk m = Inr (enc_frames (frames m), m') \<and> frames m' = frames m \<and>
    message_wf m'"
proof -
  obtain n m' where nm: "getTotalLength m = (n, m')" by fastforce
  have n: "n = int (length (enc_frames (frames m)))"
    using getTotalLength_eq [OF assms(1)] nm by (simp add: length_enc_frames)
  have m': "frames m' = frames m" "message_wf m'"
    using nm getTotalLength_wf [OF assms(1)]
    by (auto simp: getTotalLength_def Let_def split: option.splits)
  have "write_frames (frames m) ([] @ map junk [0..<nat n] @ []) 0 =
      Inr ([] @ enc_frames (frames m) @ [], 0 + int (length (map junk [0..<nat n])))"
    using assms(2) n by (intro write_frames_eq) simp_all
  then show ?thesis
    using n m' nm by (simp add: toBuffer_message_def writeTo_def allocUnsafe_def)
qed

text \<open>
  C22. \<open>ClientMessage.toBuffer\<close> produces exactly the wire format of the frames of the message,
  whatever the uninitialised buffer it writes to holds, and leaves the frames as they are.
\<close>

theorem toBuffer_wire:
  assumes "message_wf m" and "list_all frame_ok (frames m)"
  shows "\<exists>m'. toBuffer_message junk m = Inr (enc_frames (frames m), m') \<and> frames m' = frames m \<and>
    message_wf m'"
  using assms by (rule toBuffer_ok)

theorem toBuffer_wire_witness:
  "\<exists>m'. toBuffer_message (\<lambda>_. 7) (createForDecode \<lparr>content = [1, 2], flags = 0\<rparr>) =
     Inr ([8, 0, 0, 0, 0, 32, 1, 2], m') \<and> message_wf m'"
proof -
  let ?f = "\<lparr>content = [1, 2], flags = 0\<rparr>"
  have "enc_frames [?f] = [8, 0, 0, 0, 0, 32, 1, 2]" by code_simp
  moreover have "frame_ok ?f" by (simp add: frame_ok_def in_uint_def)
  moreover have "frames (createForDecode ?f) = [?f]"
    by (simp add: createForDecode_def newMessage_def)
  ultimately show ?thesis
    using toBuffer_wire [OF new_wf(2) [of ?f], of "\<lambda>_. 7"] by auto
qed

subsection \<open>Header fields\<close>

definition header_ok :: "client_message \<Rightarrow> bool" where
  "header_ok m \<longleftrightarrow> (case frames m of [] \<Rightarrow> False | f # _ \<Rightarrow> 16 \<le> length (content f))"

text \<open>A write to the header through a fixed-size codec: the field is set, the rest is kept.\<close>

definition header_write :: "int \<Rightarrow> int \<Rightarrow> client_message \<Rightarrow> client_message \<Rightarrow> bool" where
  "header_write lo hi m m' \<longleftrightarrow>
     (\<exists>f fs b. frames m = f # fs \<and> m' = m\<lparr>frames := f\<lparr>content := b\<rparr> # fs\<rparr> \<and>
        length b = length (content f) \<and> same_outside lo hi (content f) b)"

lemma write_start_codec:
  assumes "fixed_codec enc dec sz ok" and "header_ok m" and "ok v" and "0 \<le> off" and "off + sz \<le> 16"
  shows "\<exists>m'. write_start (\<lambda>b. enc b off v) m = Inr m' \<and> read_start (\<lambda>b. dec b off) m' = Inr v \<and>
    header_write off (off + sz) m m'"
proof -
  obtain f fs where f: "frames m = f # fs" "16 \<le> length (content f)"
    using assms(2) by (auto simp: header_ok_def split: list.splits)
  obtain b where "enc (content f) off v = Inr b" "length b = length (content f)" "dec b off = Inr v"
    "same_outside off (off + sz) (content f) b"
    using fixed_codec.enc_ok [OF assms(1,3,4), of "content f"] f assms(5) by auto
  then show ?thesis using f
    by (auto simp: write_start_def read_start_def header_write_def)
qed

lemma header_write_ok: "header_write lo hi m m' \<Longrightarrow> header_ok m \<Longrightarrow> header_ok m'"
  by (auto simp: header_write_def header_ok_def)

lemma header_write_tail: "header_write lo hi m m' \<Longrightarrow> tl (frames m') = tl (frames m)"
  by (auto simp: header_write_def)

lemma read_start_other:
  assumes "fixed_codec enc dec sz ok" and "header_write lo hi m m'" and "off + sz \<le> lo \<or> hi \<le> off"
  shows "read_start (\<lambda>b. dec b off) m' = read_start (\<lambda>b. dec b off) m"
proof -
  obtain f fs b where f: "frames m = f # fs" "frames m' = f\<lparr>content := b\<rparr> # fs"
    "same_outside lo hi (content f) b"
    using assms(2) by (auto simp: header_write_def)
  have "same_inside off (off + sz) (content f) b"
    using f(3) assms(3) by (auto simp: same_outside_def same_inside_def)
  then show ?thesis
    using fixed_codec.dec_local [OF assms(1)] f(1,2) by (simp add: read_start_def)
qed

lemmas header_defs = setMessageType_def setPartitionId_def setCorrelationId_def getMessageType_def
  getPartitionId_def getCorrelationId_def

lemma setPartitionId_ok:
  assumes "header_ok m" and "in_sint 4 p"
  shows "\<exists>m'. setPartitionId p m = Inr m' \<and> getPartitionId m' = Inr p \<and> header_write 12 16 m m'"
  using write_start_codec [OF int_item.fixed_codec_axioms assms(1), of p 12] assms(2)
  by (simp add: header_defs encodeInt_def decodeInt_def)

lemma setCorrelationId_ok:
  assumes "header_ok m" and "safe_id c"
  shows "\<exists>m'. setCorrelationId c m = Inr m' \<and> getCorrelationId m' = Inr c \<and> header_write 4 12 m m'"
  using write_start_codec [OF number_item.fixed_codec_axioms assms(1), of c 4] assms(2)
  by (simp add: header_defs)

lemma getMessageType_kept: "header_write lo hi m m' \<Longrightarrow> 4 \<le> lo \<Longrightarrow> getMessageType m' = getMessageType m"
  using read_start_other [OF int_item.fixed_codec_axioms, of lo hi m m' 0]
  by (simp add: header_defs decodeInt_def)

lemma getPartitionId_kept: "header_write 4 12 m m' \<Longrightarrow> getPartitionId m' = getPartitionId m"
  using read_start_other [OF int_item.fixed_codec_axioms, of 4 12 m m' 12]
  by (simp add: header_defs decodeInt_def)



end
