(* ===== verification/ClientMessageReader.thy ===== *)
theory ClientMessageReader
  imports ClientMessage
begin

section \<open>Reading messages off the socket (class ClientMessageReader of src/src/network/Connection.ts)\<close>

text \<open>
  The reader collects the chunks the socket delivers and cuts them into frames and messages. The
  loop of \<open>read\<close> may run forever, so it is a partial function: \<open>None\<close> is a call that does not return.
  The specification \<open>parse_msgs\<close> cuts the concatenation of the chunks.
\<close>

record reader =
  chunks :: "buffer list"
  chunksTotalSize :: int
  frameSize :: int
  rflags :: int
  clientMessage :: "client_message option"

definition new_reader :: reader where
  "new_reader = \<lparr>chunks = [], chunksTotalSize = 0, frameSize = 0, rflags = 0, clientMessage = None\<rparr>"

definition append_chunk :: "buffer \<Rightarrow> reader \<Rightarrow> reader" where
  "append_chunk b r = r\<lparr>chunksTotalSize := chunksTotalSize r + int (length b), chunks := chunks r @ [b]\<rparr>"

text \<open>\<open>Buffer.concat(list, totalLength)\<close> truncates, or fills with zeros, to the given length.\<close>

definition buf_concat :: "buffer list \<Rightarrow> int \<Rightarrow> buffer res" where
  "buf_concat bs n =
     (if n < 0 then Inl RangeError
      else let c = concat bs in Inr (take (nat n) c @ replicate (nat n - length c) 0))"

definition header_of :: "buffer \<Rightarrow> reader \<Rightarrow> reader res" where
  "header_of b r =
     bindR (buf_read_sint False 4 b 0) (\<lambda>n.
     bindR (buf_read_uint False 2 b INT_SIZE_IN_BYTES) (\<lambda>fl.
       Inr (r\<lparr>frameSize := n, rflags := fl\<rparr>)))"

fun merge_header :: "buffer list \<Rightarrow> buffer list \<Rightarrow> int \<Rightarrow> reader \<Rightarrow> reader res" where
  "merge_header seen [] readChunksSize r = Inl PlainError"
| "merge_header seen (c # cs) readChunksSize r =
     (let readChunksSize = readChunksSize + int (length c) in
      if SIZE_OF_FRAME_LENGTH_AND_FLAGS \<le> readChunksSize
      then bindR (buf_concat (seen @ [c]) readChunksSize) (\<lambda>merged. header_of merged r)
      else merge_header (seen @ [c]) cs readChunksSize r)"

definition readFrameSizeAndFlags :: "reader \<Rightarrow> reader res" where
  "readFrameSizeAndFlags r =
     (case chunks r of
        [] \<Rightarrow> Inl TypeError
      | c # _ \<Rightarrow>
          if SIZE_OF_FRAME_LENGTH_AND_FLAGS \<le> int (length c) then header_of c r
          else merge_header [] (chunks r) 0 r)"

definition readFrame :: "reader \<Rightarrow> (bool \<times> reader) res" where
  "readFrame r =
     (if chunksTotalSize r < SIZE_OF_FRAME_LENGTH_AND_FLAGS then Inr (False, r)
      else bindR (if frameSize r = 0 then readFrameSizeAndFlags r else Inr r) (\<lambda>r.
        if chunksTotalSize r < frameSize r then Inr (False, r)
        else bindR (case chunks r of [c] \<Rightarrow> Inr c | cs \<Rightarrow> buf_concat cs (chunksTotalSize r)) (\<lambda>b.
          let cut = chunksTotalSize r > frameSize r;
              len = int (length b);
              rest = (if cut then [js_slice b (frameSize r) len] else []);
              body = (if cut then js_slice b SIZE_OF_FRAME_LENGTH_AND_FLAGS (frameSize r)
                      else js_slice b SIZE_OF_FRAME_LENGTH_AND_FLAGS len);
              frame = newFrame body (Some (rflags r))
          in Inr (True, r\<lparr>chunks := rest, chunksTotalSize := chunksTotalSize r - frameSize r,
               frameSize := 0,
               clientMessage := Some (case clientMessage r of None \<Rightarrow> createForDecode frame
                                      | Some m \<Rightarrow> addFrame frame m)\<rparr>))))"

text \<open>The frame \<open>endFrame\<close> points to, in a message the reader has assembled.\<close>

definition end_frame :: "client_message \<Rightarrow> frame res" where
  "end_frame m = (if frames m = [] then Inl TypeError else Inr (last (frames m)))"

definition reset :: "reader \<Rightarrow> reader" where
  "reset r = r\<lparr>clientMessage := None\<rparr>"

partial_function (option) read :: "reader \<Rightarrow> (client_message option \<times> reader) res option" where
  "read r =
     (case readFrame r of
        Inl e \<Rightarrow> Some (Inl e)
      | Inr (ready, r') \<Rightarrow>
          if ready then
            (case clientMessage r' of
               None \<Rightarrow> Some (Inl TypeError)
             | Some m \<Rightarrow>
                 (case end_frame m of
                    Inl e \<Rightarrow> Some (Inl e)
                  | Inr f \<Rightarrow> if isFinalFrame f then Some (Inr (Some m, reset r')) else read r'))
          else Some (Inr (None, r')))"

subsection \<open>Specification: cutting a byte stream\<close>

definition header_len :: "byte list \<Rightarrow> int" where
  "header_len bs = sint_val False (take 4 bs)"

definition take_frame :: "byte list \<Rightarrow> (frame \<times> byte list) option" where
  "take_frame bs =
     (if length bs < 6 \<or> header_len bs < 6 \<or> int (length bs) < header_len bs then None
      else Some (\<lparr>content = take (nat (header_len bs) - 6) (drop 6 bs),
                  flags = uint_val False (take 2 (drop 4 bs))\<rparr>, drop (nat (header_len bs)) bs))"

lemma take_frame_shorter [termination_simp]: "take_frame bs = Some (f, r) \<Longrightarrow> length r < length bs"
  by (auto simp: take_frame_def split: if_splits)

fun parse_msgs :: "frame list \<Rightarrow> byte list \<Rightarrow> frame list list \<times> frame list \<times> byte list" where
  "parse_msgs p bs =
     (case take_frame bs of
        None \<Rightarrow> ([], p, bs)
      | Some (f, r) \<Rightarrow>
          if isFinalFrame f then (case parse_msgs [] r of (ms, q) \<Rightarrow> ((p @ [f]) # ms, q))
          else parse_msgs (p @ [f]) r)"

declare parse_msgs.simps [simp del]

text \<open>Every frame header that has arrived announces at least its own six bytes.\<close>

fun well_framed :: "byte list \<Rightarrow> bool" where
  "well_framed bs \<longleftrightarrow>
     (6 \<le> length bs \<longrightarrow> 6 \<le> header_len bs) \<and>
     (case take_frame bs of None \<Rightarrow> True | Some (f, r) \<Rightarrow> well_framed r)"

declare well_framed.simps [simp del]

subsection \<open>The reader against the specification\<close>

definition pending_ok :: "frame list \<Rightarrow> client_message option \<Rightarrow> bool" where
  "pending_ok p cm \<longleftrightarrow>
     (case cm of None \<Rightarrow> p = []
      | Some m \<Rightarrow> p \<noteq> [] \<and> frames m = p \<and> endFrame m = EndAttached \<and> nxt m = Some 0 \<and>
          cachedTotalLength m = None)"

text \<open>\<open>r\<close> holds the unconsumed bytes \<open>bs\<close> and the frames \<open>p\<close> of an incomplete message.\<close>

definition reader_inv :: "reader \<Rightarrow> frame list \<Rightarrow> byte list \<Rightarrow> bool" where
  "reader_inv r p bs \<longleftrightarrow>
     concat (chunks r) = bs \<and> chunksTotalSize r = int (length bs) \<and> pending_ok p (clientMessage r) \<and>
     (frameSize r = 0 \<or> 6 \<le> length bs \<and> frameSize r = header_len bs \<and>
        rflags r = uint_val False (take 2 (drop 4 bs)))"

lemma new_reader_inv: "reader_inv new_reader [] []"
  by (simp add: new_reader_def reader_inv_def pending_ok_def)

lemma append_inv: "reader_inv r p bs \<Longrightarrow> reader_inv (append_chunk b r) p (bs @ b)"
  by (auto simp: reader_inv_def append_chunk_def header_len_def)

lemma buf_concat_all: "buf_concat cs (int (length (concat cs))) = Inr (concat cs)"
  by (simp add: buf_concat_def)

lemma header_of_eq:
  assumes "6 \<le> length b"
  shows "header_of b r =
    Inr (r\<lparr>frameSize := header_len b, rflags := uint_val False (take 2 (drop 4 b))\<rparr>)"
  using assms by (simp add: header_of_def buf_read_sint_def buf_read_uint_def buf_get_def
      header_len_def size_defs)

lemma header_prefix:
  "6 \<le> length a \<Longrightarrow> header_len (a @ b) = header_len a \<and> take 2 (drop 4 (a @ b)) = take 2 (drop 4 a)"
  by (simp add: header_len_def)

lemma merge_header_eq:
  "n = int (length (concat seen)) \<Longrightarrow> n < 6 \<Longrightarrow> 6 \<le> length (concat (seen @ cs)) \<Longrightarrow>
     merge_header seen cs n r =
     Inr (r\<lparr>frameSize := header_len (concat (seen @ cs)),
            rflags := uint_val False (take 2 (drop 4 (concat (seen @ cs))))\<rparr>)"
proof (induction cs arbitrary: seen n)
  case (Cons c cs)
  let ?n = "n + int (length c)"
  have n: "?n = int (length (concat (seen @ [c])))" using Cons.prems(1) by simp
  show ?case
  proof (cases "6 \<le> ?n")
    case True
    then have "6 \<le> length (concat (seen @ [c]))" using n by simp
    then show ?thesis
      using True n buf_concat_all [of "seen @ [c]"] header_of_eq [of "concat (seen @ [c])" r]
        header_prefix [of "concat (seen @ [c])" "concat cs"]
      by simp
  next
    case False
    then show ?thesis using Cons.IH [of ?n "seen @ [c]"] Cons.prems n by simp
  qed
qed simp

lemma readFrameSizeAndFlags_eq:
  assumes "6 \<le> length (concat (chunks r))"
  shows "readFrameSizeAndFlags r =
    Inr (r\<lparr>frameSize := header_len (concat (chunks r)),
           rflags := uint_val False (take 2 (drop 4 (concat (chunks r))))\<rparr>)"
proof (cases "chunks r")
  case Nil
  then show ?thesis using assms by simp
next
  case (Cons c cs)
  show ?thesis
  proof (cases "6 \<le> length c")
    case True
    then show ?thesis
      using Cons header_of_eq [OF True, of r] header_prefix [OF True, of "concat cs"]
      by (simp add: readFrameSizeAndFlags_def)
  next
    case False
    then show ?thesis
      using Cons assms merge_header_eq [of 0 "[]" "chunks r" r] by (simp add: readFrameSizeAndFlags_def)
  qed
qed

lemma addFrame_pending:
  "pending_ok p cm \<Longrightarrow>
     pending_ok (p @ [f]) (Some (case cm of None \<Rightarrow> createForDecode f | Some m \<Rightarrow> addFrame f m))"
  by (auto simp: pending_ok_def createForDecode_def newMessage_def addFrame_def Let_def
      split: option.splits)

text \<open>The bytes as one buffer.\<close>

lemma whole_buffer:
  assumes "chunksTotalSize r = int (length (concat (chunks r)))"
  shows "(case chunks r of [c] \<Rightarrow> Inr c | cs \<Rightarrow> buf_concat cs (chunksTotalSize r)) = Inr (concat (chunks r))"
  using assms buf_concat_all [of "chunks r"] by (auto split: list.split)

text \<open>The header is known after the first step of \<open>readFrame\<close>.\<close>

lemma header_step:
  assumes "reader_inv r p bs" and "6 \<le> length bs" and "6 \<le> header_len bs"
  shows "\<exists>r'. (if frameSize r = 0 then readFrameSizeAndFlags r else Inr r) = Inr r' \<and>
    reader_inv r' p bs \<and> frameSize r' = header_len bs \<and> rflags r' = uint_val False (take 2 (drop 4 bs))"
  using assms readFrameSizeAndFlags_eq [of r] by (auto simp: reader_inv_def)

lemma readFrame_incomplete:
  assumes "reader_inv r p bs" and "well_framed bs" and "take_frame bs = None"
  shows "\<exists>r'. readFrame r = Inr (False, r') \<and> reader_inv r' p bs"
proof (cases "length bs < 6")
  case True
  then show ?thesis using assms(1) by (simp add: readFrame_def reader_inv_def)
next
  case False
  then have h: "6 \<le> length bs" "6 \<le> header_len bs" "int (length bs) < header_len bs"
    using assms(2,3) by (auto simp: well_framed.simps [of bs] take_frame_def split: if_splits)
  obtain r' where r': "(if frameSize r = 0 then readFrameSizeAndFlags r else Inr r) = Inr r'"
    "reader_inv r' p bs" "frameSize r' = header_len bs"
    using header_step [OF assms(1) h(1,2)] by blast
  have "chunksTotalSize r = int (length bs)" "chunksTotalSize r' = int (length bs)"
    using assms(1) r'(2) by (simp_all add: reader_inv_def)
  then show ?thesis using r' h False by (simp add: readFrame_def)
qed

lemma readFrame_complete:
  assumes "reader_inv r p bs" and "take_frame bs = Some (f, rest)"
  shows "\<exists>r'. readFrame r = Inr (True, r') \<and> reader_inv r' (p @ [f]) rest"
proof -
  let ?n = "header_len bs"
  have h: "6 \<le> length bs" "6 \<le> ?n" "?n \<le> int (length bs)"
    and f: "f = \<lparr>content = take (nat ?n - 6) (drop 6 bs), flags = uint_val False (take 2 (drop 4 bs))\<rparr>"
    and rest: "rest = drop (nat ?n) bs"
    using assms(2) by (auto simp: take_frame_def split: if_splits)
  obtain r1 where r1: "(if frameSize r = 0 then readFrameSizeAndFlags r else Inr r) = Inr r1"
    "reader_inv r1 p bs" "frameSize r1 = ?n" "rflags r1 = flags f"
    using header_step [OF assms(1) h(1,2)] f by auto
  have r1c: "concat (chunks r1) = bs" "chunksTotalSize r1 = int (length bs)"
    "pending_ok p (clientMessage r1)" "chunksTotalSize r = int (length bs)"
    using r1(2) assms(1) by (simp_all add: reader_inv_def)
  define cut where "cut = (int (length bs) > ?n)"
  have body: "(if cut then js_slice bs 6 ?n else js_slice bs 6 (int (length bs))) = content f"
    using h f js_slice_in_range [of 6 ?n bs] js_slice_from [of 6 bs]
    by (cases cut) (auto simp: cut_def nat_diff_distrib)
  have tail: "concat (if cut then [js_slice bs ?n (int (length bs))] else []) = rest"
    using h rest js_slice_from [of ?n bs] by (auto simp: cut_def)
  define r' where "r' = r1\<lparr>chunks := (if cut then [js_slice bs ?n (int (length bs))] else []),
    chunksTotalSize := int (length bs) - ?n, frameSize := 0,
    clientMessage := Some (case clientMessage r1 of None \<Rightarrow> createForDecode f | Some m \<Rightarrow> addFrame f m)\<rparr>"
  have new: "newFrame (content f) (Some (flags f)) = f" by (simp add: newFrame_def)
  have "readFrame r = Inr (True, r')"
    using h r1 r1c whole_buffer [of r1] body new
    by (cases cut; cases "clientMessage r1")
      (simp_all add: readFrame_def r'_def cut_def [symmetric] Let_def)
  moreover have "reader_inv r' (p @ [f]) rest"
    using addFrame_pending [OF r1c(3), of f] tail rest h by (simp add: reader_inv_def r'_def)
  ultimately show ?thesis by blast
qed

lemma well_framed_tail: "well_framed bs \<Longrightarrow> take_frame bs = Some (f, rest) \<Longrightarrow> well_framed rest"
  by (simp add: well_framed.simps [of bs])

text \<open>
  \<open>read\<close> returns on every well-framed stream: with \<open>null\<close> when the bytes hold no complete message,
  and with the first complete message otherwise.
\<close>

lemma read_null:
  "parse_msgs p bs = ([], p', bs') \<Longrightarrow> reader_inv r p bs \<Longrightarrow> well_framed bs \<Longrightarrow>
     \<exists>r'. read r = Some (Inr (None, r')) \<and> reader_inv r' p' bs'"
proof (induction p bs arbitrary: r rule: parse_msgs.induct)
  case (1 p bs)
  show ?case
  proof (cases "take_frame bs")
    case None
    then show ?thesis
      using readFrame_incomplete [OF "1.prems"(2,3)] "1.prems"(1)
      by (subst read.simps) (auto simp: parse_msgs.simps [of p bs])
  next
    case (Some fr)
    then obtain f rest where fr: "take_frame bs = Some (f, rest)" by (cases fr) auto
    obtain r1 where r1: "readFrame r = Inr (True, r1)" "reader_inv r1 (p @ [f]) rest"
      using readFrame_complete [OF "1.prems"(2) fr] by blast
    have nf: "\<not> isFinalFrame f" and q: "parse_msgs (p @ [f]) rest = ([], p', bs')"
      using "1.prems"(1) fr by (auto simp: parse_msgs.simps [of p bs] split: if_splits prod.splits)
    obtain m where m: "clientMessage r1 = Some m" "end_frame m = Inr f"
      using r1(2) by (auto simp: reader_inv_def pending_ok_def end_frame_def split: option.splits)
    have "\<exists>r'. read r1 = Some (Inr (None, r')) \<and> reader_inv r' p' bs'"
      using "1.IH"(2) [OF fr _ nf q r1(2) well_framed_tail [OF "1.prems"(3) fr]] by simp
    then show ?thesis using r1 m nf by (subst read.simps) simp
  qed
qed

lemma read_message:
  "parse_msgs p bs = (fs # ms, q) \<Longrightarrow> reader_inv r p bs \<Longrightarrow> well_framed bs \<Longrightarrow>
     \<exists>m r' bs'. read r = Some (Inr (Some m, r')) \<and> pending_ok fs (Some m) \<and> reader_inv r' [] bs' \<and>
       well_framed bs' \<and> length bs' < length bs \<and> parse_msgs [] bs' = (ms, q)"
proof (induction p bs arbitrary: r rule: parse_msgs.induct)
  case (1 p bs)
  then obtain f rest where fr: "take_frame bs = Some (f, rest)"
    by (auto simp: parse_msgs.simps [of p bs] split: option.splits)
  obtain r1 where r1: "readFrame r = Inr (True, r1)" "reader_inv r1 (p @ [f]) rest"
    using readFrame_complete [OF "1.prems"(2) fr] by blast
  obtain m where m: "clientMessage r1 = Some m" "end_frame m = Inr f" "pending_ok (p @ [f]) (Some m)"
    using r1(2) by (auto simp: reader_inv_def pending_ok_def end_frame_def split: option.splits)
  have wf: "well_framed rest" and len: "length rest < length bs"
    using well_framed_tail [OF "1.prems"(3) fr] take_frame_shorter [OF fr] .
  show ?case
  proof (cases "isFinalFrame f")
    case True
    have "fs = p @ [f]" "parse_msgs [] rest = (ms, q)"
      using "1.prems"(1) fr True by (auto simp: parse_msgs.simps [of p bs] split: prod.splits)
    moreover have "reader_inv (reset r1) [] rest"
      using r1(2) by (simp add: reader_inv_def reset_def pending_ok_def)
    ultimately show ?thesis using r1(1) m True wf len by (subst read.simps) auto
  next
    case False
    have q: "parse_msgs (p @ [f]) rest = (fs # ms, q)"
      using "1.prems"(1) fr False by (auto simp: parse_msgs.simps [of p bs])
    obtain m' r' bs' where "read r1 = Some (Inr (Some m', r'))" "pending_ok fs (Some m')"
      "reader_inv r' [] bs'" "well_framed bs'" "length bs' < length rest" "parse_msgs [] bs' = (ms, q)"
      using "1.IH"(2) [OF fr _ False q r1(2) wf] by auto
    then show ?thesis using r1(1) m False len by (subst read.simps) auto
  qed
qed

subsection \<open>Streams in pieces\<close>

lemma take_frame_append: "take_frame a = Some (f, r) \<Longrightarrow> take_frame (a @ b) = Some (f, r @ b)"
proof -
  assume t: "take_frame a = Some (f, r)"
  then have h: "6 \<le> length a" "6 \<le> header_len a" "header_len a \<le> int (length a)"
    by (auto simp: take_frame_def split: if_splits)
  then have "nat (header_len a) \<le> length a" by linarith
  then show ?thesis using t h header_prefix [OF h(1), of b]
    by (auto simp: take_frame_def)
qed

lemma parse_append:
  "parse_msgs p a = (ms, p', r) \<Longrightarrow>
     parse_msgs p (a @ b) = (case parse_msgs p' (r @ b) of (ms', q) \<Rightarrow> (ms @ ms', q))"
proof (induction p a arbitrary: ms rule: parse_msgs.induct)
  case (1 p a)
  show ?case
  proof (cases "take_frame a")
    case None
    then show ?thesis using "1.prems" by (auto simp: parse_msgs.simps [of p a] split: prod.split)
  next
    case (Some fr)
    then obtain f r1 where fr: "take_frame a = Some (f, r1)" by (cases fr) auto
    note fr' = take_frame_append [OF fr, of b]
    show ?thesis
    proof (cases "isFinalFrame f")
      case True
      then obtain ms1 where "ms = (p @ [f]) # ms1" "parse_msgs [] r1 = (ms1, p', r)"
        using "1.prems" fr by (auto simp: parse_msgs.simps [of p a] split: prod.splits)
      then show ?thesis
        using "1.IH"(1) [OF fr _ True, of r1 ms1] True fr fr'
        by (auto simp: parse_msgs.simps [of p "a @ b"] split: prod.split)
    next
      case False
      then show ?thesis
        using "1.IH"(2) [OF fr _ False, of r1 ms] "1.prems" fr fr'
        by (auto simp: parse_msgs.simps [of p "a @ b"] parse_msgs.simps [of p a])
    qed
  qed
qed

lemma well_framed_rest:
  "parse_msgs p a = (ms, p', r) \<Longrightarrow> well_framed (a @ b) \<Longrightarrow> well_framed (r @ b)"
proof (induction p a arbitrary: ms rule: parse_msgs.induct)
  case (1 p a)
  show ?case
  proof (cases "take_frame a")
    case None
    then show ?thesis using "1.prems" by (simp add: parse_msgs.simps [of p a])
  next
    case (Some fr)
    then obtain f r1 where fr: "take_frame a = Some (f, r1)" by (cases fr) auto
    have w: "well_framed (r1 @ b)"
      using "1.prems"(2) take_frame_append [OF fr, of b] by (simp add: well_framed.simps [of "a @ b"])
    show ?thesis
      using "1.IH" [OF fr refl] "1.prems"(1) fr w
      by (auto simp: parse_msgs.simps [of p a] split: if_splits prod.splits)
  qed
qed

lemma well_framed_prefix: "well_framed (a @ b) \<Longrightarrow> well_framed a"
proof (induction a rule: well_framed.induct)
  case (1 a)
  have "6 \<le> length a \<longrightarrow> 6 \<le> header_len a"
    using "1.prems" header_prefix [of a b] by (auto simp: well_framed.simps [of "a @ b"])
  moreover have "well_framed r" if fr: "take_frame a = Some (f, r)" for f r
    using "1.IH" [OF fr, of f r] "1.prems" take_frame_append [OF fr, of b]
    by (simp add: well_framed.simps [of "a @ b"])
  ultimately show ?case by (auto simp: well_framed.simps [of a] split: option.split)
qed

subsection \<open>What the wire format decodes to\<close>

definition msg_ok :: "frame list \<Rightarrow> bool" where
  "msg_ok fs \<longleftrightarrow> fs \<noteq> [] \<and> list_all frame_ok fs \<and> list_all (\<lambda>f. \<not> isFinalFrame f) (butlast fs)"

lemma take_frame_enc: "frame_ok f \<Longrightarrow> take_frame (enc_frame f @ b) = Some (f, b)"
proof -
  assume ok: "frame_ok f"
  have s: "in_sint 4 (int (length (content f)) + 6)" and u: "in_uint 2 (flags f)"
    using ok by (simp_all add: frame_ok_def in_sint_def)
  have "header_len (enc_frame f @ b) = int (length (content f)) + 6"
    using s by (simp add: header_len_def enc_frame_def)
  moreover have "take 2 (drop 4 (enc_frame f @ b)) = int_bytes False 2 (flags f)"
    by (simp add: enc_frame_def)
  moreover have "drop 6 (enc_frame f @ b) = content f @ b"
    by (simp add: enc_frame_def)
  moreover have "drop (length (content f) + 6) (enc_frame f @ b) = b"
    by simp
  ultimately show ?thesis using u
    by (simp add: take_frame_def nat_add_distrib del: drop_append append_assoc)
qed

lemma parse_enc_frames:
  "msg_ok fs \<Longrightarrow> parse_msgs p (enc_frames fs @ b) =
     (case parse_msgs [] b of (ms, q) \<Rightarrow> ((p @ wire_frames fs) # ms, q))"
proof (induction fs arbitrary: p)
  case (Cons f fs)
  let ?g = "if fs = [] then addFlag IS_FINAL_FLAG f else f"
  have ok: "frame_ok f" "frame_ok ?g" "isFinalFrame ?g \<longleftrightarrow> fs = []"
    using Cons.prems addFlag_final(2,3) [of f] by (auto simp: msg_ok_def)
  have t: "take_frame (enc_frames (f # fs) @ b) = Some (?g, enc_frames fs @ b)"
    using take_frame_enc [OF ok(2), of "enc_frames fs @ b"] by (simp add: enc_frames_Cons)
  show ?case
  proof (cases "fs = []")
    case True
    then show ?thesis using t ok by (subst parse_msgs.simps) (simp add: enc_frames_def)
  next
    case False
    then have "wire_frames (f # fs) = f # wire_frames fs" by (cases fs) auto
    moreover have "msg_ok fs" using Cons.prems False by (simp add: msg_ok_def)
    ultimately show ?thesis using t ok False Cons.IH [of "p @ [f]"]
      by (subst parse_msgs.simps) (simp split: prod.split)
  qed
qed (simp add: msg_ok_def)

lemma well_framed_enc_frames: "list_all frame_ok fs \<Longrightarrow> well_framed b \<Longrightarrow> well_framed (enc_frames fs @ b)"
proof (induction fs)
  case (Cons f fs)
  let ?g = "if fs = [] then addFlag IS_FINAL_FLAG f else f"
  have "frame_ok ?g" using Cons.prems addFlag_final(2) [of f] by auto
  then have t: "take_frame (enc_frames (f # fs) @ b) = Some (?g, enc_frames fs @ b)"
    using take_frame_enc [of ?g "enc_frames fs @ b"] by (simp add: enc_frames_Cons)
  then show ?case using Cons
    by (subst well_framed.simps) (auto simp: take_frame_def split: if_splits)
qed (simp add: enc_frames_def)

lemma well_framed_Nil: "well_framed []"
  by (subst well_framed.simps) (simp add: take_frame_def)

text \<open>A whole stream of messages.\<close>

definition enc_stream :: "frame list list \<Rightarrow> byte list" where
  "enc_stream mss = concat (map enc_frames mss)"

lemma parse_stream: "list_all msg_ok mss \<Longrightarrow> parse_msgs [] (enc_stream mss) = (map wire_frames mss, [], [])"
  by (induction mss)
    (simp_all add: enc_stream_def parse_enc_frames parse_msgs.simps [of "[]" "[]"] take_frame_def)

lemma well_framed_stream: "list_all msg_ok mss \<Longrightarrow> well_framed (enc_stream mss)"
  by (induction mss)
    (simp_all add: enc_stream_def well_framed_Nil well_framed_enc_frames msg_ok_def)

subsection \<open>A header that announces an empty frame\<close>

text \<open>
  \<open>readFrame\<close> does not check the announced length. A frame of length 0 consumes nothing, and
  \<open>frameSize === 0\<close> also means that no header has been read.
\<close>

definition zero_header :: "reader \<Rightarrow> bool" where
  "zero_header r \<longleftrightarrow> (\<exists>bs. chunks r = [bs] \<and> chunksTotalSize r = int (length bs) \<and> 6 \<le> length bs \<and>
     frameSize r = 0 \<and> header_len bs = 0 \<and>
     \<not> isFlagSet (uint_val False (take 2 (drop 4 bs))) IS_FINAL_FLAG \<and>
     (\<forall>m. clientMessage r = Some m \<longrightarrow> frames m \<noteq> [] \<and> endFrame m = EndAttached))"

lemma zero_header_step:
  assumes "zero_header r"
  shows "\<exists>r' m f. readFrame r = Inr (True, r') \<and> zero_header r' \<and> clientMessage r' = Some m \<and>
    end_frame m = Inr f \<and> \<not> isFinalFrame f"
proof -
  obtain bs where r: "chunks r = [bs]" "chunksTotalSize r = int (length bs)" "6 \<le> length bs"
    "frameSize r = 0" "header_len bs = 0"
    and nf: "\<not> isFlagSet (uint_val False (take 2 (drop 4 bs))) IS_FINAL_FLAG"
    and cm: "\<forall>m. clientMessage r = Some m \<longrightarrow> frames m \<noteq> [] \<and> endFrame m = EndAttached"
    using assms by (auto simp: zero_header_def)
  let ?f = "newFrame (js_slice bs 6 0) (Some (uint_val False (take 2 (drop 4 bs))))"
  define m where "m = (case clientMessage r of None \<Rightarrow> createForDecode ?f | Some m \<Rightarrow> addFrame ?f m)"
  have "js_slice bs 0 (int (length bs)) = bs" by (simp add: js_slice_from)
  then obtain r' where r': "readFrame r = Inr (True, r')" "chunks r' = [bs]"
      "chunksTotalSize r' = int (length bs)" "frameSize r' = 0" "clientMessage r' = Some m"
    using r readFrameSizeAndFlags_eq [of r]
    by (cases "clientMessage r"; cases "bs = []") (simp_all add: readFrame_def Let_def m_def)
  have m: "frames m \<noteq> []" "endFrame m = EndAttached" "end_frame m = Inr ?f"
    using cm by (cases "clientMessage r"; simp add: m_def createForDecode_def newMessage_def
        addFrame_def end_frame_def Let_def)+
  have "zero_header r'"
    unfolding zero_header_def using r r' nf m by (intro exI [of _ bs]) simp
  moreover have "\<not> isFinalFrame ?f" using nf by (simp add: isFinalFrame_def newFrame_def)
  ultimately show ?thesis using r' m by blast
qed

lemma zero_header_diverges: "read r = Some y \<Longrightarrow> \<not> zero_header r"
proof (erule read.raw_induct [where P = "\<lambda>r y. \<not> zero_header r", rotated])
  fix rd :: "reader \<Rightarrow> (client_message option \<times> reader) res option" and r y
  assume IH: "\<And>r y. rd r = Some y \<Longrightarrow> \<not> zero_header r"
    and body: "(case readFrame r of Inl e \<Rightarrow> Some (Inl e)
      | Inr (ready, r') \<Rightarrow>
          if ready then
            (case clientMessage r' of None \<Rightarrow> Some (Inl TypeError)
             | Some m \<Rightarrow>
                 (case end_frame m of Inl e \<Rightarrow> Some (Inl e)
                  | Inr f \<Rightarrow> if isFinalFrame f then Some (Inr (Some m, reset r')) else rd r'))
          else Some (Inr (None, r'))) = Some y"
  show "\<not> zero_header r"
  proof
    assume "zero_header r"
    then obtain r' m f where "readFrame r = Inr (True, r')" "zero_header r'"
      "clientMessage r' = Some m" "end_frame m = Inr f" "\<not> isFinalFrame f"
      using zero_header_step by blast
    then show False using IH body by simp
  qed
qed

text \<open>
  C27. When the bytes on the socket start with a frame header whose length field is 0 and whose
  flags do not include the final flag, \<open>ClientMessageReader.read\<close> never returns: it adds empty
  frames to the message without consuming a byte.
\<close>

theorem read_zero_length_diverges:
  assumes "in_uint 2 fl" and "\<not> isFlagSet fl IS_FINAL_FLAG"
  shows "read (append_chunk (int_bytes False 4 0 @ int_bytes False 2 fl @ rest) new_reader) = None"
proof -
  have "sint_val False (int_bytes False 4 0) = 0"
    by (rule sint_val_in_range) (simp add: in_sint_def)
  then have "zero_header (append_chunk (int_bytes False 4 0 @ int_bytes False 2 fl @ rest) new_reader)"
    using assms by (simp add: zero_header_def append_chunk_def new_reader_def header_len_def)
  then show ?thesis using zero_header_diverges by (cases "read (append_chunk
    (int_bytes False 4 0 @ int_bytes False 2 fl @ rest) new_reader)") blast+
qed

theorem read_zero_length_diverges_witness:
  "read (append_chunk [0, 0, 0, 0, 0, 0] new_reader) = None"
proof -
  have "int_bytes False 4 0 @ int_bytes False 2 0 @ [] = [0, 0, 0, 0, 0, 0]" by code_simp
  moreover have "in_uint 2 0" "\<not> isFlagSet 0 IS_FINAL_FLAG"
    by (simp_all add: in_uint_def isFlagSet_def js_and_def)
  ultimately show ?thesis using read_zero_length_diverges [of 0 "[]"] by metis
qed

end
