(* ===== verification/FragmentedClientMessageHandler.thy ===== *)
theory FragmentedClientMessageHandler
  imports ClientMessageReader
begin

section \<open>Reassembly of fragmented messages (class FragmentedClientMessageHandler of src/src/network/Connection.ts)\<close>

text \<open>
  Large messages arrive in fragments that share a fragmentation id and may be interleaved with
  other traffic. The handler keeps the messages under construction in a map; the specification
  keeps the frames received so far.
\<close>

type_synonym frag_map = "int \<Rightarrow> client_message option"

definition handleFragmentedMessage ::
  "(js_long \<Rightarrow> int) \<Rightarrow> client_message \<Rightarrow> frag_map \<Rightarrow> (client_message option \<times> frag_map) res" where
  "handleFragmentedMessage toNumber message fragmentedMessages =
     bindR (getFragmentationId toNumber message) (\<lambda>fragmentationId.
     case getStartFrame message of
       None \<Rightarrow> Inl TypeError
     | Some fragmentationFrame \<Rightarrow>
         bindR (dropFragmentationFrame message) (\<lambda>message.
           if hasBeginFragmentFlag fragmentationFrame
           then Inr (None, fragmentedMessages(fragmentationId \<mapsto> message))
           else
             case fragmentedMessages fragmentationId of
               None \<Rightarrow> Inr (None, fragmentedMessages)
             | Some existingMessage \<Rightarrow>
                 bindR (merge message existingMessage) (\<lambda>existingMessage.
                   if hasEndFragmentFlag fragmentationFrame
                   then Inr (Some existingMessage, fragmentedMessages(fragmentationId := None))
                   else Inr (None, fragmentedMessages(fragmentationId \<mapsto> existingMessage)))))"

subsection \<open>Specification\<close>

text \<open>A fragment: its id, whether it begins or ends a message, and the frames it carries.\<close>

record fragment =
  frag_id :: int
  frag_begin :: bool
  frag_end :: bool
  frag_body :: "frame list"

definition fragment_of :: "(js_long \<Rightarrow> int) \<Rightarrow> frame list \<Rightarrow> fragment" where
  "fragment_of toNumber fs =
     \<lparr>frag_id = (case decodeLong (content (hd fs)) 0 of Inr l \<Rightarrow> toNumber l | Inl _ \<Rightarrow> 0),
      frag_begin = hasBeginFragmentFlag (hd fs), frag_end = hasEndFragmentFlag (hd fs),
      frag_body = tl fs\<rparr>"

type_synonym assembly = "int \<Rightarrow> frame list option"

definition spec_fragment :: "fragment \<Rightarrow> assembly \<Rightarrow> frame list option \<times> assembly" where
  "spec_fragment g asm =
     (if frag_begin g then (None, asm(frag_id g \<mapsto> frag_body g))
      else case asm (frag_id g) of
        None \<Rightarrow> (None, asm)
      | Some fs \<Rightarrow>
          if frag_end g then (Some (fs @ frag_body g), asm(frag_id g := None))
          else (None, asm(frag_id g \<mapsto> fs @ frag_body g)))"

fun spec_fragments :: "fragment list \<Rightarrow> assembly \<Rightarrow> (int \<times> frame list) list \<times> assembly" where
  "spec_fragments [] asm = ([], asm)"
| "spec_fragments (g # gs) asm =
     (case spec_fragment g asm of (out, asm') \<Rightarrow>
        case spec_fragments gs asm' of (outs, asm'') \<Rightarrow>
          ((case out of None \<Rightarrow> outs | Some fs \<Rightarrow> (frag_id g, fs) # outs), asm''))"

subsection \<open>The handler implements the specification\<close>

text \<open>A message as the reader delivers it, with all its frames unread.\<close>

definition fresh_message :: "frame list \<Rightarrow> client_message \<Rightarrow> bool" where
  "fresh_message fs m \<longleftrightarrow> frames m = fs \<and> fs \<noteq> [] \<and> endFrame m = EndAttached \<and> nxt m = Some 0 \<and>
     cachedTotalLength m = None"

definition asm_rel :: "frag_map \<Rightarrow> assembly \<Rightarrow> bool" where
  "asm_rel fm asm \<longleftrightarrow> (\<forall>i. rel_option (\<lambda>m fs. fresh_message fs m) (fm i) (asm i))"

text \<open>A fragment with a readable id and at least one frame behind the fragmentation frame.\<close>

definition frag_ok :: "frame list \<Rightarrow> bool" where
  "frag_ok fs \<longleftrightarrow> 2 \<le> length fs \<and> 8 \<le> length (content (hd fs))"

lemma pending_fresh: "pending_ok fs (Some m) \<Longrightarrow> fresh_message fs m"
  by (simp add: pending_ok_def fresh_message_def)

lemma decodeLong_total:
  assumes "0 \<le> off" and "off + 8 \<le> int (length b)"
  shows "\<exists>l. decodeLong b off = Inr l"
  using assms by (simp add: decodeLong_def buf_read_sint_def buf_get_def size_defs)

lemma drop_fresh:
  assumes "fresh_message (f # g # fs) m"
  shows "\<exists>m'. dropFragmentationFrame m = Inr m' \<and> fresh_message (g # fs) m'"
  using assms by (simp add: dropFragmentationFrame_def fresh_message_def)

lemma merge_fresh:
  assumes "fresh_message fs m" and "fresh_message gs n"
  shows "\<exists>m'. merge n m = Inr m' \<and> fresh_message (fs @ gs) m'"
  using assms by (simp add: merge_def fresh_message_def)

lemma asm_rel_upd:
  "asm_rel fm asm \<Longrightarrow> fresh_message fs m \<Longrightarrow> asm_rel (fm(i \<mapsto> m)) (asm(i \<mapsto> fs))"
  "asm_rel fm asm \<Longrightarrow> asm_rel (fm(i := None)) (asm(i := None))"
  by (simp_all add: asm_rel_def)

lemma handle_refines:
  assumes rel: "asm_rel fm asm" and fresh: "fresh_message fs m" and ok: "frag_ok fs"
  shows "\<exists>out fm'. handleFragmentedMessage toNumber m fm = Inr (out, fm') \<and>
    rel_option (\<lambda>m fs. fresh_message fs m) out (fst (spec_fragment (fragment_of toNumber fs) asm)) \<and>
    asm_rel fm' (snd (spec_fragment (fragment_of toNumber fs) asm))"
proof -
  obtain f g gs where fs: "fs = f # g # gs"
    using ok by (auto simp: frag_ok_def Suc_le_length_iff numeral_2_eq_2)
  obtain l where l: "decodeLong (content f) 0 = Inr l"
    using decodeLong_total [of 0 "content f"] ok by (auto simp: frag_ok_def fs)
  have id: "getFragmentationId toNumber m = Inr (toNumber l)"
    using fresh l by (simp add: getFragmentationId_def read_start_def fresh_message_def fs)
  have start: "getStartFrame m = Some f"
    using fresh by (simp add: getStartFrame_def fresh_message_def fs)
  obtain m' where m': "dropFragmentationFrame m = Inr m'" "fresh_message (g # gs) m'"
    using drop_fresh fresh fs by blast
  let ?i = "toNumber l"
  have frag: "fragment_of toNumber fs = \<lparr>frag_id = ?i, frag_begin = hasBeginFragmentFlag f,
      frag_end = hasEndFragmentFlag f, frag_body = g # gs\<rparr>"
    using l by (simp add: fragment_of_def fs)
  note defs = handleFragmentedMessage_def spec_fragment_def frag id start m'(1)
  show ?thesis
  proof (cases "hasBeginFragmentFlag f")
    case True
    then show ?thesis using asm_rel_upd(1) [OF rel m'(2)] by (simp add: defs)
  next
    case False
    show ?thesis
    proof (cases "asm ?i")
      case None
      then have "fm ?i = None" using rel unfolding asm_rel_def by (metis option.rel_distinct(2) option.exhaust)
      then show ?thesis using None False rel by (simp add: defs)
    next
      case (Some hs)
      then obtain n where n: "fm ?i = Some n" "fresh_message hs n"
        using rel unfolding asm_rel_def by (metis option_rel_Some2)
      obtain n' where n': "merge m' n = Inr n'" "fresh_message (hs @ g # gs) n'"
        using merge_fresh [OF n(2) m'(2)] by blast
      show ?thesis
        using asm_rel_upd [OF rel] n n' Some False by (simp add: defs)
    qed
  qed
qed

subsection \<open>Interleaved fragments\<close>

definition frags_of :: "int \<Rightarrow> fragment list \<Rightarrow> fragment list" where
  "frags_of i gs = filter (\<lambda>g. frag_id g = i) gs"

text \<open>The fragments of one message: a first one, any number in the middle, a last one.\<close>

definition complete_frags :: "fragment list \<Rightarrow> bool" where
  "complete_frags hs \<longleftrightarrow> 2 \<le> length hs \<and> frag_begin (hd hs) \<and> list_all (\<lambda>g. \<not> frag_begin g) (tl hs) \<and>
     frag_end (last hs) \<and> list_all (\<lambda>g. \<not> frag_end g) (butlast hs)"

definition all_bodies :: "int \<Rightarrow> fragment list \<Rightarrow> frame list" where
  "all_bodies i gs = concat (map frag_body (frags_of i gs))"

definition asm_after :: "fragment list \<Rightarrow> assembly" where
  "asm_after pre i =
     (if frags_of i pre = [] \<or> list_ex frag_end (frags_of i pre) then None else Some (all_bodies i pre))"

lemma frags_of_append: "frags_of i (xs @ ys) = frags_of i xs @ frags_of i ys"
  by (simp add: frags_of_def)

lemma complete_split:
  assumes "complete_frags (xs @ g # ys)"
  shows "frag_begin g \<longleftrightarrow> xs = []" and "frag_end g \<longleftrightarrow> ys = []" and "\<not> list_ex frag_end xs"
proof -
  have bl: "butlast (xs @ g # ys) = xs @ (if ys = [] then [] else g # butlast ys)"
    by (simp add: butlast_append)
  show "frag_begin g \<longleftrightarrow> xs = []"
    using assms by (cases xs) (simp_all add: complete_frags_def)
  show "frag_end g \<longleftrightarrow> ys = []"
    using assms bl by (cases "ys = []") (simp_all add: complete_frags_def)
  show "\<not> list_ex frag_end xs"
    using assms bl by (auto simp: complete_frags_def list_ex_iff list_all_iff)
qed

lemma asm_step:
  assumes "complete_frags (frags_of (frag_id g) (pre @ g # post))"
  shows "spec_fragment g (asm_after pre) =
    ((if frag_end g then Some (all_bodies (frag_id g) (pre @ [g])) else None), asm_after (pre @ [g]))"
proof -
  let ?i = "frag_id g" and ?h = "frags_of (frag_id g) pre"
  have "complete_frags (?h @ g # frags_of ?i post)"
    using assms by (simp add: frags_of_append) (simp add: frags_of_def)
  note c = complete_split [OF this]
  have h': "frags_of ?i (pre @ [g]) = ?h @ [g]" by (simp add: frags_of_def)
  have other: "asm_after (pre @ [g]) j = asm_after pre j" if "j \<noteq> ?i" for j
    using that by (simp add: asm_after_def frags_of_def all_bodies_def)
  have upd: "asm_after (pre @ [g]) =
      (asm_after pre)(?i := if frag_end g then None else Some (all_bodies ?i pre @ frag_body g))"
    using other c(3) h' by (auto simp: fun_eq_iff asm_after_def all_bodies_def)
  show ?thesis
  proof (cases "?h = []")
    case True
    moreover have "\<not> frag_end g"
      using c(1,2) assms True by (auto simp: complete_frags_def frags_of_append frags_of_def)
    ultimately show ?thesis using c(1) upd by (simp add: spec_fragment_def all_bodies_def)
  next
    case False
    then have "asm_after pre ?i = Some (all_bodies ?i pre)" using c(3) by (simp add: asm_after_def)
    then show ?thesis using False c(1) upd h'
      by (simp add: spec_fragment_def all_bodies_def)
  qed
qed

lemma spec_fragments_complete:
  assumes "\<forall>g \<in> set (pre @ gs). complete_frags (frags_of (frag_id g) (pre @ gs))"
  shows "map snd (fst (spec_fragments gs (asm_after pre))) =
    map (\<lambda>g. all_bodies (frag_id g) (pre @ gs)) (filter frag_end gs)"
  using assms
proof (induction gs arbitrary: pre)
  case (Cons g gs)
  have c: "complete_frags (frags_of (frag_id g) (pre @ g # gs))" using Cons.prems by simp
  have last: "all_bodies (frag_id g) (pre @ [g]) = all_bodies (frag_id g) (pre @ g # gs)" if "frag_end g"
    using complete_split(2) [of "frags_of (frag_id g) pre" g "frags_of (frag_id g) gs"] c that
    by (simp add: all_bodies_def frags_of_append) (simp add: frags_of_def)
  have "map snd (fst (spec_fragments gs (asm_after (pre @ [g])))) =
      map (\<lambda>h. all_bodies (frag_id h) (pre @ g # gs)) (filter frag_end gs)"
    using Cons.IH [of "pre @ [g]"] Cons.prems by simp
  then show ?case
    using asm_step [OF c] last
    by (cases "spec_fragments gs (asm_after (pre @ [g]))"; cases "frag_end g") simp_all
qed simp

text \<open>The handler run over the messages a connection receives, with what it hands to the callback.\<close>

fun handle_all :: "(js_long \<Rightarrow> int) \<Rightarrow> client_message list \<Rightarrow> frag_map \<Rightarrow>
    (client_message list \<times> frag_map) res" where
  "handle_all toNumber [] fm = Inr ([], fm)"
| "handle_all toNumber (m # ms) fm =
     bindR (handleFragmentedMessage toNumber m fm) (\<lambda>(out, fm).
     bindR (handle_all toNumber ms fm) (\<lambda>(outs, fm).
       Inr ((case out of None \<Rightarrow> outs | Some m \<Rightarrow> m # outs), fm)))"

lemma handle_all_refines:
  "list_all2 fresh_message fss ms \<Longrightarrow> list_all frag_ok fss \<Longrightarrow> asm_rel fm asm \<Longrightarrow>
     \<exists>outs fm'. handle_all toNumber ms fm = Inr (outs, fm') \<and>
       map frames outs = map snd (fst (spec_fragments (map (fragment_of toNumber) fss) asm))"
proof (induction fss ms arbitrary: fm asm rule: list_all2_induct)
  case (Cons fs fss m ms)
  let ?g = "fragment_of toNumber fs"
  obtain out fm1 where h: "handleFragmentedMessage toNumber m fm = Inr (out, fm1)"
    and o: "rel_option (\<lambda>m fs. fresh_message fs m) out (fst (spec_fragment ?g asm))"
    and r: "asm_rel fm1 (snd (spec_fragment ?g asm))"
    using handle_refines [of fm asm fs m toNumber] Cons by auto
  obtain outs fm2 where "handle_all toNumber ms fm1 = Inr (outs, fm2)"
    "map frames outs = map snd (fst (spec_fragments (map (fragment_of toNumber) fss) (snd (spec_fragment ?g asm))))"
    using Cons.IH [OF _ r] Cons.prems by auto
  then show ?case using h o
    by (cases "spec_fragment ?g asm"; cases "spec_fragments (map (fragment_of toNumber) fss) (snd (spec_fragment ?g asm))")
      (auto simp: fresh_message_def rel_option_iff split: option.splits)
qed simp

text \<open>
  C15. Reassembly under interleaving. If the fragments of every fragmentation id that arrives form
  one complete message (a begin fragment, fragments in the middle, an end fragment), in whatever
  way the fragments of different ids are interleaved, the handler raises no error and hands to the
  callback one message per id, in the order in which the end fragments arrive, and each
  consists of the frames of all fragments of its id in the order of arrival.
\<close>

theorem fragments_reassembled:
  assumes "list_all2 fresh_message fss ms" and "list_all frag_ok fss"
    and "gs = map (fragment_of toNumber) fss"
    and "list_all (\<lambda>g. complete_frags (frags_of (frag_id g) gs)) gs"
  shows "\<exists>outs fm. handle_all toNumber ms (\<lambda>_. None) = Inr (outs, fm) \<and>
    map frames outs = map (\<lambda>g. all_bodies (frag_id g) gs) (filter frag_end gs)"
proof -
  have "asm_rel (\<lambda>_. None) (asm_after [])"
    by (simp add: asm_rel_def asm_after_def frags_of_def)
  then obtain outs fm where "handle_all toNumber ms (\<lambda>_. None) = Inr (outs, fm)"
    "map frames outs = map snd (fst (spec_fragments gs (asm_after [])))"
    using handle_all_refines [OF assms(1,2)] assms(3) by blast
  then show ?thesis
    using spec_fragments_complete [of "[]" gs] assms(4) by (auto simp: list_all_iff)
qed

text \<open>Two messages in two fragments each, the second begun before the first is complete.\<close>

definition sample_fragment :: "byte \<Rightarrow> int \<Rightarrow> byte \<Rightarrow> frame list" where
  "sample_fragment i fl b = [\<lparr>content = [i, 0, 0, 0, 0, 0, 0, 0], flags = fl\<rparr>, \<lparr>content = [b], flags = 0\<rparr>]"

definition sample_fragments :: "frame list list" where
  "sample_fragments = [sample_fragment 1 32768 10, sample_fragment 2 32768 20,
     sample_fragment 1 16384 11, sample_fragment 2 16384 21]"

theorem fragments_reassembled_witness:
  "\<exists>outs fm. handle_all low (map (\<lambda>fs. newMessage fs EndAttached) sample_fragments) (\<lambda>_. None) = Inr (outs, fm) \<and>
    map (map content) (map frames outs) = [[[10], [11]], [[20], [21]]]"
proof -
  let ?gs = "map (fragment_of low) sample_fragments"
  have "list_all (\<lambda>g. complete_frags (frags_of (frag_id g) ?gs)) ?gs" by code_simp
  moreover have "list_all frag_ok sample_fragments" by code_simp
  moreover have "list_all2 fresh_message sample_fragments
      (map (\<lambda>fs. newMessage fs EndAttached) sample_fragments)" by code_simp
  moreover have "map (map content) (map (\<lambda>g. all_bodies (frag_id g) ?gs) (filter frag_end ?gs)) =
      [[[10], [11]], [[20], [21]]]" by code_simp
  ultimately show ?thesis
    using fragments_reassembled [of sample_fragments _ ?gs low] by metis
qed

end
