(* ===== verification/PipelinedWriter.thy ===== *)
theory PipelinedWriter
  imports ClientMessage "HOL-Library.Sublist" "HOL-Library.Multiset"
begin

section \<open>Writing messages to the socket (classes PipelinedWriter and DirectWriter of src/src/network/Connection.ts)\<close>

text \<open>
  The pipelined writer queues messages and sends them in batches, coalescing small ones in a
  buffer it reuses for every batch. The writer is a record with one function per method; around it
  a step relation interleaves calls of \<open>write\<close> and \<open>close\<close> with the events of the runtime: a run of
  \<open>process\<close> that was passed to \<open>nextTick\<close> or \<open>setImmediate\<close>, the callback of \<open>socket.write\<close>, the
  \<open>drain\<close> event. A batch in flight is a view of the reused buffer, read by the socket no later than
  its callback.
\<close>

record item =
  imsg :: client_message
  resolver :: nat

record pipelined_writer =
  queue :: "item list"
  frozen :: bool
  werror :: bool
  scheduled :: bool
  canWrite :: bool
  coalesceBuf :: buffer
  threshold :: int

text \<open>A buffer passed to the socket: one of its own, or the first bytes of \<open>coalesceBuf\<close>.\<close>

datatype out_buf = Own buffer | View int

definition new_writer :: "(nat \<Rightarrow> byte) \<Rightarrow> int \<Rightarrow> pipelined_writer res" where
  "new_writer junk th =
     bindR (allocUnsafe junk th) (\<lambda>b.
       Inr \<lparr>queue = [], frozen = False, werror = False, scheduled = False, canWrite = True,
            coalesceBuf = b, threshold = th\<rparr>)"

text \<open>\<open>schedule\<close> returns whether a run of \<open>process\<close> was handed to the runtime.\<close>

definition schedule :: "pipelined_writer \<Rightarrow> bool \<times> pipelined_writer" where
  "schedule w =
     (if \<not> scheduled w \<and> canWrite w then (True, w\<lparr>scheduled := True\<rparr>) else (False, w))"

definition on_drain :: "pipelined_writer \<Rightarrow> bool \<times> pipelined_writer" where
  "on_drain w = schedule (w\<lparr>canWrite := True\<rparr>)"

text \<open>
  The outcomes of \<open>write\<close>: a rejection of the resolver on the next tick, or an accepted message and
  whether a run of \<open>process\<close> was handed over. Pushing to the frozen array of a closed writer raises.
\<close>

datatype write_outcome = RejectLater nat | Queued bool

definition writer_write :: "client_message \<Rightarrow> nat \<Rightarrow> pipelined_writer \<Rightarrow>
    (write_outcome \<times> pipelined_writer) res" where
  "writer_write message r w =
     (if werror w then Inr (RejectLater r, w)
      else if frozen w then Inl TypeError
      else case schedule (w\<lparr>queue := queue w @ [\<lparr>imsg = message, resolver = r\<rparr>]\<rparr>) of
        (tick, w) \<Rightarrow> Inr (Queued tick, w))"

definition writer_close :: "pipelined_writer \<Rightarrow> pipelined_writer" where
  "writer_close w = w\<lparr>canWrite := False, queue := [], frozen := True\<rparr>"

text \<open>
  The loop of \<open>process\<close>: the total length of the batch, the batch, and the rest of the queue.
\<close>

fun select_batch :: "int \<Rightarrow> nat \<Rightarrow> int \<Rightarrow> item list \<Rightarrow> int \<times> item list \<times> item list" where
  "select_batch th queueIdx totalLength [] = (totalLength, [], [])"
| "select_batch th queueIdx totalLength (it # q) =
     (if totalLength < th then
        (case getTotalLength (imsg it) of (msgLength, m) \<Rightarrow>
           let it = it\<lparr>imsg := m\<rparr> in
           if queueIdx > 0 \<and> totalLength + msgLength > th then (totalLength, [], it # q)
           else (case select_batch th (Suc queueIdx) (totalLength + msgLength) q of
                   (n, batch, rest) \<Rightarrow> (n, it # batch, rest)))
      else (totalLength, [], it # q))"

fun coalesce :: "item list \<Rightarrow> buffer \<Rightarrow> int \<Rightarrow> (buffer \<times> int) res" where
  "coalesce [] b p = Inr (b, p)"
| "coalesce (it # batch) b p = bindR (writeTo (imsg it) b p) (\<lambda>(b, p). coalesce batch b p)"

text \<open>
  \<open>process\<close> up to the call of \<open>socket.write\<close>: the buffer and the batch to write, if any.
\<close>

definition process_batch :: "(nat \<Rightarrow> byte) \<Rightarrow> pipelined_writer \<Rightarrow>
    ((out_buf \<times> item list) option \<times> pipelined_writer) res" where
  "process_batch junk w =
     (if werror w then Inr (None, w)
      else case select_batch (threshold w) 0 0 (queue w) of (totalLength, writeBatch, rest) \<Rightarrow>
        if totalLength = 0 then Inr (None, w\<lparr>queue := writeBatch @ rest, scheduled := False\<rparr>)
        else let w = w\<lparr>queue := rest\<rparr> in
          if length writeBatch = 1 \<and> totalLength > threshold w
          then bindR (toBuffer_message junk (imsg (hd writeBatch))) (\<lambda>(b, m).
                 Inr (Some (Own b, writeBatch), w))
          else bindR (coalesce writeBatch (coalesceBuf w) 0) (\<lambda>(b, p).
                 Inr (Some (View totalLength, writeBatch), w\<lparr>coalesceBuf := b\<rparr>)))"

text \<open>\<open>socket.write\<close> returns whether more can be written before the next \<open>drain\<close>.\<close>

definition socket_accepted :: "bool \<Rightarrow> pipelined_writer \<Rightarrow> pipelined_writer" where
  "socket_accepted ready w = w\<lparr>canWrite := ready\<rparr>"

text \<open>The callback without an error: the resolvers to resolve, and whether \<open>process\<close> runs again.\<close>

definition on_written :: "item list \<Rightarrow> pipelined_writer \<Rightarrow> nat list \<times> bool \<times> pipelined_writer" where
  "on_written writeBatch w =
     (if queue w = [] \<or> \<not> canWrite w then (map resolver writeBatch, False, w\<lparr>scheduled := False\<rparr>)
      else (map resolver writeBatch, True, w))"

text \<open>The callback with an error: the resolvers to reject.\<close>

definition handleError :: "item list \<Rightarrow> pipelined_writer \<Rightarrow> nat list \<times> pipelined_writer" where
  "handleError sentResolvers w =
     (map resolver sentResolvers @ map resolver (queue w), writer_close (w\<lparr>werror := True\<rparr>))"

definition buf_bytes :: "pipelined_writer \<Rightarrow> out_buf \<Rightarrow> byte list" where
  "buf_bytes w ob = (case ob of Own b \<Rightarrow> b | View n \<Rightarrow> js_slice (coalesceBuf w) 0 n)"

subsection \<open>The writer among the events of the runtime\<close>

record writer_sys =
  wr :: pipelined_writer
  ticks :: nat
  flight :: "(out_buf \<times> item list) list"
  rejects :: "nat list"
  wire :: "byte list"
  settled :: "(nat \<times> bool) list"
  accepted :: "item list"
  refused :: "nat list"
  sent :: "item list"

definition tick_if :: "bool \<Rightarrow> nat" where "tick_if b = (if b then 1 else 0)"

text \<open>A message the client sends: well formed, with at least one frame, all of them encodable.\<close>

definition sendable :: "client_message \<Rightarrow> bool" where
  "sendable m \<longleftrightarrow> message_wf m \<and> frames m \<noteq> [] \<and> list_all frame_ok (frames m)"

text \<open>
  \<open>junk\<close> is what a fresh buffer holds. \<open>accepted\<close> and \<open>sent\<close> record the messages queued and flushed
  so far, \<open>refused\<close> the resolvers of the writes after an error, \<open>wire\<close> the bytes flushed, \<open>settled\<close>
  the resolvers settled (\<open>True\<close>: resolved).
\<close>

inductive wstep :: "writer_sys \<Rightarrow> writer_sys \<Rightarrow> bool" where
  step_write: "sendable m \<Longrightarrow> writer_write m r (wr s) = Inr (Queued tick, w) \<Longrightarrow>
    wstep s (s\<lparr>wr := w, ticks := ticks s + tick_if tick,
               accepted := accepted s @ [\<lparr>imsg = m, resolver = r\<rparr>]\<rparr>)"
| step_write_error: "writer_write m r (wr s) = Inr (RejectLater r, w) \<Longrightarrow>
    wstep s (s\<lparr>wr := w, rejects := rejects s @ [r], refused := refused s @ [r]\<rparr>)"
| step_reject: "rejects s = r # rs \<Longrightarrow>
    wstep s (s\<lparr>rejects := rs, settled := settled s @ [(r, False)]\<rparr>)"
| step_process_idle: "0 < ticks s \<Longrightarrow> process_batch junk (wr s) = Inr (None, w) \<Longrightarrow>
    wstep s (s\<lparr>wr := w, ticks := ticks s - 1\<rparr>)"
| step_process: "0 < ticks s \<Longrightarrow> process_batch junk (wr s) = Inr (Some (ob, batch), w) \<Longrightarrow>
    wstep s (s\<lparr>wr := socket_accepted ready w, ticks := ticks s - 1, flight := flight s @ [(ob, batch)]\<rparr>)"
| step_written: "flight s = (ob, batch) # fl \<Longrightarrow> on_written batch (wr s) = (rs, again, w) \<Longrightarrow>
    wstep s (s\<lparr>wr := w, flight := fl, wire := wire s @ buf_bytes (wr s) ob, sent := sent s @ batch,
               settled := settled s @ map (\<lambda>r. (r, True)) rs, ticks := ticks s + tick_if again\<rparr>)"
| step_error: "flight s = (ob, batch) # fl \<Longrightarrow> handleError batch (wr s) = (rs, w) \<Longrightarrow>
    wstep s (s\<lparr>wr := w, flight := fl, settled := settled s @ map (\<lambda>r. (r, False)) rs\<rparr>)"
| step_drain: "on_drain (wr s) = (tick, w) \<Longrightarrow>
    wstep s (s\<lparr>wr := w, ticks := ticks s + tick_if tick\<rparr>)"
| step_close: "wstep s (s\<lparr>wr := writer_close (wr s)\<rparr>)"

inductive_cases wstep_cases: "wstep s s'"

definition new_sys :: "pipelined_writer \<Rightarrow> writer_sys" where
  "new_sys w = \<lparr>wr = w, ticks = 0, flight = [], rejects = [], wire = [], settled = [],
     accepted = [], refused = [], sent = []\<rparr>"

subsection \<open>One batch\<close>

definition item_ok :: "item \<Rightarrow> bool" where "item_ok it \<longleftrightarrow> sendable (imsg it)"

text \<open>What identifies an item: the frames of its message and its resolver.\<close>

definition item_key :: "item \<Rightarrow> frame list \<times> nat" where
  "item_key it = (frames (imsg it), resolver it)"

definition enc_items :: "item list \<Rightarrow> byte list" where
  "enc_items its = concat (map (\<lambda>it. enc_frames (frames (imsg it))) its)"

lemma enc_items_simps [simp]:
  "enc_items [] = []" "enc_items (it # its) = enc_frames (frames (imsg it)) @ enc_items its"
  "enc_items (xs @ ys) = enc_items xs @ enc_items ys"
  by (simp_all add: enc_items_def)

lemma getTotalLength_item:
  assumes "sendable m" and "getTotalLength m = (n, m')"
  shows "n = int (length (enc_frames (frames m)))" "frames m' = frames m" "sendable m'" "0 < n"
proof -
  show n: "n = int (length (enc_frames (frames m)))"
    using assms getTotalLength_eq [of m] by (simp add: sendable_def length_enc_frames)
  show fr: "frames m' = frames m"
    using assms(2) by (auto simp: getTotalLength_def Let_def split: option.splits)
  show "sendable m'"
    using assms fr getTotalLength_wf [of m] by (simp add: sendable_def)
  show "0 < n"
    using assms(1) n by (cases "frames m") (simp_all add: sendable_def enc_frames_Cons)
qed

text \<open>
  The batch is a prefix of the queue of the announced length, and it exceeds the threshold only if
  it is one message.
\<close>

lemma select_batch_spec:
  "select_batch th k t q = (n, batch, rest) \<Longrightarrow> list_all item_ok q \<Longrightarrow>
     map item_key (batch @ rest) = map item_key q \<and> list_all item_ok (batch @ rest) \<and>
     n = t + int (length (enc_items batch)) \<and> (0 < k \<longrightarrow> t \<le> th \<longrightarrow> n \<le> th)"
proof (induction th k t q arbitrary: n batch rest rule: select_batch.induct)
  case (2 th k t it q)
  obtain l m where lm: "getTotalLength (imsg it) = (l, m)" by fastforce
  let ?it = "it\<lparr>imsg := m\<rparr>"
  have it: "item_key ?it = item_key it" "item_ok ?it" "item_ok it" "l = int (length (enc_frames (frames (imsg it))))"
    "frames m = frames (imsg it)"
    using getTotalLength_item [OF _ lm] "2.prems"(2) by (simp_all add: item_key_def item_ok_def)
  show ?case
  proof (cases "t < th \<and> \<not> (0 < k \<and> t + l > th)")
    case True
    obtain n' b' r' where rec: "select_batch th (Suc k) (t + l) q = (n', b', r')"
      using prod_cases3 by blast
    have "map item_key (b' @ r') = map item_key q \<and> list_all item_ok (b' @ r') \<and>
        n' = t + l + int (length (enc_items b')) \<and> (t + l \<le> th \<longrightarrow> n' \<le> th)"
      using "2.IH" [OF _ lm [symmetric] refl _ rec] True "2.prems"(2) by auto
    moreover have "n = n'" "batch = ?it # b'" "rest = r'"
      using "2.prems"(1) True rec lm by (auto simp: Let_def)
    ultimately show ?thesis using True it by auto
  next
    case False
    then have "n = t" "batch = []" "rest = ?it # q \<or> rest = it # q"
      using "2.prems"(1) lm by (auto simp: Let_def split: if_splits)
    then show ?thesis using it "2.prems"(2) by auto
  qed
qed auto

lemma select_batch_stop: "th \<le> t \<Longrightarrow> select_batch th k t q = (t, [], q)"
  by (cases q) simp_all

lemma select_batch_first:
  assumes "select_batch th 0 0 q = (n, batch, rest)" and "list_all item_ok q" and "0 < th" and "q \<noteq> []"
  shows "n \<le> th \<or> length batch = 1" and "batch \<noteq> []" and "0 < n"
proof -
  obtain it q' where q: "q = it # q'" using assms(4) by (cases q) auto
  obtain l m where lm: "getTotalLength (imsg it) = (l, m)" by fastforce
  have l: "0 < l" using getTotalLength_item(4) [OF _ lm] assms(2) q by (simp add: item_ok_def)
  obtain n' b' r' where rec: "select_batch th 1 l q' = (n', b', r')" using prod_cases3 by blast
  have spec: "n' = l + int (length (enc_items b')) \<and> (l \<le> th \<longrightarrow> n' \<le> th)"
    using select_batch_spec [OF rec] assms(2) q by auto
  have b: "batch = it\<lparr>imsg := m\<rparr> # b'" "n = n'"
    using assms(1,3) rec lm by (auto simp: q Let_def)
  show "batch \<noteq> []" "0 < n" using b spec l by auto
  show "n \<le> th \<or> length batch = 1"
    using spec b select_batch_stop [of th l 1 q'] rec by (cases "l \<le> th") auto
qed

lemma coalesce_eq:
  "list_all item_ok its \<Longrightarrow> length old = length (enc_items its) \<Longrightarrow> int (length a) = p \<Longrightarrow>
     coalesce its (a @ old @ c) p = Inr (a @ enc_items its @ c, p + int (length old))"
proof (induction its arbitrary: a old p)
  case (Cons it its)
  let ?e = "enc_frames (frames (imsg it))"
  obtain o1 o2 where o: "old = o1 @ o2" "length o1 = length ?e"
    by (rule split_run [of "length ?e" old]) (use Cons.prems in auto)
  have "writeTo (imsg it) (a @ o1 @ (o2 @ c)) p = Inr (a @ ?e @ (o2 @ c), p + int (length o1))"
    unfolding writeTo_def using Cons.prems o
    by (intro write_frames_eq) (simp_all add: item_ok_def sendable_def)
  moreover have "coalesce its ((a @ ?e) @ o2 @ c) (p + int (length o1)) =
      Inr ((a @ ?e) @ enc_items its @ c, p + int (length o1) + int (length o2))"
    using Cons.prems o by (intro Cons.IH) simp_all
  ultimately show ?case using o by simp
qed simp

text \<open>\<open>process\<close> never raises, and what it hands to the socket is the encoding of its batch.\<close>

lemma process_batch_spec:
  assumes "list_all item_ok (queue w)" and "length (coalesceBuf w) = nat (threshold w)"
    and "0 < threshold w" and "\<not> werror w" and "queue w \<noteq> []"
  shows "\<exists>ob batch w'. process_batch junk w = Inr (Some (ob, batch), w') \<and> batch \<noteq> [] \<and>
    list_all item_ok (batch @ queue w') \<and> map item_key (batch @ queue w') = map item_key (queue w) \<and>
    buf_bytes w' ob = enc_items batch \<and> length (coalesceBuf w') = length (coalesceBuf w) \<and>
    w' = w\<lparr>queue := queue w', coalesceBuf := coalesceBuf w'\<rparr>"
proof -
  obtain n batch rest where sel: "select_batch (threshold w) 0 0 (queue w) = (n, batch, rest)"
    using prod_cases3 by blast
  have b: "map item_key (batch @ rest) = map item_key (queue w)" "list_all item_ok (batch @ rest)"
    and n: "n = int (length (enc_items batch))"
    using select_batch_spec [OF sel assms(1)] by auto
  note f = select_batch_first [OF sel assms(1,3,5)]
  show ?thesis
  proof (cases "length batch = 1 \<and> n > threshold w")
    case True
    then obtain it where it: "batch = [it]" by (auto simp: length_Suc_conv)
    have "message_wf (imsg it)" "list_all frame_ok (frames (imsg it))"
      using b(2) it by (simp_all add: item_ok_def sendable_def)
    then obtain m where "toBuffer_message junk (imsg it) = Inr (enc_frames (frames (imsg it)), m)"
      using toBuffer_ok by blast
    then show ?thesis using sel b f True it assms(4)
      by (simp add: process_batch_def buf_bytes_def Let_def)
  next
    case False
    then have le: "n \<le> threshold w" using f(1) by linarith
    obtain old c where oc: "coalesceBuf w = old @ c" "length old = nat n"
      by (rule split_run [of "nat n" "coalesceBuf w"]) (use le assms(2) in auto)
    have co: "coalesce batch (coalesceBuf w) 0 = Inr (enc_items batch @ c, n)"
      using coalesce_eq [of batch old "[]" 0 c] b(2) n oc f(3) by simp
    have "js_slice (enc_items batch @ c) 0 n = enc_items batch"
      using n by (simp add: js_slice_upto)
    then show ?thesis using sel b f False co oc n assms(4)
      by (auto simp: process_batch_def buf_bytes_def Let_def)
  qed
qed

subsection \<open>Invariants of the writer\<close>

text \<open>
  While there is no error, the writer is scheduled exactly if either one run of \<open>process\<close> is pending
  or one write is in flight; and queued messages wait for one of them or for the \<open>drain\<close> event.
\<close>

definition control_inv :: "writer_sys \<Rightarrow> bool" where
  "control_inv s \<longleftrightarrow>
     (let w = wr s in
      0 < threshold w \<and> length (coalesceBuf w) = nat (threshold w) \<and> list_all item_ok (queue w) \<and>
      (frozen w \<longrightarrow> queue w = []) \<and>
      (werror w \<longrightarrow> frozen w \<and> scheduled w \<and> ticks s = 0 \<and> flight s = []) \<and>
      (\<not> werror w \<longrightarrow> ticks s + length (flight s) = tick_if (scheduled w)) \<and>
      (queue w \<noteq> [] \<longrightarrow> scheduled w \<or> \<not> canWrite w))"

definition sys_keys :: "writer_sys \<Rightarrow> (frame list \<times> nat) list" where
  "sys_keys s = map item_key (sent s @ concat (map snd (flight s)) @ queue (wr s))"

definition data_inv :: "writer_sys \<Rightarrow> bool" where
  "data_inv s \<longleftrightarrow>
     wire s = enc_items (sent s) \<and>
     list_all (\<lambda>(ob, batch). buf_bytes (wr s) ob = enc_items batch) (flight s) \<and>
     (if frozen (wr s) then prefix (sys_keys s) (map item_key (accepted s))
      else sys_keys s = map item_key (accepted s))"

definition settle_inv :: "writer_sys \<Rightarrow> bool" where
  "settle_inv s \<longleftrightarrow>
     map fst (filter snd (settled s)) = map resolver (sent s) \<and>
     mset (map fst (settled s)) + mset (rejects s) + mset (map resolver (concat (map snd (flight s)))) +
       mset (map resolver (queue (wr s))) \<subseteq># mset (map resolver (accepted s)) + mset (refused s)"

lemma tick_if_simps [simp]: "tick_if True = 1" "tick_if False = 0"
  by (simp_all add: tick_if_def)

lemma tick_if_le: "tick_if b \<le> 1" by (simp add: tick_if_def)

lemma control_tick:
  assumes "control_inv s" and "0 < ticks s"
  shows "\<not> werror (wr s)" "flight s = []" "scheduled (wr s)" "ticks s = 1"
proof -
  show e: "\<not> werror (wr s)" using assms by (auto simp: control_inv_def Let_def)
  then have "ticks s + length (flight s) = tick_if (scheduled (wr s))"
    using assms(1) by (simp add: control_inv_def Let_def)
  then show "scheduled (wr s)" "flight s = []" "ticks s = 1"
    using assms(2) by (cases "flight s"; simp add: tick_if_def split: if_splits)+
qed

lemma control_flight:
  assumes "control_inv s" and "flight s = x # fl"
  shows "\<not> werror (wr s)" "fl = []" "scheduled (wr s)" "ticks s = 0"
  using assms tick_if_le [of "scheduled (wr s)"]
  by (cases "scheduled (wr s)"; cases "werror (wr s)"; auto simp: control_inv_def Let_def)+

lemma control_queue:
  assumes "control_inv s"
  shows "list_all item_ok (queue (wr s))" "length (coalesceBuf (wr s)) = nat (threshold (wr s))"
    "0 < threshold (wr s)" "frozen (wr s) \<Longrightarrow> queue (wr s) = []"
  using assms by (simp_all add: control_inv_def Let_def)

lemma process_none:
  assumes "control_inv s" and "0 < ticks s" and "process_batch junk (wr s) = Inr (None, w)"
  shows "queue (wr s) = []" "w = (wr s)\<lparr>queue := [], scheduled := False\<rparr>"
proof -
  note t = control_tick [OF assms(1,2)]
  show q: "queue (wr s) = []"
  proof (rule ccontr)
    assume "queue (wr s) \<noteq> []"
    then obtain x w' where "process_batch junk (wr s) = Inr (Some x, w')"
      using process_batch_spec [OF control_queue(1-3) [OF assms(1)] t(1), of junk] by blast
    then show False using assms(3) by simp
  qed
  show "w = (wr s)\<lparr>queue := [], scheduled := False\<rparr>"
    using assms(3) t q by (simp add: process_batch_def)
qed

lemma process_some:
  assumes "control_inv s" and "0 < ticks s" and "process_batch junk (wr s) = Inr (Some (ob, batch), w)"
  shows "list_all item_ok (batch @ queue w) \<and> map item_key (batch @ queue w) = map item_key (queue (wr s)) \<and>
    buf_bytes w ob = enc_items batch \<and> length (coalesceBuf w) = length (coalesceBuf (wr s)) \<and>
    w = (wr s)\<lparr>queue := queue w, coalesceBuf := coalesceBuf w\<rparr>" and "\<not> frozen (wr s)"
proof -
  note t = control_tick [OF assms(1,2)]
  have q: "queue (wr s) \<noteq> []"
    using assms(3) t(1) by (auto simp: process_batch_def)
  then show "\<not> frozen (wr s)" using control_queue(4) [OF assms(1)] by blast
  obtain ob' batch' w' where p: "process_batch junk (wr s) = Inr (Some (ob', batch'), w')"
    "list_all item_ok (batch' @ queue w') \<and> map item_key (batch' @ queue w') = map item_key (queue (wr s)) \<and>
    buf_bytes w' ob' = enc_items batch' \<and> length (coalesceBuf w') = length (coalesceBuf (wr s)) \<and>
    w' = (wr s)\<lparr>queue := queue w', coalesceBuf := coalesceBuf w'\<rparr>"
    using process_batch_spec [OF control_queue(1-3) [OF assms(1)] t(1) q, of junk] by blast
  have eq: "ob' = ob" "batch' = batch" "w' = w" using assms(3) p(1) by simp_all
  show "list_all item_ok (batch @ queue w) \<and> map item_key (batch @ queue w) = map item_key (queue (wr s)) \<and>
    buf_bytes w ob = enc_items batch \<and> length (coalesceBuf w) = length (coalesceBuf (wr s)) \<and>
    w = (wr s)\<lparr>queue := queue w, coalesceBuf := coalesceBuf w\<rparr>"
    using p(2) unfolding eq .
qed

lemma control_step: "wstep s s' \<Longrightarrow> control_inv s \<Longrightarrow> control_inv s'"
proof (induction rule: wstep.induct)
  case (step_write m r s tick w)
  then show ?case
    by (auto simp: writer_write_def schedule_def control_inv_def item_ok_def Let_def
        split: if_splits prod.splits)
next
  case (step_write_error m r s w)
  then show ?case
    by (auto simp: writer_write_def control_inv_def Let_def split: if_splits prod.splits)
next
  case (step_process_idle s junk w)
  note t = control_tick [OF step_process_idle(3,1)]
  show ?case
    using process_none [OF step_process_idle(3,1,2)] step_process_idle(3) t
    by (simp add: control_inv_def Let_def)
next
  case (step_process s junk ob batch w ready)
  note t = control_tick [OF step_process(3,1)]
  note p = process_some [OF step_process(3,1,2)]
  obtain q b where w: "w = (wr s)\<lparr>queue := q, coalesceBuf := b\<rparr>" using p(1) by blast
  show ?case
    using p t step_process(3) by (simp add: control_inv_def socket_accepted_def w Let_def)
next
  case (step_written s ob batch fl rs again w)
  note f = control_flight [OF step_written(3,1)]
  show ?case
    using step_written f by (auto simp: on_written_def control_inv_def Let_def split: if_splits)
next
  case (step_error s ob batch fl rs w)
  note f = control_flight [OF step_error(3,1)]
  show ?case
    using step_error f by (auto simp: handleError_def writer_close_def control_inv_def Let_def)
next
  case (step_drain s tick w)
  then show ?case
    by (auto simp: on_drain_def schedule_def control_inv_def Let_def split: if_splits)
qed (auto simp: control_inv_def writer_close_def Let_def)

lemma write_queued:
  "writer_write m r w = Inr (Queued t, w') \<Longrightarrow>
     queue w' = queue w @ [\<lparr>imsg = m, resolver = r\<rparr>] \<and> coalesceBuf w' = coalesceBuf w \<and>
     \<not> frozen w \<and> \<not> frozen w'"
  by (auto simp: writer_write_def schedule_def split: if_splits)

lemma buf_bytes_upd [simp]:
  "buf_bytes (w\<lparr>queue := q\<rparr>) ob = buf_bytes w ob" "buf_bytes (w\<lparr>frozen := b\<rparr>) ob = buf_bytes w ob"
  "buf_bytes (w\<lparr>werror := b\<rparr>) ob = buf_bytes w ob" "buf_bytes (w\<lparr>scheduled := b\<rparr>) ob = buf_bytes w ob"
  "buf_bytes (w\<lparr>canWrite := b\<rparr>) ob = buf_bytes w ob"
  by (simp_all add: buf_bytes_def split: out_buf.split)

lemma buf_bytes_cong: "coalesceBuf w = coalesceBuf w' \<Longrightarrow> buf_bytes w ob = buf_bytes w' ob"
  by (simp add: buf_bytes_def split: out_buf.split)

lemma data_step: "wstep s s' \<Longrightarrow> control_inv s \<Longrightarrow> data_inv s \<Longrightarrow> data_inv s'"
proof (induction rule: wstep.induct)
  case (step_write m r s tick w)
  then show ?case using write_queued [OF step_write(2)] buf_bytes_cong [of w "wr s"]
    by (simp add: data_inv_def sys_keys_def)
next
  case (step_write_error m r s w)
  then show ?case
    by (auto simp: writer_write_def data_inv_def sys_keys_def split: if_splits prod.splits)
next
  case (step_process_idle s junk w)
  then show ?case
    using process_none [OF step_process_idle(3,1,2)] control_tick [OF step_process_idle(3,1)]
    by (auto simp: data_inv_def sys_keys_def split: if_splits)
next
  case (step_process s junk ob batch w ready)
  note t = control_tick [OF step_process(3,1)]
  note p = process_some [OF step_process(3,1,2)]
  obtain q b where w: "w = (wr s)\<lparr>queue := q, coalesceBuf := b\<rparr>" using p(1) by blast
  show ?case
    using p t step_process(4)
    by (simp add: data_inv_def sys_keys_def socket_accepted_def buf_bytes_def w split: out_buf.splits)
next
  case (step_written s ob batch fl rs again w)
  note f = control_flight [OF step_written(3,1)]
  show ?case
    using step_written f
    by (auto simp: on_written_def data_inv_def sys_keys_def split: if_splits)
next
  case (step_error s ob batch fl rs w)
  note f = control_flight [OF step_error(3,1)]
  show ?case
    using step_error f
    by (auto simp: handleError_def writer_close_def data_inv_def sys_keys_def prefix_def split: if_splits)
      metis
next
  case (step_drain s tick w)
  then show ?case
    by (auto simp: on_drain_def schedule_def data_inv_def sys_keys_def split: if_splits)
next
  case (step_close s)
  then show ?case
    by (auto simp: writer_close_def data_inv_def sys_keys_def prefix_def split: if_splits)
      (metis append_assoc)
qed (auto simp: data_inv_def sys_keys_def split: if_splits)

lemma settle_step: "wstep s s' \<Longrightarrow> control_inv s \<Longrightarrow> settle_inv s \<Longrightarrow> settle_inv s'"
proof (induction rule: wstep.induct)
  case (step_write m r s tick w)
  then show ?case using write_queued [OF step_write(2)] by (simp add: settle_inv_def ac_simps)
next
  case (step_write_error m r s w)
  then show ?case
    by (auto simp: writer_write_def settle_inv_def ac_simps split: if_splits prod.splits)
next
  case (step_process_idle s junk w)
  then show ?case
    using process_none [OF step_process_idle(3,1,2)] by (simp add: settle_inv_def)
next
  case (step_process s junk ob batch w ready)
  note p = process_some [OF step_process(3,1,2)]
  have "map snd (map item_key (batch @ queue w)) = map snd (map item_key (queue (wr s)))"
    using p(1) by simp
  then have r: "map resolver (queue (wr s)) = map resolver batch @ map resolver (queue w)"
    by (simp add: item_key_def comp_def)
  show ?case
    using step_process(4) r
    by (simp add: settle_inv_def socket_accepted_def ac_simps)
next
  case (step_written s ob batch fl rs again w)
  note f = control_flight [OF step_written(3,1)]
  show ?case
    using step_written f
    by (auto simp: on_written_def settle_inv_def comp_def ac_simps split: if_splits)
next
  case (step_error s ob batch fl rs w)
  note f = control_flight [OF step_error(3,1)]
  show ?case
    using step_error f
    by (auto simp: handleError_def writer_close_def settle_inv_def comp_def ac_simps)
next
  case (step_drain s tick w)
  then show ?case
    by (auto simp: on_drain_def schedule_def settle_inv_def split: if_splits)
next
  case (step_close s)
  then show ?case
    by (auto simp: writer_close_def settle_inv_def intro: subset_mset.order_trans [rotated])
qed (simp add: settle_inv_def)

subsection \<open>Every run of the writer\<close>

definition wreach :: "int \<Rightarrow> writer_sys \<Rightarrow> bool" where
  "wreach th s \<longleftrightarrow> 0 < th \<and> (\<exists>junk w. new_writer junk th = Inr w \<and> wstep\<^sup>*\<^sup>* (new_sys w) s)"

lemma wreach_step: "wreach th s \<Longrightarrow> wstep s s' \<Longrightarrow> wreach th s'"
  by (auto simp: wreach_def intro: rtranclp.rtrancl_into_rtrancl)

lemma wreach_inv:
  assumes "wreach th s"
  shows "control_inv s" "data_inv s" "settle_inv s"
proof -
  obtain junk w where th: "0 < th" and w: "new_writer junk th = Inr w" and run: "wstep\<^sup>*\<^sup>* (new_sys w) s"
    using assms by (auto simp: wreach_def)
  have init: "control_inv (new_sys w)" "data_inv (new_sys w)" "settle_inv (new_sys w)"
    using th w by (auto simp: new_writer_def allocUnsafe_def new_sys_def control_inv_def data_inv_def
        settle_inv_def sys_keys_def)
  from run have "control_inv s \<and> data_inv s \<and> settle_inv s"
    by (induction rule: rtranclp_induct) (auto intro: init control_step data_step settle_step)
  then show "control_inv s" "data_inv s" "settle_inv s" by auto
qed

text \<open>A run that sends one message.\<close>

definition sample_msg :: client_message where
  "sample_msg = createForDecode \<lparr>content = [1, 2], flags = 0\<rparr>"

lemma sample_sendable: "sendable sample_msg"
  unfolding sample_msg_def sendable_def
  by (intro conjI new_wf(2)) (simp_all add: createForDecode_def newMessage_def frame_ok_def in_uint_def)

definition sample_item :: item where "sample_item = \<lparr>imsg = sample_msg, resolver = 0\<rparr>"

definition sample_writer :: pipelined_writer where
  "sample_writer = \<lparr>queue = [], frozen = False, werror = False, scheduled = False, canWrite = True,
     coalesceBuf = replicate 100 0, threshold = 100\<rparr>"

definition sample_queued :: writer_sys where
  "sample_queued = (new_sys sample_writer)\<lparr>wr := sample_writer\<lparr>queue := [sample_item], scheduled := True\<rparr>,
     ticks := 1, accepted := [sample_item]\<rparr>"

lemma sample_queued_reach: "wreach 100 sample_queued"
proof -
  have w: "new_writer (\<lambda>_. 0) 100 = Inr sample_writer"
    by (simp add: new_writer_def allocUnsafe_def sample_writer_def map_replicate_const)
  then have "wreach 100 (new_sys sample_writer)" unfolding wreach_def by auto
  moreover have "wstep (new_sys sample_writer) sample_queued"
  proof -
    have "writer_write sample_msg 0 (wr (new_sys sample_writer)) =
        Inr (Queued True, sample_writer\<lparr>queue := [sample_item], scheduled := True\<rparr>)"
      by (simp add: writer_write_def schedule_def new_sys_def sample_writer_def sample_item_def)
    from wstep.step_write [OF sample_sendable this] show ?thesis
      by (simp add: sample_queued_def new_sys_def sample_item_def)
  qed
  ultimately show ?thesis by (rule wreach_step)
qed

lemma sample_sent_reach: "\<exists>s. wreach 100 s \<and> map item_key (sent s) = [item_key sample_item]"
proof -
  let ?s = sample_queued
  note r = sample_queued_reach
  have s: "ticks ?s > 0" "\<not> werror (wr ?s)" "queue (wr ?s) \<noteq> []" "queue (wr ?s) = [sample_item]"
    by (simp_all add: sample_queued_def sample_writer_def)
  obtain ob batch w where p: "process_batch (\<lambda>_. 0) (wr ?s) = Inr (Some (ob, batch), w)"
    "map item_key (batch @ queue w) = map item_key (queue (wr ?s))" "batch \<noteq> []"
    using process_batch_spec [OF control_queue(1-3) [OF wreach_inv(1) [OF r]] s(2,3), of "\<lambda>_. 0"] by blast
  have b: "map item_key batch = [item_key sample_item]" using p(2,3) s(4) by (cases batch) auto
  define s2 where "s2 = ?s\<lparr>wr := socket_accepted True w, ticks := ticks ?s - 1,
    flight := flight ?s @ [(ob, batch)]\<rparr>"
  have r2: "wreach 100 s2"
    unfolding s2_def using r wstep.step_process [OF s(1) p(1)] by (rule wreach_step)
  have f2: "flight s2 = [(ob, batch)]" "sent s2 = []"
    by (simp_all add: s2_def sample_queued_def new_sys_def)
  obtain rs again w' where o: "on_written batch (wr s2) = (rs, again, w')" using prod_cases3 by blast
  show ?thesis
    using wreach_step [OF r2 wstep.step_written [OF f2(1) o]] b f2(2) by (intro exI conjI) auto
qed

text \<open>
  C10. What the pipelined writer puts on the socket. In every interleaving of writes, runs of
  \<open>process\<close>, socket callbacks, drain events, errors and a close, the bytes flushed so far are exactly
  the wire format of the messages sent so far, and these are a prefix, in order, of the messages
  accepted: nothing is lost, duplicated, reordered or torn by the batching.
\<close>

theorem writer_wire:
  assumes "wreach th s"
  shows "wire s = enc_items (sent s) \<and> prefix (map item_key (sent s)) (map item_key (accepted s))"
  using wreach_inv(2) [OF assms]
  by (auto simp: data_inv_def sys_keys_def prefix_def split: if_splits) (metis append_assoc)+

theorem writer_wire_witness:
  "\<exists>s. wreach 100 s \<and> map item_key (sent s) = [item_key sample_item] \<and>
     (wire s = enc_items (sent s) \<and> prefix (map item_key (sent s)) (map item_key (accepted s)))"
proof -
  from sample_sent_reach obtain s where
    s: "wreach 100 s \<and> map item_key (sent s) = [item_key sample_item]" ..
  have "wreach 100 s" using s ..
  then have "wire s = enc_items (sent s) \<and> prefix (map item_key (sent s)) (map item_key (accepted s))"
    by (rule writer_wire)
  with s show ?thesis by (intro exI [of _ s]) (elim conjE, intro conjI)
qed

text \<open>
  C17. The reused buffer and the schedule. In every reachable state at most one write is in
  flight and the bytes of its buffer are still those of its batch, so the coalescing buffer is
  never overwritten under the socket; and as long as there is no error and the socket accepts
  data, a non-empty queue has exactly one pending run of \<open>process\<close> or write in flight to continue
  it: no wake-up is lost.
\<close>

theorem writer_one_in_flight:
  assumes "wreach th s"
  shows "length (flight s) \<le> 1 \<and>
    list_all (\<lambda>(ob, batch). buf_bytes (wr s) ob = enc_items batch) (flight s) \<and>
    (queue (wr s) \<noteq> [] \<and> canWrite (wr s) \<longrightarrow> ticks s + length (flight s) = 1)"
proof -
  note c = wreach_inv(1) [OF assms]
  have "length (flight s) \<le> 1"
    using control_flight(2) [OF c] by (cases "flight s") auto
  moreover have "ticks s + length (flight s) = 1" if q: "queue (wr s) \<noteq> []" "canWrite (wr s)"
  proof -
    have "\<not> werror (wr s)" "scheduled (wr s)"
      using c q by (auto simp: control_inv_def Let_def)
    then show ?thesis using c by (simp add: control_inv_def Let_def)
  qed
  ultimately show ?thesis using wreach_inv(2) [OF assms] by (simp add: data_inv_def)
qed

theorem writer_one_in_flight_witness:
  "queue (wr sample_queued) \<noteq> [] \<and> canWrite (wr sample_queued) \<and>
     ticks sample_queued + length (flight sample_queued) = 1"
  using writer_one_in_flight [OF sample_queued_reach]
  by (simp add: sample_queued_def sample_writer_def)

lemma distinct_mset_sub:
  assumes "mset xs \<subseteq># mset ys" and "distinct ys"
  shows "distinct xs"
  unfolding distinct_count_atmost_1
proof
  fix a
  have "count (mset xs) a \<le> count (mset ys) a" using assms(1) by (rule mset_subset_eq_count)
  moreover have "count (mset ys) a \<le> 1" using assms(2) by (simp add: distinct_count_atmost_1)
  moreover have "a \<in> set xs \<longleftrightarrow> 0 < count (mset xs) a" by (simp add: count_greater_zero_iff)
  ultimately show "count (mset xs) a = (if a \<in> set xs then 1 else 0)"
    by (cases "count (mset xs) a") auto
qed
text \<open>
  C18. Settling. If every call of \<open>write\<close> passes its own resolver, no resolver is settled twice, and
  the resolvers resolved are exactly those of the messages flushed, in order.
\<close>

theorem writer_settles_once:
  assumes "wreach th s" and "distinct (map resolver (accepted s) @ refused s)"
  shows "distinct (map fst (settled s)) \<and> map fst (filter snd (settled s)) = map resolver (sent s)"
proof -
  note i = wreach_inv(3) [OF assms(1), unfolded settle_inv_def]
  have "mset (map fst (settled s)) \<subseteq># mset (map resolver (accepted s) @ refused s)"
    using conjunct2 [OF i] unfolding mset_append add.assoc
    by (rule subset_mset.order_trans [OF mset_subset_eq_add_left])
  then have "distinct (map fst (settled s))"
    using assms(2) by (rule distinct_mset_sub)
  then show ?thesis using i by blast
qed

theorem writer_settles_once_witness:
  "\<exists>s. wreach 100 s \<and> accepted s \<noteq> [] \<and> distinct (map fst (settled s)) \<and>
     map fst (filter snd (settled s)) = map resolver (sent s)"
proof -
  have "distinct (map resolver (accepted sample_queued) @ refused sample_queued)"
    by (simp add: sample_queued_def new_sys_def)
  moreover have "accepted sample_queued \<noteq> []" by (simp add: sample_queued_def)
  ultimately show ?thesis
    using writer_settles_once [OF sample_queued_reach] sample_queued_reach by blast
qed


subsection \<open>DirectWriter\<close>

text \<open>
  Without pipelining a message is written at once; the callback of the socket settles its
  resolver. \<open>close\<close> does nothing.
\<close>

definition direct_write :: "(nat \<Rightarrow> byte) \<Rightarrow> client_message \<Rightarrow> buffer res" where
  "direct_write junk message = bindR (toBuffer_message junk message) (\<lambda>(b, m). Inr b)"

definition direct_written :: "bool \<Rightarrow> nat \<Rightarrow> nat \<times> bool" where
  "direct_written err r = (if err then (r, False) else (r, True))"

lemma direct_write_wire: "sendable m \<Longrightarrow> direct_write junk m = Inr (enc_frames (frames m))"
  using toBuffer_ok [of m junk] by (auto simp: direct_write_def sendable_def)

end
