(* ===== verification/Connection.thy ===== *)
theory Connection
  imports FragmentedClientMessageHandler PipelinedWriter
begin

section \<open>Connection (class Connection of src/src/network/Connection.ts)\<close>

text \<open>
  The receiving side of a connection: every \<open>data\<close> event of the socket appends a chunk to the reader
  and hands the messages that are complete to the callback, fragmented ones after reassembly. The
  value \<open>None\<close> of the loop is a loop that does not return. Times are those of \<open>Date.now()\<close>.
\<close>

record conn =
  connectionId :: nat
  remoteUuid :: "uuid option"
  creader :: reader
  fragments :: frag_map
  lastReadTimeMillis :: int
  lastWriteTimeMillis :: "int option"
  startTime :: int
  closedTime :: int
  closedReason :: "string option"

definition newConnection :: "nat \<Rightarrow> int \<Rightarrow> conn" where
  "newConnection cid now = \<lparr>connectionId = cid, remoteUuid = None, creader = new_reader, fragments = (\<lambda>_. None),
     lastReadTimeMillis = 0, lastWriteTimeMillis = None, startTime = now, closedTime = 0,
     closedReason = None\<rparr>"

definition setRemoteUuid :: "uuid \<Rightarrow> conn \<Rightarrow> conn" where
  "setRemoteUuid u c = c\<lparr>remoteUuid := Some u\<rparr>"

text \<open>The listener of the \<open>write\<close> event of the writer.\<close>

definition on_write_event :: "int \<Rightarrow> conn \<Rightarrow> conn" where
  "on_write_event now c = c\<lparr>lastWriteTimeMillis := Some now\<rparr>"

text \<open>
  \<open>close\<close>: the result says whether the writer and the socket are closed and the connection manager
  is told, which happens on the first call only.
\<close>

definition closeConnection :: "int \<Rightarrow> string option \<Rightarrow> conn \<Rightarrow> bool \<times> conn" where
  "closeConnection now reason c =
     (if closedTime c \<noteq> 0 then (False, c)
      else (True, c\<lparr>closedTime := now, closedReason := reason\<rparr>))"

definition isAlive :: "conn \<Rightarrow> bool" where
  "isAlive c \<longleftrightarrow> closedTime c = 0"

definition equalsConnection :: "conn \<Rightarrow> conn option \<Rightarrow> bool" where
  "equalsConnection c other =
     (case other of None \<Rightarrow> False | Some d \<Rightarrow> connectionId c = connectionId d)"

text \<open>What the data handler does with one complete message.\<close>

definition dispatch :: "(js_long \<Rightarrow> int) \<Rightarrow> client_message \<Rightarrow> frag_map \<Rightarrow>
    (client_message option \<times> frag_map) res" where
  "dispatch toNumber m fm =
     (case getStartFrame m of
        None \<Rightarrow> Inl TypeError
      | Some f \<Rightarrow>
          if hasUnfragmentedMessageFlag f then Inr (Some m, fm)
          else handleFragmentedMessage toNumber m fm)"

partial_function (option) data_loop :: "(js_long \<Rightarrow> int) \<Rightarrow> conn \<Rightarrow>
    (client_message list \<times> conn) res option" where
  "data_loop toNumber c =
     (case read (creader c) of
        None \<Rightarrow> None
      | Some (Inl e) \<Rightarrow> Some (Inl e)
      | Some (Inr (None, r)) \<Rightarrow> Some (Inr ([], c\<lparr>creader := r\<rparr>))
      | Some (Inr (Some m, r)) \<Rightarrow>
          (case dispatch toNumber m (fragments c) of
             Inl e \<Rightarrow> Some (Inl e)
           | Inr (out, fm) \<Rightarrow>
               Option.bind (data_loop toNumber (c\<lparr>creader := r, fragments := fm\<rparr>)) (\<lambda>res.
                 Some (bindR res (\<lambda>(outs, c').
                   Inr (case out of None \<Rightarrow> outs | Some m \<Rightarrow> m # outs, c'))))))"

definition on_data :: "(js_long \<Rightarrow> int) \<Rightarrow> int \<Rightarrow> buffer \<Rightarrow> conn \<Rightarrow> (client_message list \<times> conn) res option" where
  "on_data toNumber now b c =
     data_loop toNumber (c\<lparr>lastReadTimeMillis := now, creader := append_chunk b (creader c)\<rparr>)"

text \<open>A sequence of \<open>data\<close> events, with the messages the callback receives.\<close>

fun receive :: "(js_long \<Rightarrow> int) \<Rightarrow> int \<Rightarrow> buffer list \<Rightarrow> conn \<Rightarrow> (client_message list \<times> conn) res option" where
  "receive toNumber now [] c = Some (Inr ([], c))"
| "receive toNumber now (b # bs) c =
     (case on_data toNumber now b c of
        None \<Rightarrow> None
      | Some (Inl e) \<Rightarrow> Some (Inl e)
      | Some (Inr (outs, c)) \<Rightarrow>
          (case receive toNumber now bs c of
             None \<Rightarrow> None
           | Some (Inl e) \<Rightarrow> Some (Inl e)
           | Some (Inr (outs', c)) \<Rightarrow> Some (Inr (outs @ outs', c))))"

subsection \<open>Specification\<close>

definition spec_dispatch :: "(js_long \<Rightarrow> int) \<Rightarrow> frame list \<Rightarrow> assembly \<Rightarrow> frame list option \<times> assembly" where
  "spec_dispatch toNumber fs asm =
     (if hasUnfragmentedMessageFlag (hd fs) then (Some fs, asm)
      else spec_fragment (fragment_of toNumber fs) asm)"

fun spec_receive :: "(js_long \<Rightarrow> int) \<Rightarrow> frame list list \<Rightarrow> assembly \<Rightarrow> frame list list \<times> assembly" where
  "spec_receive toNumber [] asm = ([], asm)"
| "spec_receive toNumber (fs # fss) asm =
     (case spec_dispatch toNumber fs asm of (out, asm) \<Rightarrow>
        case spec_receive toNumber fss asm of (outs, asm) \<Rightarrow>
          ((case out of None \<Rightarrow> outs | Some fs \<Rightarrow> fs # outs), asm))"

text \<open>A message that is whole, or a fragment with a readable id and a body.\<close>

definition received_ok :: "frame list \<Rightarrow> bool" where
  "received_ok fs \<longleftrightarrow> hasUnfragmentedMessageFlag (hd fs) \<or> frag_ok fs"

lemma spec_receive_append:
  "spec_receive toNumber (xs @ ys) asm =
     (case spec_receive toNumber xs asm of (outs, asm) \<Rightarrow>
        case spec_receive toNumber ys asm of (outs', asm) \<Rightarrow> (outs @ outs', asm))"
  by (induction xs arbitrary: asm) (auto split: prod.split option.split)

lemma dispatch_refines:
  assumes "asm_rel fm asm" and "fresh_message fs m" and "received_ok fs"
  shows "\<exists>out fm'. dispatch toNumber m fm = Inr (out, fm') \<and>
    rel_option (\<lambda>m fs. fresh_message fs m) out (fst (spec_dispatch toNumber fs asm)) \<and>
    asm_rel fm' (snd (spec_dispatch toNumber fs asm))"
proof -
  have start: "getStartFrame m = Some (hd fs)"
    using assms(2) by (cases fs) (simp_all add: fresh_message_def getStartFrame_def)
  show ?thesis
  proof (cases "hasUnfragmentedMessageFlag (hd fs)")
    case True
    then show ?thesis using assms start by (simp add: dispatch_def spec_dispatch_def)
  next
    case False
    then show ?thesis
      using handle_refines [OF assms(1,2), of toNumber] assms(3) start
      by (simp add: dispatch_def spec_dispatch_def received_ok_def)
  qed
qed

lemma data_loop_spec:
  "parse_msgs p bs = (mss, p', bs') \<Longrightarrow> reader_inv (creader c) p bs \<Longrightarrow> well_framed bs \<Longrightarrow>
     list_all received_ok mss \<Longrightarrow> asm_rel (fragments c) asm \<Longrightarrow>
     \<exists>outs c'. data_loop toNumber c = Some (Inr (outs, c')) \<and>
       list_all2 fresh_message (fst (spec_receive toNumber mss asm)) outs \<and>
       reader_inv (creader c') p' bs' \<and> asm_rel (fragments c') (snd (spec_receive toNumber mss asm))"
proof (induction mss arbitrary: p bs c asm)
  case Nil
  obtain r' where "read (creader c) = Some (Inr (None, r'))" "reader_inv r' p' bs'"
    using read_null [OF Nil(1,2,3)] by blast
  then show ?case using Nil(5) by (subst data_loop.simps) simp
next
  case (Cons fs mss)
  obtain m r' bs1 where rd: "read (creader c) = Some (Inr (Some m, r'))" and m: "pending_ok fs (Some m)"
    and r': "reader_inv r' [] bs1" "well_framed bs1" "parse_msgs [] bs1 = (mss, p', bs')"
    using read_message [OF Cons.prems(1,2,3)] by blast
  let ?d = "spec_dispatch toNumber fs asm"
  obtain out fm where d: "dispatch toNumber m (fragments c) = Inr (out, fm)"
    and out: "rel_option (\<lambda>m fs. fresh_message fs m) out (fst ?d)" and fm: "asm_rel fm (snd ?d)"
    using dispatch_refines [OF Cons.prems(5) pending_fresh [OF m], of toNumber] Cons.prems(4) by auto
  let ?c = "c\<lparr>creader := r', fragments := fm\<rparr>"
  obtain outs c' where c': "data_loop toNumber ?c = Some (Inr (outs, c'))"
    "list_all2 fresh_message (fst (spec_receive toNumber mss (snd ?d))) outs" "reader_inv (creader c') p' bs'"
    "asm_rel (fragments c') (snd (spec_receive toNumber mss (snd ?d)))"
    using Cons.IH [OF r'(3), of ?c "snd ?d"] r' fm Cons.prems(4) by auto
  show ?case
    using rd d c' out
    by (cases ?d; cases "spec_receive toNumber mss (snd ?d)"; subst data_loop.simps)
      (auto simp: rel_option_iff split: option.splits)
qed

lemma receive_spec:
  "parse_msgs p (bs @ concat cs) = (mss, p', bs') \<Longrightarrow> parse_msgs p bs = ([], p, bs) \<Longrightarrow>
     reader_inv (creader c) p bs \<Longrightarrow> well_framed (bs @ concat cs) \<Longrightarrow> list_all received_ok mss \<Longrightarrow>
     asm_rel (fragments c) asm \<Longrightarrow>
     \<exists>outs c'. receive toNumber now cs c = Some (Inr (outs, c')) \<and>
       list_all2 fresh_message (fst (spec_receive toNumber mss asm)) outs \<and>
       reader_inv (creader c') p' bs' \<and> asm_rel (fragments c') (snd (spec_receive toNumber mss asm))"
proof (induction cs arbitrary: p bs c asm mss)
  case Nil
  then show ?case by auto
next
  case (Cons b cs)
  let ?c = "c\<lparr>lastReadTimeMillis := now, creader := append_chunk b (creader c)\<rparr>"
  obtain ms1 p1 bs1 where ps: "parse_msgs p (bs @ b) = (ms1, p1, bs1)" using prod_cases3 by blast
  obtain ms2 where ms2: "mss = ms1 @ ms2" "parse_msgs p1 (bs1 @ concat cs) = (ms2, p', bs')"
    using parse_append [OF ps, of "concat cs"] Cons.prems(1)
    by (cases "parse_msgs p1 (bs1 @ concat cs)") auto
  have stable: "parse_msgs p1 bs1 = ([], p1, bs1)"
    using parse_append [OF ps, of "[]"] ps by (cases "parse_msgs p1 bs1") auto
  have wf: "well_framed (bs @ b)" "well_framed (bs1 @ concat cs)"
    using Cons.prems(4) well_framed_prefix [of "bs @ b" "concat cs"] well_framed_rest [OF ps, of "concat cs"]
    by auto
  have "reader_inv (creader ?c) p (bs @ b)" using append_inv [OF Cons.prems(3)] by simp
  then obtain outs1 c1 where c1: "on_data toNumber now b c = Some (Inr (outs1, c1))"
    "list_all2 fresh_message (fst (spec_receive toNumber ms1 asm)) outs1" "reader_inv (creader c1) p1 bs1"
    "asm_rel (fragments c1) (snd (spec_receive toNumber ms1 asm))"
    using data_loop_spec [OF ps, of ?c asm toNumber] wf(1) Cons.prems(5,6) ms2(1)
    by (auto simp: on_data_def)
  obtain outs2 c2 where "receive toNumber now cs c1 = Some (Inr (outs2, c2))"
    "list_all2 fresh_message (fst (spec_receive toNumber ms2 (snd (spec_receive toNumber ms1 asm)))) outs2"
    "reader_inv (creader c2) p' bs'"
    "asm_rel (fragments c2) (snd (spec_receive toNumber ms2 (snd (spec_receive toNumber ms1 asm))))"
    using Cons.IH [OF ms2(2) stable c1(3) wf(2) _ c1(4)] Cons.prems(5) ms2(1) by auto
  then show ?case using c1 ms2(1)
    by (cases "spec_receive toNumber ms1 asm";
        cases "spec_receive toNumber ms2 (snd (spec_receive toNumber ms1 asm))")
      (auto simp: spec_receive_append list_all2_appendI)
qed

lemma asm_rel_empty: "asm_rel (\<lambda>_. None) (\<lambda>_. None)"
  by (simp add: asm_rel_def)

lemma stream_delivery:
  assumes "list_all msg_ok mss" and "list_all received_ok (map wire_frames mss)"
    and "concat cs = enc_stream mss"
  shows "\<exists>outs c'. receive toNumber now cs (newConnection i t) = Some (Inr (outs, c')) \<and>
    list_all2 fresh_message (fst (spec_receive toNumber (map wire_frames mss) (\<lambda>_. None))) outs \<and>
    reader_inv (creader c') [] []"
proof -
  let ?c = "newConnection i t"
  have "parse_msgs [] ([] @ concat cs) = (map wire_frames mss, [], [])"
    using parse_stream [OF assms(1)] assms(3) by simp
  moreover have "parse_msgs [] [] = ([], [], [])"
    by (simp add: parse_msgs.simps [of "[]" "[]"] take_frame_def)
  moreover have "reader_inv (creader ?c) [] []" "asm_rel (fragments ?c) (\<lambda>_. None)"
    by (simp_all add: newConnection_def new_reader_inv asm_rel_empty)
  moreover have "well_framed ([] @ concat cs)"
    using well_framed_stream [OF assms(1)] assms(3) by simp
  ultimately show ?thesis
    using receive_spec [of "[]" "[]" cs "map wire_frames mss" "[]" "[]" ?c "\<lambda>_. None"] assms(2) by blast
qed

lemma fresh_frames: "list_all2 fresh_message fss outs \<Longrightarrow> map frames outs = fss"
  by (induction rule: list_all2_induct) (simp_all add: fresh_message_def)

text \<open>
  C1. The receiving side, end to end. Let the peer send any messages in the wire format, each of
  them whole or a fragment. However the byte stream is cut into chunks by the network, the data
  handler returns on every chunk, raises no error, and calls the callback exactly with the whole
  messages and the reassembled fragmented ones, in the order in which they are completed; at the
  end no byte is left in the reader.
\<close>

theorem socket_delivery:
  assumes "list_all msg_ok mss" and "list_all received_ok (map wire_frames mss)"
    and "concat cs = enc_stream mss"
  shows "\<exists>outs c'. receive toNumber now cs (newConnection i t) = Some (Inr (outs, c')) \<and>
    map frames outs = fst (spec_receive toNumber (map wire_frames mss) (\<lambda>_. None)) \<and>
    reader_inv (creader c') [] []"
  using stream_delivery [OF assms, of toNumber now i t] fresh_frames by blast

definition sample_stream :: "frame list list" where
  "sample_stream = [[\<lparr>content = [1, 2], flags = 49152\<rparr>], [\<lparr>content = [3], flags = 49152\<rparr>]]"

theorem socket_delivery_witness:
  "\<exists>outs c'. receive low 0 [[8, 0, 0, 0, 0, 224, 1], [2, 7, 0, 0], [], [0, 0, 224, 3]] (newConnection 0 0) =
     Some (Inr (outs, c')) \<and> map (map content) (map frames outs) = [[[1, 2]], [[3]]]"
proof -
  have ok: "list_all msg_ok sample_stream" "list_all received_ok (map wire_frames sample_stream)"
    by code_simp+
  moreover have "concat [[8, 0, 0, 0, 0, 224, 1], [2, 7, 0, 0], [], [0, 0, 224, 3]] = enc_stream sample_stream"
    by code_simp
  moreover have "map (map content) (fst (spec_receive low (map wire_frames sample_stream) (\<lambda>_. None))) =
      [[[1, 2]], [[3]]]" by code_simp
  ultimately show ?thesis
    using socket_delivery [of sample_stream _ low 0 0 0] by metis
qed



end
