(* ===== verification/PartitionService.thy ===== *)
theory PartitionService
  imports Connection HeapData
begin

section \<open>Partition table (src/src/PartitionService.ts)\<close>

text \<open>
  The map from partitions to the members that own them, as the cluster publishes it, and the partition of a
  key. A member's UUID that is null or missing is \<open>None\<close>. Keys are data, or objects that \<open>toData\<close> of
  the serialization service turns into data.
\<close>

record partition_table =
  pt_connection :: "conn option"
  partitionStateVersion :: int
  partitions :: "int \<Rightarrow> uuid option"

record partition_service =
  partitionTable :: partition_table
  partitionCount :: int

datatype 'o part_key = KeyData heap_data | KeyObject 'o

definition newPartitionTable :: partition_table where
  "newPartitionTable = \<lparr>pt_connection = None, partitionStateVersion = -1, partitions = (\<lambda>_. None)\<rparr>"

definition newPartitionService :: partition_service where
  "newPartitionService = \<lparr>partitionTable = newPartitionTable, partitionCount = 0\<rparr>"

definition reset_partitions :: "partition_service \<Rightarrow> partition_service" where
  "reset_partitions ps = ps\<lparr>partitionTable := newPartitionTable\<rparr>"

definition convertToMap :: "(uuid option \<times> int list) list \<Rightarrow> int \<Rightarrow> uuid option" where
  "convertToMap entries =
     fold (\<lambda>(u, owned) newPartitions. fold (\<lambda>p newPartitions. newPartitions(p := u)) owned newPartitions) entries (\<lambda>_. None)"

definition shouldBeApplied :: "conn \<Rightarrow> (uuid option \<times> int list) list \<Rightarrow> int \<Rightarrow> partition_table \<Rightarrow> bool" where
  "shouldBeApplied c entries version current =
     (if entries = [] then False
      else if \<not> equalsConnection c (pt_connection current) then True
      else if version \<le> partitionStateVersion current then False
      else True)"

definition handlePartitionViewEvent ::
    "conn \<Rightarrow> (uuid option \<times> int list) list \<Rightarrow> int \<Rightarrow> partition_service \<Rightarrow> partition_service" where
  "handlePartitionViewEvent c entries version ps =
     (if \<not> shouldBeApplied c entries version (partitionTable ps) then ps
      else ps\<lparr>partitionTable := \<lparr>pt_connection = Some c, partitionStateVersion = version,
                partitions = convertToMap entries\<rparr>\<rparr>)"

definition getPartitionOwner :: "int \<Rightarrow> partition_service \<Rightarrow> uuid option" where
  "getPartitionOwner p ps = partitions (partitionTable ps) p"

definition getPartitionId :: "('o \<Rightarrow> heap_data res) \<Rightarrow> 'o part_key \<Rightarrow> partition_service \<Rightarrow> int res" where
  "getPartitionId toData key ps =
     (if partitionCount ps = 0 then Inl (HzError ClientOfflineError)
      else bindR (case key of KeyData d \<Rightarrow> getPartitionHash d
                  | KeyObject obj \<Rightarrow> bindR (toData obj) getPartitionHash) (\<lambda>h.
        Inr (\<bar>h\<bar> mod partitionCount ps)))"

definition getPartitionCount :: "partition_service \<Rightarrow> int" where
  "getPartitionCount ps = partitionCount ps"

definition checkAndSetPartitionCount :: "int \<Rightarrow> partition_service \<Rightarrow> bool \<times> partition_service" where
  "checkAndSetPartitionCount newPartitionCount ps =
     (if partitionCount ps = 0 then (True, ps\<lparr>partitionCount := newPartitionCount\<rparr>)
      else (partitionCount ps = newPartitionCount, ps))"

subsection \<open>Partitions of keys\<close>

text \<open>The hash a key is routed by: the one in its header, or else that of its body.\<close>

definition routing_hash :: "heap_data \<Rightarrow> int" where
  "routing_hash d =
     (case payload d of
        None \<Rightarrow> 0
      | Some b \<Rightarrow>
          if 8 \<le> length b \<and> sint_val True (take 4 b) \<noteq> 0 then sint_val True (take 4 b) else key_hash (body d))"

lemma getPartitionHash_eq:
  assumes "payload d \<noteq> None"
  shows "getPartitionHash d = Inr (routing_hash d)"
proof -
  obtain b where b: "payload d = Some b" using assms by blast
  have r: "buf_read_sint True 4 b 0 = Inr (sint_val True (take 4 b))" if "8 \<le> length b"
    using that by (simp add: buf_read_sint_def buf_get_def)
  show ?thesis
    using assms r b hashCode_body [OF assms]
    by (auto simp: getPartitionHash_def hasPartitionHash_def routing_hash_def heap_data_offsets)
qed

text \<open>
  C20. Once the partition count is known, every key with a payload has a partition, and only from 0 up to the
  count; it is the absolute value of the routing hash modulo the count, so that equal data, and
  objects that serialize to equal data, are always routed to the same partition.
\<close>

theorem partition_of_key:
  assumes "0 < partitionCount ps" and "payload d \<noteq> None" and "toData obj = Inr d"
  shows "\<exists>p. getPartitionId toData (KeyData d) ps = Inr p \<and> getPartitionId toData (KeyObject obj) ps = Inr p \<and>
    0 \<le> p \<and> p < getPartitionCount ps \<and> p = \<bar>routing_hash d\<bar> mod getPartitionCount ps"
  using assms by (simp add: getPartitionId_def getPartitionHash_eq getPartitionCount_def)

definition sample_service :: partition_service where
  "sample_service = snd (checkAndSetPartitionCount 271 newPartitionService)"

theorem partition_of_key_witness:
  "\<exists>p. getPartitionId Inr (KeyData \<lparr>payload = Some [0, 0, 0, 5, 0, 0, 0, 0]\<rparr>) sample_service = Inr p \<and>
    getPartitionId Inr (KeyObject \<lparr>payload = Some [0, 0, 0, 5, 0, 0, 0, 0]\<rparr>) sample_service = Inr p \<and>
    0 \<le> p \<and> p < getPartitionCount sample_service \<and>
    p = \<bar>routing_hash \<lparr>payload = Some [0, 0, 0, 5, 0, 0, 0, 0]\<rparr>\<bar> mod getPartitionCount sample_service"
  by (rule partition_of_key)
    (simp_all add: sample_service_def checkAndSetPartitionCount_def newPartitionService_def)

subsection \<open>Partition view events\<close>

text \<open>
  An event of a connection: the entries and the version. The events of one connection that change the table are
  the first that is not empty, and every later one with a greater version.
\<close>

type_synonym view_event = "(uuid option \<times> int list) list \<times> int"

abbreviation handle_views :: "conn \<Rightarrow> view_event list \<Rightarrow> partition_service \<Rightarrow> partition_service" where
  "handle_views c evs ps \<equiv> fold (\<lambda>(es, v). handlePartitionViewEvent c es v) evs ps"

lemma view_event_same:
  assumes "pt_connection (partitionTable ps) = Some c"
  shows "handlePartitionViewEvent c es v ps =
    (if es \<noteq> [] \<and> partitionStateVersion (partitionTable ps) < v
     then ps\<lparr>partitionTable := \<lparr>pt_connection = Some c, partitionStateVersion = v, partitions = convertToMap es\<rparr>\<rparr>
     else ps)"
  using assms by (auto simp: handlePartitionViewEvent_def shouldBeApplied_def equalsConnection_def)

lemma view_events_same:
  assumes "partitionTable ps = \<lparr>pt_connection = Some c, partitionStateVersion = v0, partitions = convertToMap es0\<rparr>"
  shows "\<exists>es v. partitionTable (handle_views c evs ps) =
      \<lparr>pt_connection = Some c, partitionStateVersion = v, partitions = convertToMap es\<rparr> \<and>
    ((es, v) = (es0, v0) \<or> (es, v) \<in> set evs \<and> es \<noteq> []) \<and> v0 \<le> v \<and> (\<forall>(es', v') \<in> set evs. es' \<noteq> [] \<longrightarrow> v' \<le> v) \<and>
    partitionCount (handle_views c evs ps) = partitionCount ps"
  using assms
proof (induction evs arbitrary: ps es0 v0)
  case (Cons e evs)
  obtain es1 v1 where e: "e = (es1, v1)" by (cases e)
  have c: "pt_connection (partitionTable ps) = Some c" using Cons.prems by simp
  show ?case
  proof (cases "es1 \<noteq> [] \<and> v0 < v1")
    case True
    let ?ps = "handlePartitionViewEvent c es1 v1 ps"
    have "partitionTable ?ps = \<lparr>pt_connection = Some c, partitionStateVersion = v1, partitions = convertToMap es1\<rparr>"
      "partitionCount ?ps = partitionCount ps"
      using True Cons.prems by (simp_all add: view_event_same [OF c])
    with Cons.IH [of ?ps v1 es1] obtain es v where
      "partitionTable (handle_views c evs ?ps) =
         \<lparr>pt_connection = Some c, partitionStateVersion = v, partitions = convertToMap es\<rparr>"
      "(es, v) = (es1, v1) \<or> (es, v) \<in> set evs \<and> es \<noteq> []" "v1 \<le> v"
      "\<forall>(es', v') \<in> set evs. es' \<noteq> [] \<longrightarrow> v' \<le> v" "partitionCount (handle_views c evs ?ps) = partitionCount ps"
      by auto
    then show ?thesis using e True by (intro exI [of _ es] exI [of _ v]) auto
  next
    case False
    then have "handlePartitionViewEvent c es1 v1 ps = ps"
      using Cons.prems by (simp add: view_event_same [OF c] del: partition_service.simps)
    moreover obtain es v where
      "partitionTable (handle_views c evs ps) =
         \<lparr>pt_connection = Some c, partitionStateVersion = v, partitions = convertToMap es\<rparr>"
      "(es, v) = (es0, v0) \<or> (es, v) \<in> set evs \<and> es \<noteq> []" "v0 \<le> v"
      "\<forall>(es', v') \<in> set evs. es' \<noteq> [] \<longrightarrow> v' \<le> v" "partitionCount (handle_views c evs ps) = partitionCount ps"
      using Cons.IH [OF Cons.prems] by auto
    ultimately show ?thesis using e False by (intro exI [of _ es] exI [of _ v]) auto
  qed
qed simp

text \<open>
  C19. Whatever the order in which a connection delivers partition views, the table ends up as one of them, none
  of the views that are not empty has a greater version, and the partition count does not change: reordered and
  repeated views do no harm, and empty ones are never applied.
\<close>

theorem newest_view_wins:
  assumes "\<exists>(es, v) \<in> set evs. es \<noteq> []"
  shows "\<exists>es v ps. ps = handle_views c evs (reset_partitions ps0) \<and> (es, v) \<in> set evs \<and> es \<noteq> [] \<and>
    partitionTable ps = \<lparr>pt_connection = Some c, partitionStateVersion = v, partitions = convertToMap es\<rparr> \<and>
    (\<forall>(es', v') \<in> set evs. es' \<noteq> [] \<longrightarrow> v' \<le> v) \<and> getPartitionCount ps = getPartitionCount ps0"
  using assms
proof (induction evs)
  case (Cons e evs)
  obtain es1 v1 where e: "e = (es1, v1)" by (cases e)
  show ?case
  proof (cases "es1 = []")
    case True
    then have "handle_views c (e # evs) (reset_partitions ps0) = handle_views c evs (reset_partitions ps0)"
      using e by (simp add: handlePartitionViewEvent_def shouldBeApplied_def)
    moreover have "\<exists>(es, v) \<in> set evs. es \<noteq> []" using Cons.prems e True by auto
    ultimately show ?thesis using Cons.IH e True by auto
  next
    case False
    let ?ps = "handlePartitionViewEvent c es1 v1 (reset_partitions ps0)"
    have t: "partitionTable ?ps = \<lparr>pt_connection = Some c, partitionStateVersion = v1, partitions = convertToMap es1\<rparr>"
      and n: "partitionCount ?ps = partitionCount ps0"
      using False by (simp_all add: handlePartitionViewEvent_def shouldBeApplied_def reset_partitions_def
          newPartitionTable_def equalsConnection_def)
    obtain es v where "partitionTable (handle_views c evs ?ps) =
         \<lparr>pt_connection = Some c, partitionStateVersion = v, partitions = convertToMap es\<rparr>"
      "(es, v) = (es1, v1) \<or> (es, v) \<in> set evs \<and> es \<noteq> []" "v1 \<le> v"
      "\<forall>(es', v') \<in> set evs. es' \<noteq> [] \<longrightarrow> v' \<le> v" "partitionCount (handle_views c evs ?ps) = partitionCount ?ps"
      using view_events_same [OF t, of evs] by auto
    then show ?thesis using e False n by (intro exI [of _ es] exI [of _ v]) (auto simp: getPartitionCount_def)
  qed
qed simp

definition sample_views :: "view_event list" where
  "sample_views = [([], 9), ([(None, [0])], 4), ([(None, [1])], 3)]"

theorem newest_view_wins_witness:
  "\<exists>es v ps. ps = handle_views (newConnection 0 0) sample_views
      (reset_partitions sample_service) \<and>
    (es, v) \<in> set sample_views \<and> es \<noteq> [] \<and>
    partitionTable ps = \<lparr>pt_connection = Some (newConnection 0 0), partitionStateVersion = v,
      partitions = convertToMap es\<rparr> \<and>
    (\<forall>(es', v') \<in> set sample_views. es' \<noteq> [] \<longrightarrow> v' \<le> v) \<and>
    getPartitionCount ps = getPartitionCount sample_service"
  by (rule newest_view_wins) (simp add: sample_views_def)

end
