(* ===== verification/State_Res.thy ===== *)
theory State_Res
  imports Prelude
begin

section \<open>Operations on a state that may raise\<close>

text \<open>
  An operation takes the state and gives its result, or the error it raises, together with the state it leaves
  behind: what was changed before an error stays changed.
\<close>

type_synonym ('s, 'a) op = "'s \<Rightarrow> 'a res \<times> 's"

named_theorems op_simps \<open>unfolding of operations\<close>

definition retS :: "'a \<Rightarrow> ('s, 'a) op" where
  [op_simps]: "retS x s = (Inr x, s)"

definition raiseS :: "js_error \<Rightarrow> ('s, 'a) op" where
  [op_simps]: "raiseS e s = (Inl e, s)"

definition liftR :: "'a res \<Rightarrow> ('s, 'a) op" where
  [op_simps]: "liftR r s = (r, s)"

definition modS :: "('s \<Rightarrow> 's) \<Rightarrow> ('s, unit) op" where
  [op_simps]: "modS f s = (Inr (), f s)"

definition bindS :: "('s, 'a) op \<Rightarrow> ('a \<Rightarrow> ('s, 'b) op) \<Rightarrow> ('s, 'b) op" where
  [op_simps]: "bindS f g s = (case f s of (Inl e, s') \<Rightarrow> (Inl e, s') | (Inr x, s') \<Rightarrow> g x s')"

text \<open>An invariant an operation keeps, whether it returns or raises.\<close>

definition keeps :: "('s \<Rightarrow> bool) \<Rightarrow> ('s, 'a) op \<Rightarrow> bool" where
  "keeps P f \<longleftrightarrow> (\<forall>s. P s \<longrightarrow> P (snd (f s)))"

lemma keepsI: "(\<And>s. P s \<Longrightarrow> P (snd (f s))) \<Longrightarrow> keeps P f"
  by (simp add: keeps_def)

lemma keepsD: "keeps P f \<Longrightarrow> P s \<Longrightarrow> f s = (r, s') \<Longrightarrow> P s'"
  by (metis keeps_def snd_conv)

lemma keeps_bind: "keeps P f \<Longrightarrow> (\<And>x. keeps P (g x)) \<Longrightarrow> keeps P (bindS f g)"
  by (auto simp: keeps_def bindS_def split: prod.splits sum.splits)

lemma keeps_simple [simp]: "keeps P (retS x)" "keeps P (raiseS e)" "keeps P (liftR r)"
  by (simp_all add: keeps_def op_simps)

lemma keeps_mod: "(\<And>s. P s \<Longrightarrow> P (f s)) \<Longrightarrow> keeps P (modS f)"
  by (simp add: keeps_def modS_def)

end
