(* ===== verification/NearCache.thy ===== *)
theory NearCache
  imports DataStoreHashMap Js_Long PartitionService State_Res "HOL-Library.Multiset"
begin

section \<open>Near cache (src/src/nearcache)\<close>

text \<open>
  The near cache of a map: records of the values read, with time to live, idle time, eviction by sampling,
  reservations for values that are being fetched, and detection of stale records. Records are mutable objects that
  the store and the pool of eviction candidates share, so they live in a heap: the store and the pool hold
  references, which are positions in the list of records. Values are of a type \<open>'v\<close>, \<open>None\<close> is
  \<open>undefined\<close>. Conversions of the serialization service, the random choices and the arithmetic of the \<open>long\<close>
  package are fields of an environment.
\<close>

record 'v cache_env =
  longs :: long_ops
  toObjectV :: "'v option \<Rightarrow> 'v option res"
  toDataV :: "'v option \<Rightarrow> 'v option res"
  pick :: "nat \<Rightarrow> nat"
  random_order :: "nat list \<Rightarrow> nat list"

subsection \<open>DataRecord\<close>

record 'v data_record =
  rec_key :: heap_data
  rec_value :: "'v option"
  rec_creationTime :: int
  expirationTime :: "int option"
  lastAccessTime :: int
  accessHit :: int
  invalidationSequence :: js_long
  rec_uuid :: "uuid option"
  status :: js_long
  ttl :: int

definition NOT_RESERVED :: "long_ops \<Rightarrow> js_long" where "NOT_RESERVED L = long_fromNumber L (-1)"
definition READ_PERMITTED :: "long_ops \<Rightarrow> js_long" where "READ_PERMITTED L = long_fromNumber L (-3)"

definition newDataRecord ::
    "long_ops \<Rightarrow> int \<Rightarrow> heap_data \<Rightarrow> 'v option \<Rightarrow> int option \<Rightarrow> int \<Rightarrow> 'v data_record" where
  "newDataRecord L now key value creationTime timeToLive =
     (let t = (case creationTime of None \<Rightarrow> now | Some t \<Rightarrow> if t = 0 then now else t) in
      \<lparr>rec_key = key, rec_value = value, rec_creationTime = t,
       expirationTime = (if timeToLive \<noteq> 0 then Some (t + timeToLive * 1000) else None),
       lastAccessTime = t, accessHit = 0, invalidationSequence = long_fromNumber L 0, rec_uuid = None,
       status = READ_PERMITTED L, ttl = timeToLive\<rparr>)"

definition isExpired :: "int \<Rightarrow> int \<Rightarrow> 'v data_record \<Rightarrow> bool" where
  "isExpired now maxIdle r \<longleftrightarrow>
     (case expirationTime r of None \<Rightarrow> False | Some t \<Rightarrow> t > 0 \<and> t < now) \<or>
     (maxIdle > 0 \<and> lastAccessTime r + maxIdle * 1000 < now)"

definition setAccessTime :: "int \<Rightarrow> 'v data_record \<Rightarrow> 'v data_record" where
  "setAccessTime now r = r\<lparr>lastAccessTime := now\<rparr>"

definition hitRecord :: "'v data_record \<Rightarrow> 'v data_record" where
  "hitRecord r = r\<lparr>accessHit := accessHit r + 1\<rparr>"

definition hasSameUuid :: "long_ops \<Rightarrow> uuid option \<Rightarrow> 'v data_record \<Rightarrow> bool" where
  "hasSameUuid L u r =
     (case (u, rec_uuid r) of (Some v, Some w) \<Rightarrow> uuid_equals L w (Some v) | _ \<Rightarrow> False)"

definition casStatus :: "long_ops \<Rightarrow> js_long \<Rightarrow> js_long \<Rightarrow> 'v data_record \<Rightarrow> bool \<times> 'v data_record" where
  "casStatus L expected update r =
     (if long_equals L expected (status r) then (True, r\<lparr>status := update\<rparr>) else (False, r))"

definition setCreationTime :: "int \<Rightarrow> int option \<Rightarrow> 'v data_record \<Rightarrow> 'v data_record" where
  "setCreationTime now creationTime r =
     (let t = (case creationTime of None \<Rightarrow> now | Some t \<Rightarrow> if t = 0 then now else t) in
      r\<lparr>rec_creationTime := t, expirationTime := (if ttl r \<noteq> 0 then Some (t + ttl r * 1000) else None)\<rparr>)"

subsection \<open>MetadataContainer, RepairingHandler and StaleReadDetector: the invalidation metadata\<close>

record metadata_container =
  md_sequence :: js_long
  staleSequence :: js_long
  missedSequenceCount :: js_long
  md_uuid :: "uuid option"

definition newMetadataContainer :: "long_ops \<Rightarrow> metadata_container" where
  "newMetadataContainer L = \<lparr>md_sequence = long_fromNumber L 0, staleSequence = long_fromNumber L 0,
     missedSequenceCount = long_fromNumber L 0, md_uuid = None\<rparr>"

definition reset_metadata :: "long_ops \<Rightarrow> metadata_container \<Rightarrow> metadata_container" where
  "reset_metadata L md = md\<lparr>md_sequence := long_fromNumber L 0, staleSequence := long_fromNumber L 0,
     missedSequenceCount := long_fromNumber L 0\<rparr>"

definition increaseMissedSequenceCount :: "long_ops \<Rightarrow> js_long \<Rightarrow> metadata_container \<Rightarrow> metadata_container" where
  "increaseMissedSequenceCount L missed md =
     md\<lparr>missedSequenceCount := long_add L (missedSequenceCount md) missed\<rparr>"

record repairing_handler =
  rh_name :: js_string
  rh_partitions :: partition_service
  localUuid :: uuid
  containers :: "metadata_container list"

definition newRepairingHandler :: "long_ops \<Rightarrow> js_string \<Rightarrow> partition_service \<Rightarrow> uuid \<Rightarrow> repairing_handler" where
  "newRepairingHandler L nm ps u = \<lparr>rh_name = nm, rh_partitions = ps, localUuid = u,
     containers = replicate (nat (getPartitionCount ps)) (newMetadataContainer L)\<rparr>"

definition getMetadataContainer :: "int \<Rightarrow> repairing_handler \<Rightarrow> metadata_container option" where
  "getMetadataContainer p h = (if 0 \<le> p \<and> p < int (length (containers h)) then Some (containers h ! nat p) else None)"

text \<open>Calling a method of a container that is \<open>undefined\<close> raises.\<close>

definition with_container ::
    "int \<Rightarrow> (metadata_container \<Rightarrow> metadata_container) \<Rightarrow> (repairing_handler, unit) op" where
  "with_container p f h =
     (case getMetadataContainer p h of
        None \<Rightarrow> (Inl TypeError, h)
      | Some md \<Rightarrow> (Inr (), h\<lparr>containers := (containers h)[nat p := f md]\<rparr>))"

definition initUuid :: "(int \<times> uuid option) list \<Rightarrow> (repairing_handler, unit) op" where
  "initUuid pairs = foldr (\<lambda>(p, u) rest. bindS (with_container p (\<lambda>md. md\<lparr>md_uuid := u\<rparr>)) (\<lambda>_. rest)) pairs (retS ())"

definition initSequence :: "(int \<times> js_long) list \<Rightarrow> (repairing_handler, unit) op" where
  "initSequence pairs =
     foldr (\<lambda>(p, s) rest. bindS (with_container p (\<lambda>md. md\<lparr>md_sequence := s\<rparr>)) (\<lambda>_. rest)) pairs (retS ())"

definition checkOrRepairSequence :: "long_ops \<Rightarrow> int \<Rightarrow> js_long \<Rightarrow> bool \<Rightarrow> (repairing_handler, unit) op" where
  "checkOrRepairSequence L p nextSequence viaAntiEntropy = with_container p (\<lambda>md.
     let current = md_sequence md in
     if long_greaterThanOrEqual L current nextSequence then md
     else let md = md\<lparr>md_sequence := nextSequence\<rparr>;
              missed = long_subtract L nextSequence current;
              missed = (if viaAntiEntropy then missed else long_subtract L missed (long_fromNumber L 1))
          in if long_greaterThan L missed (long_fromNumber L 0) then increaseMissedSequenceCount L missed md else md)"

definition checkOrRepairUuid :: "long_ops \<Rightarrow> int \<Rightarrow> uuid option \<Rightarrow> (repairing_handler, unit) op" where
  "checkOrRepairUuid L p newuuid = with_container p (\<lambda>md.
     case md_uuid md of
       Some u \<Rightarrow> if uuid_equals L u newuuid then md else reset_metadata L (md\<lparr>md_uuid := newuuid\<rparr>)
     | None \<Rightarrow> reset_metadata L (md\<lparr>md_uuid := newuuid\<rparr>))"

definition updateLastKnownStaleSequence :: "long_ops \<Rightarrow> metadata_container \<Rightarrow> metadata_container" where
  "updateLastKnownStaleSequence L md =
     (if long_lessThan L (staleSequence md) (md_sequence md) then md\<lparr>staleSequence := md_sequence md\<rparr> else md)"

text \<open>The partition of a key that is a datum: the serialization service is not asked.\<close>

definition partition_of_data :: "heap_data \<Rightarrow> partition_service \<Rightarrow> int res" where
  "partition_of_data d ps = getPartitionId (\<lambda>_ :: unit. Inl TypeError) (KeyData d) ps"

definition isStaleRead :: "long_ops \<Rightarrow> repairing_handler \<Rightarrow> 'v data_record \<Rightarrow> bool res" where
  "isStaleRead L h r =
     bindR (partition_of_data (rec_key r) (rh_partitions h)) (\<lambda>p.
       case getMetadataContainer p h of
         None \<Rightarrow> Inl TypeError
       | Some md \<Rightarrow> Inr (\<not> hasSameUuid L (md_uuid md) r \<or>
                         long_lessThan L (invalidationSequence r) (staleSequence md)))"

subsection \<open>Shuffling (src/src/util/Util.ts)\<close>

text \<open>\<open>pick i\<close> is \<open>Math.floor(Math.random() * i)\<close>.\<close>

fun shuffle_from :: "(nat \<Rightarrow> nat) \<Rightarrow> nat \<Rightarrow> 'a list \<Rightarrow> 'a list" where
  "shuffle_from pk 0 xs = xs"
| "shuffle_from pk (Suc n) xs =
     (if n = 0 then xs
      else let r = pk (Suc n) in shuffle_from pk n (xs[n := xs ! r, r := xs ! n]))"

definition shuffleArray :: "(nat \<Rightarrow> nat) \<Rightarrow> 'a list \<Rightarrow> 'a list" where
  "shuffleArray pk xs = shuffle_from pk (length xs) xs"

subsection \<open>NearCacheImpl\<close>

datatype eviction_policy = NONE | LRU | LFU | RANDOM
datatype in_memory_format = OBJECT | BINARY
datatype ready_state = ReadyPending | ReadyResolved | ReadyRejected

record 'v near_cache =
  store :: "nat keyed_map"
  records :: "'v data_record list"
  invalidateOnChange :: bool
  maxIdleSeconds :: int
  inMemoryFormat :: in_memory_format
  timeToLiveSeconds :: int
  evictionPolicy :: eviction_policy
  evictionMaxSize :: int
  evictionSamplingCount :: int
  evictionSamplingPoolSize :: int
  evictionCandidatePool :: "nat list"
  detecting :: bool
  reservationCounter :: js_long
  evictedCount :: int
  expiredCount :: int
  missCount :: int
  hitCount :: int
  cacheCreationTime :: int
  ready :: ready_state

record near_cache_config =
  cfg_invalidateOnChange :: bool
  cfg_maxIdleSeconds :: int
  cfg_inMemoryFormat :: in_memory_format
  cfg_timeToLiveSeconds :: int
  cfg_evictionPolicy :: eviction_policy
  cfg_evictionMaxSize :: int
  cfg_evictionSamplingCount :: int
  cfg_evictionSamplingPoolSize :: int

definition newNearCache :: "long_ops \<Rightarrow> int \<Rightarrow> near_cache_config \<Rightarrow> 'v near_cache" where
  "newNearCache L now cfg =
     \<lparr>store = new_keyed_map, records = [], invalidateOnChange = cfg_invalidateOnChange cfg,
      maxIdleSeconds = cfg_maxIdleSeconds cfg, inMemoryFormat = cfg_inMemoryFormat cfg,
      timeToLiveSeconds = cfg_timeToLiveSeconds cfg, evictionPolicy = cfg_evictionPolicy cfg,
      evictionMaxSize = cfg_evictionMaxSize cfg, evictionSamplingCount = cfg_evictionSamplingCount cfg,
      evictionSamplingPoolSize = cfg_evictionSamplingPoolSize cfg, evictionCandidatePool = [],
      detecting = False, reservationCounter = long_fromNumber L 0, evictedCount = 0, expiredCount = 0,
      missCount = 0, hitCount = 0, cacheCreationTime = now, ready = ReadyPending\<rparr>"

definition setReady :: "bool \<Rightarrow> 'v near_cache \<Rightarrow> 'v near_cache" where
  "setReady failed nc =
     (if ready nc = ReadyPending then nc\<lparr>ready := (if failed then ReadyRejected else ReadyResolved)\<rparr> else nc)"

definition setStaleReadDetector :: "'v near_cache \<Rightarrow> 'v near_cache" where
  "setStaleReadDetector nc = nc\<lparr>detecting := True\<rparr>"

text \<open>Accesses to the store and to the heap of records.\<close>

definition store_get :: "heap_data \<Rightarrow> ('v near_cache, nat option) op" where
  "store_get key nc = (map_get key (store nc), nc)"

definition store_set :: "heap_data \<Rightarrow> nat \<Rightarrow> ('v near_cache, unit) op" where
  "store_set key r nc =
     (case map_set key r (store nc) of Inl e \<Rightarrow> (Inl e, nc) | Inr m \<Rightarrow> (Inr (), nc\<lparr>store := m\<rparr>))"

definition store_delete :: "heap_data \<Rightarrow> ('v near_cache, bool) op" where
  "store_delete key nc =
     (case map_delete key (store nc) of Inl e \<Rightarrow> (Inl e, nc) | Inr (b, m) \<Rightarrow> (Inr b, nc\<lparr>store := m\<rparr>))"

definition alloc_record :: "'v data_record \<Rightarrow> ('v near_cache, nat) op" where
  "alloc_record r nc = (Inr (length (records nc)), nc\<lparr>records := records nc @ [r]\<rparr>)"

definition upd_record :: "nat \<Rightarrow> ('v data_record \<Rightarrow> 'v data_record) \<Rightarrow> 'v near_cache \<Rightarrow> 'v near_cache" where
  "upd_record i f nc = nc\<lparr>records := (records nc)[i := f (records nc ! i)]\<rparr>"

definition cas_record :: "long_ops \<Rightarrow> nat \<Rightarrow> js_long \<Rightarrow> js_long \<Rightarrow> ('v near_cache, bool) op" where
  "cas_record L i expected update nc =
     (case casStatus L expected update (records nc ! i) of (b, r) \<Rightarrow> (Inr b, upd_record i (\<lambda>_. r) nc))"

definition nextReservationId :: "long_ops \<Rightarrow> ('v near_cache, js_long) op" where
  "nextReservationId L nc =
     (Inr (reservationCounter nc),
      nc\<lparr>reservationCounter := long_add L (reservationCounter nc) (long_fromNumber L 1)\<rparr>)"

definition expireRecord :: "heap_data \<Rightarrow> ('v near_cache, unit) op" where
  "expireRecord key = bindS (store_delete key) (\<lambda>b.
     modS (\<lambda>nc. if b then nc\<lparr>expiredCount := expiredCount nc + 1\<rparr> else nc))"

definition evictRecord :: "heap_data \<Rightarrow> ('v near_cache, unit) op" where
  "evictRecord key = bindS (store_delete key) (\<lambda>b.
     modS (\<lambda>nc. if b then nc\<lparr>evictedCount := evictedCount nc + 1\<rparr> else nc))"

definition filterExpiredRecord :: "int \<Rightarrow> nat \<Rightarrow> ('v near_cache, bool) op" where
  "filterExpiredRecord now i nc =
     (if isExpired now (maxIdleSeconds nc) (records nc ! i)
      then bindS (expireRecord (rec_key (records nc ! i))) (\<lambda>_. retS False) nc
      else (Inr True, nc))"

text \<open>\<open>newCandidates.filter(this.filterExpiredRecord, this)\<close>\<close>

fun filterCandidates :: "int \<Rightarrow> nat list \<Rightarrow> ('v near_cache, nat list) op" where
  "filterCandidates now [] = retS []"
| "filterCandidates now (i # is) =
     bindS (filterExpiredRecord now i) (\<lambda>b.
     bindS (filterCandidates now is) (\<lambda>js. retS (if b then i # js else js)))"

text \<open>
  \<open>Array.prototype.sort\<close> is stable; with the random comparator its result is some order of the candidates, which the
  environment chooses.
\<close>

definition sortCandidates :: "'v cache_env \<Rightarrow> 'v near_cache \<Rightarrow> nat list \<Rightarrow> nat list" where
  "sortCandidates env nc cs =
     (case evictionPolicy nc of
        LFU \<Rightarrow> sort_key (\<lambda>i. accessHit (records nc ! i)) cs
      | LRU \<Rightarrow> sort_key (\<lambda>i. lastAccessTime (records nc ! i)) cs
      | _ \<Rightarrow> random_order env cs)"

definition recomputeEvictionPool :: "'v cache_env \<Rightarrow> int \<Rightarrow> ('v near_cache, int) op" where
  "recomputeEvictionPool env now nc =
     (let arr = shuffleArray (pick env) (map_values (store nc));
          newCandidates = js_slice arr 0 (evictionSamplingCount nc)
      in bindS (filterCandidates now newCandidates) (\<lambda>cleaned.
           let expired = int (length newCandidates) - int (length cleaned) in
           if expired > 0 then retS expired
           else bindS (modS (\<lambda>nc. nc\<lparr>evictionCandidatePool :=
                  js_slice (sortCandidates env nc (evictionCandidatePool nc @ cleaned)) 0 (evictionSamplingPoolSize nc)\<rparr>))
                (\<lambda>_. retS 0)) nc)"

definition isEvictionRequired :: "'v near_cache \<Rightarrow> bool" where
  "isEvictionRequired nc \<longleftrightarrow> evictionPolicy nc \<noteq> NONE \<and> evictionMaxSize nc \<le> msize (store nc)"

definition evictFirst :: "('v near_cache, unit) op" where
  "evictFirst nc =
     (case evictionCandidatePool nc of
        [] \<Rightarrow> (Inl TypeError, nc)
      | i # is \<Rightarrow> bindS (evictRecord (rec_key (records nc ! i))) (\<lambda>_. modS (\<lambda>nc. nc\<lparr>evictionCandidatePool := is\<rparr>)) nc)"

definition doEvictionIfRequired :: "'v cache_env \<Rightarrow> int \<Rightarrow> ('v near_cache, unit) op" where
  "doEvictionIfRequired env now nc =
     (if \<not> isEvictionRequired nc then (Inr (), nc)
      else bindS (recomputeEvictionPool env now) (\<lambda>n. if n > 0 then retS () else evictFirst) nc)"

definition initInvalidationMetadata :: "long_ops \<Rightarrow> repairing_handler \<Rightarrow> nat \<Rightarrow> ('v near_cache, unit) op" where
  "initInvalidationMetadata L h i nc =
     (if \<not> detecting nc then (Inr (), nc)
      else case partition_of_data (rec_key (records nc ! i)) (rh_partitions h) of
        Inl e \<Rightarrow> (Inl e, nc)
      | Inr p \<Rightarrow> (case getMetadataContainer p h of
           None \<Rightarrow> (Inl TypeError, nc)
         | Some md \<Rightarrow> (Inr (), upd_record i (\<lambda>r. r\<lparr>invalidationSequence := md_sequence md, rec_uuid := md_uuid md\<rparr>) nc)))"

definition tryReserveForUpdate :: "'v cache_env \<Rightarrow> int \<Rightarrow> heap_data \<Rightarrow> ('v near_cache, js_long) op" where
  "tryReserveForUpdate env now key =
     bindS (store_get key) (\<lambda>found.
     bindS (nextReservationId (longs env)) (\<lambda>resId.
       case found of
         None \<Rightarrow>
           bindS (doEvictionIfRequired env now) (\<lambda>_ nc.
             let dr = newDataRecord (longs env) now key None None (timeToLiveSeconds nc);
                 dr = snd (casStatus (longs env) (READ_PERMITTED (longs env)) resId dr)
             in bindS (alloc_record dr) (\<lambda>i. bindS (store_set key i) (\<lambda>_. retS resId)) nc)
       | Some i \<Rightarrow>
           bindS (cas_record (longs env) i (READ_PERMITTED (longs env)) resId) (\<lambda>b.
             retS (if b then resId else NOT_RESERVED (longs env)))))"

text \<open>The value as the cache keeps it, and as \<open>get\<close> hands it out.\<close>

definition stored_form :: "'v cache_env \<Rightarrow> 'v near_cache \<Rightarrow> 'v option \<Rightarrow> 'v option res" where
  "stored_form env nc v = (if inMemoryFormat nc = OBJECT then toObjectV env v else toDataV env v)"

definition returned_form :: "'v cache_env \<Rightarrow> 'v near_cache \<Rightarrow> 'v option \<Rightarrow> 'v option res" where
  "returned_form env nc v = (if inMemoryFormat nc = BINARY then toObjectV env v else Inr v)"

definition tryPublishReserved ::
    "'v cache_env \<Rightarrow> repairing_handler \<Rightarrow> int \<Rightarrow> heap_data \<Rightarrow> 'v option \<Rightarrow> js_long \<Rightarrow> ('v near_cache, 'v option) op" where
  "tryPublishReserved env h now key value reservationId =
     bindS (store_get key) (\<lambda>found.
       case found of
         None \<Rightarrow> retS None
       | Some i \<Rightarrow>
           bindS (cas_record (longs env) i reservationId (READ_PERMITTED (longs env))) (\<lambda>b nc.
             if b then
               bindS (liftR (stored_form env nc value)) (\<lambda>v.
               bindS (modS (upd_record i (\<lambda>r. setCreationTime now None (r\<lparr>rec_value := v\<rparr>)))) (\<lambda>_.
               bindS (initInvalidationMetadata (longs env) h i) (\<lambda>_. retS None))) nc
             else (returned_form env nc (rec_value (records nc ! i)), nc)))"

definition cache_put :: "'v cache_env \<Rightarrow> repairing_handler \<Rightarrow> int \<Rightarrow> heap_data \<Rightarrow> 'v option \<Rightarrow> ('v near_cache, unit) op" where
  "cache_put env h now key value =
     bindS (doEvictionIfRequired env now) (\<lambda>_ nc.
       bindS (liftR (stored_form env nc value)) (\<lambda>v.
       bindS (alloc_record (newDataRecord (longs env) now key v None (timeToLiveSeconds nc))) (\<lambda>i.
       bindS (initInvalidationMetadata (longs env) h i) (\<lambda>_. store_set key i))) nc)"

definition miss :: "('v near_cache, 'v option) op" where
  "miss nc = (Inr None, nc\<lparr>missCount := missCount nc + 1\<rparr>)"

text \<open>The continuation of \<open>get\<close>, once the cache is ready.\<close>

definition get_ready :: "'v cache_env \<Rightarrow> repairing_handler \<Rightarrow> int \<Rightarrow> heap_data \<Rightarrow> ('v near_cache, 'v option) op" where
  "get_ready env h now key =
     bindS (store_get key) (\<lambda>found.
       case found of
         None \<Rightarrow> miss
       | Some i \<Rightarrow> (\<lambda>nc.
           bindS (liftR (if detecting nc then isStaleRead (longs env) h (records nc ! i) else Inr False)) (\<lambda>stale.
             if stale then bindS (store_delete key) (\<lambda>_. miss)
             else if isExpired now (maxIdleSeconds nc) (records nc ! i) then bindS (expireRecord key) (\<lambda>_. miss)
             else bindS (modS (upd_record i (\<lambda>r. hitRecord (setAccessTime now r)))) (\<lambda>_.
                  bindS (modS (\<lambda>nc. nc\<lparr>hitCount := hitCount nc + 1\<rparr>)) (\<lambda>_ nc.
                    (returned_form env nc (rec_value (records nc ! i)), nc)))) nc))"

text \<open>\<open>get\<close> waits for the cache to be ready: \<open>None\<close> while it is not.\<close>

definition cache_get :: "'v cache_env \<Rightarrow> repairing_handler \<Rightarrow> int \<Rightarrow> heap_data \<Rightarrow> 'v near_cache \<Rightarrow>
    ('v option res \<times> 'v near_cache) option" where
  "cache_get env h now key nc =
     (case ready nc of
        ReadyPending \<Rightarrow> None
      | ReadyRejected \<Rightarrow> Some (Inl PlainError, nc)
      | ReadyResolved \<Rightarrow> Some (get_ready env h now key nc))"

definition invalidate :: "heap_data \<Rightarrow> ('v near_cache, unit) op" where
  "invalidate key = bindS (store_delete key) (\<lambda>_. retS ())"

definition cache_clear :: "'v near_cache \<Rightarrow> 'v near_cache" where
  "cache_clear nc = nc\<lparr>store := map_clear (store nc)\<rparr>"

record cache_statistics =
  st_creationTime :: int
  st_evictedCount :: int
  st_expiredCount :: int
  st_missCount :: int
  st_hitCount :: int
  st_entryCount :: int

definition getStatistics :: "'v near_cache \<Rightarrow> cache_statistics" where
  "getStatistics nc =
     \<lparr>st_creationTime = cacheCreationTime nc, st_evictedCount = evictedCount nc, st_expiredCount = expiredCount nc,
      st_missCount = missCount nc, st_hitCount = hitCount nc, st_entryCount = msize (store nc)\<rparr>"

text \<open>
  \<open>RepairingHandler.handle\<close>: the event of another client removes the key, or everything if it has none; then the
  sequence and the UUID of the partition are checked. \<open>nameToData\<close> is \<open>toData\<close> on the name of the map.
\<close>

definition handle_invalidation :: "long_ops \<Rightarrow> (js_string \<Rightarrow> heap_data res) \<Rightarrow> heap_data option \<Rightarrow> uuid option \<Rightarrow>
    uuid option \<Rightarrow> js_long \<Rightarrow> repairing_handler \<Rightarrow> 'v near_cache \<Rightarrow> unit res \<times> repairing_handler \<times> 'v near_cache" where
  "handle_invalidation L nameToData key sourceUuid partitionUuid seq h nc =
     (let (r, nc) = (if \<not> uuid_equals L (localUuid h) sourceUuid
                     then case key of None \<Rightarrow> (Inr (), cache_clear nc) | Some k \<Rightarrow> invalidate k nc
                     else (Inr (), nc)) in
      case r of
        Inl e \<Rightarrow> (Inl e, h, nc)
      | Inr _ \<Rightarrow>
          (case getPartitionId nameToData (case key of Some k \<Rightarrow> KeyData k | None \<Rightarrow> KeyObject (rh_name h)) (rh_partitions h) of
             Inl e \<Rightarrow> (Inl e, h, nc)
           | Inr p \<Rightarrow>
               (case bindS (checkOrRepairSequence L p seq False) (\<lambda>_. checkOrRepairUuid L p partitionUuid) h of
                  (r, h) \<Rightarrow> (r, h, nc))))"

end
