(* ===== verification/NearCacheProofs.thy ===== *)
theory NearCacheProofs
  imports NearCache
begin

section \<open>Invariant of the near cache and effect of its operations\<close>

text \<open>
  The invariant \<open>cache_wf\<close>: the store refers to records of the heap, each filed under the body of its own key;
  every status is \<open>READ_PERMITTED\<close> or an id that was handed out. The abstraction \<open>entry\<close> gives for the body of a key
  the value and the status of its record. The operations are specified by their effect on entries; every one of them may
  also forget entries, by eviction, expiry or because they are stale.
\<close>

text \<open>
  What is relied on: the laws of 64-bit integers, \<open>Math.floor(Math.random() * i)\<close> is below \<open>i\<close>, sorting permutes,
  and \<open>toObject\<close> gives \<open>undefined\<close> back.
\<close>

definition env_ok :: "'v cache_env \<Rightarrow> bool" where
  "env_ok env \<longleftrightarrow> long_laws (longs env) \<and> (\<forall>i. 0 < i \<longrightarrow> pick env i < i) \<and>
     (\<forall>xs. mset (random_order env xs) = mset xs) \<and> toObjectV env None = Inr None"

definition status_ok :: "js_long \<Rightarrow> js_long \<Rightarrow> bool" where
  "status_ok counter st \<longleftrightarrow> long_val st = -3 \<or> 0 \<le> long_val st \<and> long_val st < long_val counter"

definition record_ok :: "js_long \<Rightarrow> 'v data_record \<Rightarrow> bool" where
  "record_ok counter r \<longleftrightarrow> payload (rec_key r) \<noteq> None \<and> status_ok counter (status r)"

definition cache_wf :: "'v near_cache \<Rightarrow> bool" where
  "cache_wf nc \<longleftrightarrow> keyed_inv (store nc) \<and>
     (\<forall>x i. keyed_abs (store nc) x = Some i \<longrightarrow> i < length (records nc) \<and> body (rec_key (records nc ! i)) = x) \<and>
     (\<forall>r \<in> set (records nc). record_ok (reservationCounter nc) r) \<and>
     (\<forall>i \<in> set (evictionCandidatePool nc). i < length (records nc)) \<and> 0 \<le> long_val (reservationCounter nc)"

definition entry :: "'v near_cache \<Rightarrow> byte list \<Rightarrow> ('v option \<times> int) option" where
  "entry nc x = map_option (\<lambda>i. (rec_value (records nc ! i), long_val (status (records nc ! i)))) (keyed_abs (store nc) x)"

text \<open>What no operation but the reservation of an id changes.\<close>

definition same_config :: "'v near_cache \<Rightarrow> 'v near_cache \<Rightarrow> bool" where
  "same_config nc nc' \<longleftrightarrow> reservationCounter nc' = reservationCounter nc \<and> inMemoryFormat nc' = inMemoryFormat nc \<and>
     detecting nc' = detecting nc \<and> maxIdleSeconds nc' = maxIdleSeconds nc \<and> ready nc' = ready nc \<and>
     evictionPolicy nc' = evictionPolicy nc \<and> evictionMaxSize nc' = evictionMaxSize nc"

definition forgets :: "'v near_cache \<Rightarrow> 'v near_cache \<Rightarrow> bool" where
  "forgets nc nc' \<longleftrightarrow> cache_wf nc' \<and> records nc' = records nc \<and> same_config nc nc' \<and>
     keyed_abs (store nc') \<subseteq>\<^sub>m keyed_abs (store nc) \<and> hitCount nc' = hitCount nc \<and> missCount nc' = missCount nc"

lemma forgets_refl: "cache_wf nc \<Longrightarrow> forgets nc nc"
  by (simp add: forgets_def same_config_def)

lemma forgets_trans: "forgets a b \<Longrightarrow> forgets b c \<Longrightarrow> forgets a c"
  by (auto simp: forgets_def same_config_def intro: map_le_trans)

lemma forgets_wf: "forgets nc nc' \<Longrightarrow> cache_wf nc'"
  by (simp add: forgets_def)

lemma forgets_entry: "forgets nc nc' \<Longrightarrow> entry nc' x = None \<or> entry nc' x = entry nc x"
  by (auto simp: forgets_def entry_def map_le_def dom_def)

lemma wf_record:
  assumes "cache_wf nc" "i < length (records nc)"
  shows "payload (rec_key (records nc ! i)) \<noteq> None" "status_ok (reservationCounter nc) (status (records nc ! i))"
proof -
  have "records nc ! i \<in> set (records nc)" using assms(2) by (rule nth_mem)
  then show "payload (rec_key (records nc ! i)) \<noteq> None" "status_ok (reservationCounter nc) (status (records nc ! i))"
    using assms(1) unfolding cache_wf_def record_ok_def by blast+
qed

lemma wf_lookup:
  "cache_wf nc \<Longrightarrow> keyed_abs (store nc) x = Some i \<Longrightarrow> i < length (records nc) \<and> body (rec_key (records nc ! i)) = x"
  by (simp add: cache_wf_def)

lemma store_get_eq: "cache_wf nc \<Longrightarrow> payload k \<noteq> None \<Longrightarrow> store_get k nc = (Inr (keyed_abs (store nc) (body k)), nc)"
  using get_law [of "store nc" k] by (simp add: store_get_def cache_wf_def del: not_None_eq)

subsection \<open>Deletion, eviction and expiry\<close>

lemma store_delete_forgets:
  assumes "cache_wf nc" "payload k \<noteq> None"
  shows "\<exists>nc'. store_delete k nc = (Inr (keyed_abs (store nc) (body k) \<noteq> None), nc') \<and> forgets nc nc' \<and>
    keyed_abs (store nc') = (keyed_abs (store nc))(body k := None) \<and>
    evictionCandidatePool nc' = evictionCandidatePool nc"
proof -
  obtain m where m: "map_delete k (store nc) = Inr (keyed_abs (store nc) (body k) \<noteq> None, m)" "keyed_inv m"
    "keyed_abs m = (keyed_abs (store nc))(body k := None)"
    using del_law [of "store nc" k] assms by (auto simp: cache_wf_def)
  have "cache_wf (nc\<lparr>store := m\<rparr>)"
    using assms(1) m(2,3) by (auto simp: cache_wf_def)
  then show ?thesis
    using m by (auto simp: store_delete_def forgets_def same_config_def map_le_def)
qed

text \<open>A change that touches none of the fields of \<open>forgets\<close>.\<close>

lemma forgets_counts:
  "forgets nc nc' \<Longrightarrow> forgets nc (nc'\<lparr>expiredCount := n\<rparr>)" "forgets nc nc' \<Longrightarrow> forgets nc (nc'\<lparr>evictedCount := n\<rparr>)"
  by (auto simp: forgets_def same_config_def cache_wf_def)

lemma forgets_pool:
  "forgets nc nc' \<Longrightarrow> (\<And>i. i \<in> set is \<Longrightarrow> i < length (records nc)) \<Longrightarrow> forgets nc (nc'\<lparr>evictionCandidatePool := is\<rparr>)"
  by (auto simp: forgets_def same_config_def cache_wf_def)

lemma expireRecord_forgets:
  assumes "cache_wf nc" "payload k \<noteq> None"
  shows "\<exists>nc'. expireRecord k nc = (Inr (), nc') \<and> forgets nc nc' \<and> evictionCandidatePool nc' = evictionCandidatePool nc"
  using store_delete_forgets [OF assms] by (auto simp: expireRecord_def bindS_def modS_def intro: forgets_counts)

lemma evictRecord_forgets:
  assumes "cache_wf nc" "payload k \<noteq> None"
  shows "\<exists>nc'. evictRecord k nc = (Inr (), nc') \<and> forgets nc nc' \<and> evictionCandidatePool nc' = evictionCandidatePool nc"
  using store_delete_forgets [OF assms] by (auto simp: evictRecord_def bindS_def modS_def intro: forgets_counts)

lemma filterExpired_forgets:
  assumes "cache_wf nc" "i < length (records nc)"
  shows "\<exists>b nc'. filterExpiredRecord now i nc = (Inr b, nc') \<and> forgets nc nc' \<and>
    evictionCandidatePool nc' = evictionCandidatePool nc"
  using expireRecord_forgets [OF assms(1) wf_record(1) [OF assms]] forgets_refl [OF assms(1)]
  by (auto simp: filterExpiredRecord_def op_simps)

lemma filterCandidates_forgets:
  assumes "cache_wf nc" "\<And>i. i \<in> set is \<Longrightarrow> i < length (records nc)"
  shows "\<exists>js nc'. filterCandidates now is nc = (Inr js, nc') \<and> set js \<subseteq> set is \<and> forgets nc nc' \<and>
    evictionCandidatePool nc' = evictionCandidatePool nc"
  using assms
proof (induction "is" arbitrary: nc)
  case Nil
  then show ?case using forgets_refl by (auto simp: op_simps)
next
  case (Cons i "is")
  obtain b nc1 where 1: "filterExpiredRecord now i nc = (Inr b, nc1)" "forgets nc nc1"
      "evictionCandidatePool nc1 = evictionCandidatePool nc"
    using filterExpired_forgets [OF Cons.prems(1) Cons.prems(2) [OF list.set_intros(1)]] by blast
  have "cache_wf nc1" "records nc1 = records nc" using 1(2) by (simp_all add: forgets_def)
  then obtain js nc2 where 2: "filterCandidates now is nc1 = (Inr js, nc2)" "set js \<subseteq> set is" "forgets nc1 nc2"
      "evictionCandidatePool nc2 = evictionCandidatePool nc1"
    using Cons.IH [of nc1] Cons.prems(2) by fastforce
  then show ?case using 1 forgets_trans [OF 1(2) 2(3)] by (auto simp: op_simps)
qed

lemma shuffle_from_set:
  assumes "\<And>i. 0 < i \<Longrightarrow> pk i < i" "n \<le> length xs"
  shows "mset (shuffle_from pk n xs) = mset xs"
  using assms(2)
proof (induction n arbitrary: xs)
  case (Suc n)
  have "pk (Suc n) < length xs" using assms(1) [of "Suc n"] Suc.prems by simp
  then show ?case using Suc by (simp add: Let_def mset_swap)
qed simp

lemma shuffle_set: "env_ok env \<Longrightarrow> set (shuffleArray (pick env) xs) = set xs"
  using mset_eq_setD [OF shuffle_from_set [of "pick env" "length xs" xs]]
  by (simp add: shuffleArray_def env_ok_def)

lemma sort_set: "env_ok env \<Longrightarrow> set (sortCandidates env nc cs) = set cs"
  using mset_eq_setD [of "random_order env cs" cs]
  by (simp add: sortCandidates_def env_ok_def split: eviction_policy.splits)

lemma set_js_slice: "set (js_slice xs a b) \<subseteq> set xs"
  by (auto simp: js_slice_def Let_def dest: in_set_takeD in_set_dropD)

lemma candidate_valid:
  assumes "cache_wf nc" "i \<in> set (map_values (store nc))"
  shows "i < length (records nc)"
proof -
  have "i \<in> ran (keyed_abs (store nc))" using assms store.vals_law [of "store nc"] by (simp add: cache_wf_def)
  then show ?thesis using assms(1) by (auto simp: ran_def dest: wf_lookup)
qed

lemma recompute_forgets:
  assumes "env_ok env" "cache_wf nc"
  shows "\<exists>n nc'. recomputeEvictionPool env now nc = (Inr n, nc') \<and> forgets nc nc'"
proof -
  let ?new = "js_slice (shuffleArray (pick env) (map_values (store nc))) 0 (evictionSamplingCount nc)"
  have new: "i < length (records nc)" if "i \<in> set ?new" for i
    using candidate_valid [OF assms(2)] subsetD [OF set_js_slice that] unfolding shuffle_set [OF assms(1)] .
  obtain js nc1 where 1: "filterCandidates now ?new nc = (Inr js, nc1)" "set js \<subseteq> set ?new" "forgets nc nc1"
      "evictionCandidatePool nc1 = evictionCandidatePool nc"
    using filterCandidates_forgets [OF assms(2) new] by blast
  let ?pool = "js_slice (sortCandidates env nc1 (evictionCandidatePool nc1 @ js)) 0 (evictionSamplingPoolSize nc1)"
  have "i < length (records nc)" if "i \<in> set ?pool" for i
  proof -
    have "i \<in> set (evictionCandidatePool nc) \<union> set js"
      using subsetD [OF set_js_slice that] unfolding sort_set [OF assms(1)] 1(4) set_append .
    then show ?thesis using assms(2) new 1(2) by (auto simp: cache_wf_def)
  qed
  then have "forgets nc (nc1\<lparr>evictionCandidatePool := ?pool\<rparr>)" by (rule forgets_pool [OF 1(3)])
  moreover have "recomputeEvictionPool env now nc =
      (if int (length ?new) - int (length js) > 0 then (Inr (int (length ?new) - int (length js)), nc1)
       else (Inr 0, nc1\<lparr>evictionCandidatePool := ?pool\<rparr>))"
    using 1(1) by (simp add: recomputeEvictionPool_def Let_def op_simps)
  ultimately show ?thesis using 1(3) by (metis (no_types))
qed

lemma evictFirst_forgets:
  assumes "cache_wf nc"
  shows "\<exists>nc'. (evictFirst nc = (Inr (), nc') \<or> evictFirst nc = (Inl TypeError, nc')) \<and> forgets nc nc'"
proof (cases "evictionCandidatePool nc")
  case Nil
  then show ?thesis using forgets_refl [OF assms] by (simp add: evictFirst_def)
next
  case (Cons i "is")
  then have pool: "\<And>j. j \<in> set (i # is) \<Longrightarrow> j < length (records nc)" using assms by (auto simp: cache_wf_def)
  obtain nc1 where 1: "evictRecord (rec_key (records nc ! i)) nc = (Inr (), nc1)" "forgets nc nc1"
    using evictRecord_forgets [OF assms wf_record(1) [OF assms]] pool by fastforce
  show ?thesis
    using 1(1) forgets_pool [OF 1(2), of "is"] pool Cons by (simp add: evictFirst_def op_simps)
qed

lemma doEviction_forgets:
  assumes "env_ok env" "cache_wf nc"
  shows "\<exists>nc'. (doEvictionIfRequired env now nc = (Inr (), nc') \<or> doEvictionIfRequired env now nc = (Inl TypeError, nc')) \<and>
    forgets nc nc'"
proof (cases "isEvictionRequired nc")
  case True
  obtain n nc1 where 1: "recomputeEvictionPool env now nc = (Inr n, nc1)" "forgets nc nc1"
    using recompute_forgets [OF assms] by blast
  show ?thesis
    using True 1 evictFirst_forgets [OF forgets_wf [OF 1(2)]]
    by (auto simp: doEvictionIfRequired_def op_simps intro: forgets_trans)
qed (use forgets_refl [OF assms(2)] in \<open>simp add: doEvictionIfRequired_def\<close>)

subsection \<open>Changes of a record\<close>

lemma upd_record_wf:
  assumes "cache_wf nc" "i < length (records nc)" "rec_key (f (records nc ! i)) = rec_key (records nc ! i)"
    and "status_ok (reservationCounter nc) (status (f (records nc ! i)))"
  shows "cache_wf (upd_record i f nc)"
proof -
  have "record_ok (reservationCounter nc) (f (records nc ! i))"
    using assms(3,4) wf_record(1) [OF assms(1,2)] unfolding record_ok_def by simp
  then have "record_ok (reservationCounter nc) r" if "r \<in> set ((records nc)[i := f (records nc ! i)])" for r
    using subsetD [OF set_update_subset_insert that] assms(1) unfolding cache_wf_def by blast
  moreover have "rec_key ((records nc)[i := f (records nc ! i)] ! j) = rec_key (records nc ! j)" for j
    using assms(2,3) by (cases "j = i") simp_all
  ultimately show ?thesis using assms(1) unfolding cache_wf_def upd_record_def by simp
qed

lemma upd_record_entry:
  assumes "cache_wf nc" "keyed_abs (store nc) x = Some i"
  shows "entry (upd_record i f nc) y =
    (if y = x then Some (rec_value (f (records nc ! i)), long_val (status (f (records nc ! i)))) else entry nc y)"
proof (cases "keyed_abs (store nc) y = Some i")
  case True
  then show ?thesis using wf_lookup [OF assms] wf_lookup [OF assms(1) True] assms(2)
    by (simp add: entry_def upd_record_def)
next
  case False
  then have "y \<noteq> x" using assms(2) by auto
  then show ?thesis using False by (cases "keyed_abs (store nc) y") (auto simp: entry_def upd_record_def)
qed

lemma upd_record_config [simp]:
  "same_config nc (upd_record i f nc)" "hitCount (upd_record i f nc) = hitCount nc"
  "missCount (upd_record i f nc) = missCount nc" "length (records (upd_record i f nc)) = length (records nc)"
  "store (upd_record i f nc) = store nc" "inMemoryFormat (upd_record i f nc) = inMemoryFormat nc"
  "reservationCounter (upd_record i f nc) = reservationCounter nc" "detecting (upd_record i f nc) = detecting nc"
  by (simp_all add: upd_record_def same_config_def)

lemma entry_at: "keyed_abs (store nc) x = Some i \<Longrightarrow>
    entry nc x = Some (rec_value (records nc ! i), long_val (status (records nc ! i)))"
  by (simp add: entry_def)

lemma entry_none: "entry nc x = None \<longleftrightarrow> keyed_abs (store nc) x = None"
  by (simp add: entry_def)

lemma entry_counts [simp]:
  "entry (nc\<lparr>missCount := n\<rparr>) = entry nc" "entry (nc\<lparr>hitCount := n\<rparr>) = entry nc"
  "cache_wf (nc\<lparr>missCount := n\<rparr>) = cache_wf nc" "cache_wf (nc\<lparr>hitCount := n\<rparr>) = cache_wf nc"
  "same_config a (nc\<lparr>missCount := n\<rparr>) = same_config a nc" "same_config a (nc\<lparr>hitCount := n\<rparr>) = same_config a nc"
  by (simp_all add: entry_def cache_wf_def same_config_def fun_eq_iff)

text \<open>Both forms of a value depend on the in-memory format only.\<close>

lemma forms_cong:
  "inMemoryFormat nc' = inMemoryFormat nc \<Longrightarrow> stored_form env nc' = stored_form env nc"
  "inMemoryFormat nc' = inMemoryFormat nc \<Longrightarrow> returned_form env nc' = returned_form env nc"
  by (simp_all add: stored_form_def returned_form_def fun_eq_iff)

subsection \<open>Lookup\<close>

lemma forget_miss:
  assumes "forgets nc nc1" "miss nc1 = (r, nc')"
  shows "cache_wf nc'" "same_config nc nc'" "entry nc' x = None \<or> entry nc' x = entry nc x" "r = Inr None"
    "hitCount nc' + missCount nc' = hitCount nc + missCount nc + 1"
  using assms forgets_entry [OF assms(1), of x] by (auto simp: miss_def forgets_def)

lemma get_ready_found:
  assumes "cache_wf nc" "payload k \<noteq> None" "keyed_abs (store nc) (body k) = Some i"
    and "hit = upd_record i (\<lambda>r. hitRecord (setAccessTime now r)) nc" "hit' = hit\<lparr>hitCount := hitCount hit + 1\<rparr>"
  shows "get_ready env h now k nc =
    (case (if detecting nc then isStaleRead (longs env) h (records nc ! i) else Inr False) of
       Inl e \<Rightarrow> (Inl e, nc)
     | Inr stale \<Rightarrow>
         if stale then bindS (store_delete k) (\<lambda>_. miss) nc
         else if isExpired now (maxIdleSeconds nc) (records nc ! i) then bindS (expireRecord k) (\<lambda>_. miss) nc
         else (returned_form env hit' (rec_value (records hit' ! i)), hit'))"
  unfolding get_ready_def bindS_def [of "store_get k"] store_get_eq [OF assms(1,2)] assms(3-5)
  by (cases "if detecting nc then isStaleRead (longs env) h (records nc ! i) else Inr False")
    (simp_all add: bindS_def [of "liftR x" for x] bindS_def [of "modS x" for x] liftR_def modS_def)

lemma get_ready_effect:
  assumes wf: "cache_wf nc" and k: "payload k \<noteq> None" and get: "get_ready env h now k nc = (r, nc')"
  shows "cache_wf nc' \<and> same_config nc nc' \<and> (\<forall>x. entry nc' x = None \<or> entry nc' x = entry nc x) \<and>
    (\<forall>v. r = Inr (Some v) \<longrightarrow>
       (\<exists>w st. entry nc (body k) = Some (w, st) \<and> returned_form env nc w = Inr (Some v))) \<and>
    (\<forall>v. r = Inr v \<longrightarrow> hitCount nc' + missCount nc' = hitCount nc + missCount nc + 1)"
proof (cases "keyed_abs (store nc) (body k)")
  case None
  then have "miss nc = (r, nc')" using get store_get_eq [OF wf k] by (simp add: get_ready_def bindS_def)
  then show ?thesis using forget_miss [OF forgets_refl [OF wf]] by blast
next
  case (Some i)
  let ?stale = "if detecting nc then isStaleRead (longs env) h (records nc ! i) else Inr False"
  obtain nc1 where del: "store_delete k nc = (Inr True, nc1)" "forgets nc nc1"
    using store_delete_forgets [OF wf k] Some by auto
  obtain nc2 where ex: "expireRecord k nc = (Inr (), nc2)" "forgets nc nc2"
    using expireRecord_forgets [OF wf k] by blast
  let ?hit = "upd_record i (\<lambda>r. hitRecord (setAccessTime now r)) nc"
  let ?nc = "?hit\<lparr>hitCount := hitCount ?hit + 1\<rparr>"
  note eq = get [unfolded get_ready_found [OF wf k Some refl refl]]
  show ?thesis
  proof (cases ?stale)
    case (Inl e)
    then have "r = Inl e" "nc' = nc" using eq by simp_all
    then show ?thesis using wf by (simp add: same_config_def)
  next
    case (Inr stale)
    consider "stale" | "\<not> stale" "isExpired now (maxIdleSeconds nc) (records nc ! i)"
      | "\<not> stale" "\<not> isExpired now (maxIdleSeconds nc) (records nc ! i)" by blast
    then show ?thesis
    proof cases
      case 1
      then have "miss nc1 = (r, nc')" using eq Inr del(1) by (simp add: bindS_def)
      then show ?thesis using forget_miss [OF del(2)] by blast
    next
      case 2
      then have "miss nc2 = (r, nc')" using eq Inr ex(1) by (simp add: bindS_def)
      then show ?thesis using forget_miss [OF ex(2)] by blast
    next
      case 3
      then have "(r, nc') = (returned_form env ?nc (rec_value (records ?nc ! i)), ?nc)"
        using eq [symmetric] Inr by (simp only: sum.case if_False)
      then have r: "r = returned_form env ?nc (rec_value (records ?nc ! i))" "nc' = ?nc" by blast+
      note i = wf_lookup [OF wf Some]
      have hit: "cache_wf ?hit" using wf_record(2) [OF wf] i
        by (intro upd_record_wf [OF wf]) (simp_all add: hitRecord_def setAccessTime_def)
      have e: "entry ?hit x = entry nc x" for x
        using upd_record_entry [OF wf Some] entry_at [OF Some] by (simp add: hitRecord_def setAccessTime_def)
      have "rec_value (records ?nc ! i) = rec_value (records nc ! i)"
        using i by (simp add: upd_record_def hitRecord_def setAccessTime_def)
      moreover have "returned_form env ?nc = returned_form env nc" by (rule forms_cong(2)) simp
      ultimately have "r = returned_form env nc (rec_value (records nc ! i))" using r(1) by simp
      then show ?thesis unfolding r(2) using hit e entry_at [OF Some] by simp
    qed
  qed
qed

subsection \<open>Invalidation\<close>

lemma invalidate_effect:
  assumes "cache_wf nc" "payload k \<noteq> None"
  shows "\<exists>nc'. invalidate k nc = (Inr (), nc') \<and> cache_wf nc' \<and> same_config nc nc' \<and>
    entry nc' = (entry nc)(body k := None)"
proof -
  obtain nc' where nc': "store_delete k nc = (Inr (keyed_abs (store nc) (body k) \<noteq> None), nc')" "forgets nc nc'"
      "keyed_abs (store nc') = (keyed_abs (store nc))(body k := None)"
    using store_delete_forgets [OF assms] by blast
  then have "entry nc' = (entry nc)(body k := None)"
    by (simp add: entry_def forgets_def fun_eq_iff)
  then show ?thesis using nc'(1,2) by (simp add: invalidate_def op_simps forgets_def)
qed

lemma clear_effect:
  assumes "cache_wf nc"
  shows "cache_wf (cache_clear nc)" "same_config nc (cache_clear nc)" "entry (cache_clear nc) = (\<lambda>_. None)"
proof -
  have "map_clear (store nc) = new_keyed_map" by (simp add: map_clear_def new_keyed_map_def)
  then show "cache_wf (cache_clear nc)" "same_config nc (cache_clear nc)" "entry (cache_clear nc) = (\<lambda>_. None)"
    using assms by (simp_all add: cache_clear_def cache_wf_def same_config_def entry_def fun_eq_iff)
qed

subsection \<open>Reservation and publication\<close>

lemma read_permitted: "long_laws L \<Longrightarrow> long_val (READ_PERMITTED L) = -3" "long_laws L \<Longrightarrow> long_val (NOT_RESERVED L) = -1"
  using long_lawsD(1) [of L] by (simp_all add: READ_PERMITTED_def NOT_RESERVED_def)

text \<open>A new record for a key.\<close>

lemma add_record:
  assumes "cache_wf nc" "payload k \<noteq> None" "rec_key dr = k" "status_ok (reservationCounter nc) (status dr)"
  shows "\<exists>nc'. bindS (alloc_record dr) (\<lambda>i. bindS (store_set k i) (\<lambda>_. retS y)) nc = (Inr y, nc') \<and> cache_wf nc' \<and>
    same_config nc nc' \<and> entry nc' = (entry nc)(body k \<mapsto> (rec_value dr, long_val (status dr)))"
proof -
  let ?i = "length (records nc)"
  obtain m where m: "map_set k ?i (store nc) = Inr m" "keyed_inv m" "keyed_abs m = (keyed_abs (store nc))(body k \<mapsto> ?i)"
    using put_law [of "store nc" k ?i] assms(1,2) by (auto simp: cache_wf_def)
  let ?nc = "nc\<lparr>records := records nc @ [dr], store := m\<rparr>"
  have "record_ok (reservationCounter nc) dr" using assms(2-4) by (simp add: record_ok_def)
  then have "cache_wf ?nc"
    using assms(1,3) m(2,3) by (auto simp: cache_wf_def nth_append less_Suc_eq)
  moreover have "entry ?nc x = ((entry nc)(body k \<mapsto> (rec_value dr, long_val (status dr)))) x" for x
    using m(3) wf_lookup [OF assms(1), of x] by (cases "keyed_abs (store nc) x") (auto simp: entry_def nth_append)
  ultimately show ?thesis
    using m(1) by (auto simp: op_simps alloc_record_def store_set_def same_config_def)
qed

definition reserved :: "'v near_cache \<Rightarrow> 'v near_cache \<Rightarrow> bool" where
  "reserved nc nc' \<longleftrightarrow> long_val (reservationCounter nc') = long_val (reservationCounter nc) + 1 \<and>
     inMemoryFormat nc' = inMemoryFormat nc \<and> ready nc' = ready nc"

lemma reserved_config: "reserved nc nc1 \<Longrightarrow> same_config nc1 nc2 \<Longrightarrow> reserved nc nc2"
  by (simp add: reserved_def same_config_def)

lemma counter_step:
  assumes "long_laws L" "cache_wf nc" "long_val (reservationCounter nc) < 2 ^ 62"
    and "nc1 = nc\<lparr>reservationCounter := long_add L (reservationCounter nc) (long_fromNumber L 1)\<rparr>"
  shows "cache_wf nc1" "reserved nc nc1" "entry nc1 = entry nc" "store nc1 = store nc" "records nc1 = records nc"
    "status_ok (reservationCounter nc1) (reservationCounter nc)"
proof -
  have c: "long_val (reservationCounter nc1) = long_val (reservationCounter nc) + 1"
    using assms by (simp add: long_lawsD [OF assms(1)] wrap64_id cache_wf_def)
  have "record_ok (reservationCounter nc) r \<Longrightarrow> record_ok (reservationCounter nc1) r" for r :: "'a data_record"
    using c by (auto simp: record_ok_def status_ok_def)
  then show "cache_wf nc1" using assms(2,4) c by (auto simp: cache_wf_def)
  show "reserved nc nc1" "entry nc1 = entry nc" "store nc1 = store nc" "records nc1 = records nc"
    using c assms(4) by (simp_all add: reserved_def entry_def fun_eq_iff)
  show "status_ok (reservationCounter nc1) (reservationCounter nc)"
    using c assms(2) by (simp add: status_ok_def cache_wf_def)
qed

text \<open>The record of a key after an attempt to reserve it.\<close>

definition reserve_outcome :: "('v option \<times> int) option \<Rightarrow> int \<Rightarrow> js_long res \<Rightarrow> ('v option \<times> int) option \<Rightarrow> bool" where
  "reserve_outcome e c r e' \<longleftrightarrow>
     (case r of
        Inl _ \<Rightarrow> e' = None \<or> e' = e
      | Inr rid \<Rightarrow> long_val rid = c \<and> (\<exists>w. e' = Some (w, c) \<and> (w = None \<or> e = Some (w, -3))) \<or>
                   long_val rid = -1 \<and> e' = e)"

definition reserve_effect :: "'v near_cache \<Rightarrow> heap_data \<Rightarrow> js_long res \<Rightarrow> 'v near_cache \<Rightarrow> bool" where
  "reserve_effect nc k r nc' \<longleftrightarrow> cache_wf nc' \<and> reserved nc nc' \<and>
     (\<forall>x. x \<noteq> body k \<longrightarrow> entry nc' x = None \<or> entry nc' x = entry nc x) \<and>
     reserve_outcome (entry nc (body k)) (long_val (reservationCounter nc)) r (entry nc' (body k))"

lemma tryReserve_new:
  assumes env: "env_ok env" and wf: "cache_wf nc" and k: "payload k \<noteq> None"
    and c: "long_val (reservationCounter nc) < 2 ^ 62" and none: "keyed_abs (store nc) (body k) = None"
    and res: "tryReserveForUpdate env now k nc = (r, nc')"
  shows "reserve_effect nc k r nc'"
proof -
  let ?L = "longs env" and ?id = "reservationCounter nc"
  have L: "long_laws ?L" using env by (simp add: env_ok_def)
  define nc1 where "nc1 = nc\<lparr>reservationCounter := long_add ?L ?id (long_fromNumber ?L 1)\<rparr>"
  note c1 = counter_step [OF L wf c nc1_def]
  note unf = tryReserveForUpdate_def bindS_def store_get_eq [OF wf k] none nextReservationId_def nc1_def [symmetric]
  obtain nc2 where 2: "doEvictionIfRequired env now nc1 = (Inr (), nc2) \<or> doEvictionIfRequired env now nc1 = (Inl TypeError, nc2)"
      "forgets nc1 nc2"
    using doEviction_forgets [OF env c1(1)] by blast
  define dr where "dr = snd (casStatus ?L (READ_PERMITTED ?L) ?id
    (newDataRecord ?L now k (None :: 'a option) None (timeToLiveSeconds nc2)))"
  have dr: "rec_key dr = k" "rec_value dr = None" "status dr = ?id"
    by (simp_all add: dr_def casStatus_def newDataRecord_def Let_def long_lawsD [OF L])
  have conf: "reserved nc nc2" "reservationCounter nc2 = reservationCounter nc1"
    using 2(2) reserved_config [OF c1(2)] by (simp_all add: forgets_def same_config_def)
  obtain nc3 where 3: "bindS (alloc_record dr) (\<lambda>i. bindS (store_set k i) (\<lambda>_. retS ?id)) nc2 = (Inr ?id, nc3)"
      "cache_wf nc3" "same_config nc2 nc3" "entry nc3 = (entry nc2)(body k \<mapsto> (None, long_val ?id))"
    using add_record [OF forgets_wf [OF 2(2)] k dr(1), of ?id] c1(6) dr conf(2) by auto
  have fe: "entry nc2 x = None \<or> entry nc2 x = entry nc x" for x
    using forgets_entry [OF 2(2), of x] c1(3) by simp
  from 2(1) show ?thesis
  proof
    assume "doEvictionIfRequired env now nc1 = (Inr (), nc2)"
    then have "tryReserveForUpdate env now k nc = bindS (alloc_record dr) (\<lambda>i. bindS (store_set k i) (\<lambda>_. retS ?id)) nc2"
      by (simp add: unf Let_def dr_def)
    then have "(r, nc') = (Inr ?id, nc3)" using res 3(1) by simp
    then show ?thesis
      using 3 reserved_config [OF conf(1) 3(3)] fe by (auto simp: reserve_effect_def reserve_outcome_def)
  next
    assume "doEvictionIfRequired env now nc1 = (Inl TypeError, nc2)"
    then have "(r, nc') = (Inl TypeError, nc2)" using res by (simp add: unf)
    then show ?thesis
      using forgets_wf [OF 2(2)] conf(1) fe fe [of "body k"] by (auto simp: reserve_effect_def reserve_outcome_def)
  qed
qed

lemma tryReserve_existing:
  assumes env: "env_ok env" and wf: "cache_wf nc" and k: "payload k \<noteq> None"
    and c: "long_val (reservationCounter nc) < 2 ^ 62" and some: "keyed_abs (store nc) (body k) = Some i"
    and res: "tryReserveForUpdate env now k nc = (r, nc')"
  shows "reserve_effect nc k r nc'"
proof -
  let ?L = "longs env" and ?id = "reservationCounter nc"
  have L: "long_laws ?L" using env by (simp add: env_ok_def)
  define nc1 where "nc1 = nc\<lparr>reservationCounter := long_add ?L ?id (long_fromNumber ?L 1)\<rparr>"
  note c1 = counter_step [OF L wf c nc1_def]
  note i = wf_lookup [OF wf some]
  let ?cas = "casStatus ?L (READ_PERMITTED ?L) ?id (records nc ! i)"
  let ?nc = "upd_record i (\<lambda>_. snd ?cas) nc1"
  have cas: "fst ?cas \<longleftrightarrow> long_val (status (records nc ! i)) = -3"
    "snd ?cas = (if fst ?cas then (records nc ! i)\<lparr>status := ?id\<rparr> else records nc ! i)"
    by (auto simp: casStatus_def long_lawsD [OF L] read_permitted [OF L])
  have eq: "(r, nc') = (Inr (if fst ?cas then ?id else NOT_RESERVED ?L), ?nc)"
    using res c1(5) by (auto simp: tryReserveForUpdate_def op_simps store_get_eq [OF wf k] some nextReservationId_def
        cas_record_def nc1_def [symmetric] split: prod.splits)
  have wf': "cache_wf ?nc"
    using wf_record(2) [OF c1(1), of i] i c1(5,6) cas(2) by (intro upd_record_wf [OF c1(1)]) simp_all
  have e: "entry ?nc y = (if y = body k then Some (rec_value (snd ?cas), long_val (status (snd ?cas))) else entry nc y)" for y
    using upd_record_entry [OF c1(1), of "body k" i "\<lambda>_. snd ?cas" y] some c1(3,4) by simp
  have "reserved nc ?nc" by (rule reserved_config [OF c1(2)]) simp
  then show ?thesis
    using eq wf' e cas entry_at [OF some] read_permitted [OF L] by (auto simp: reserve_effect_def reserve_outcome_def)
qed

lemma tryReserve_effect:
  assumes "env_ok env" "cache_wf nc" "payload k \<noteq> None" "long_val (reservationCounter nc) < 2 ^ 62"
    and "tryReserveForUpdate env now k nc = (r, nc')"
  shows "reserve_effect nc k r nc'"
  using assms by (cases "keyed_abs (store nc) (body k)") (blast intro: tryReserve_new tryReserve_existing)+

lemma initInvalidation_effect:
  assumes "cache_wf nc" "i < length (records nc)" "initInvalidationMetadata L h i nc = (r, nc')"
  shows "cache_wf nc' \<and> same_config nc nc' \<and> entry nc' = entry nc \<and> store nc' = store nc"
proof -
  have "nc' = nc \<or> (\<exists>sq u. nc' = upd_record i (\<lambda>r. r\<lparr>invalidationSequence := sq, rec_uuid := u\<rparr>) nc)"
    using assms(3) by (auto simp: initInvalidationMetadata_def split: if_splits sum.splits option.splits)
  then show ?thesis
  proof
    assume "nc' = nc"
    then show ?thesis using assms(1) by (simp add: same_config_def)
  next
    assume "\<exists>sq u. nc' = upd_record i (\<lambda>r. r\<lparr>invalidationSequence := sq, rec_uuid := u\<rparr>) nc"
    then obtain sq u where nc': "nc' = upd_record i (\<lambda>r. r\<lparr>invalidationSequence := sq, rec_uuid := u\<rparr>) nc" by blast
    have "cache_wf nc'" unfolding nc' using wf_record(2) [OF assms(1,2)] by (intro upd_record_wf [OF assms(1,2)]) simp_all
    moreover have "rec_value (records nc' ! j) = rec_value (records nc ! j) \<and> status (records nc' ! j) = status (records nc ! j)"
      for j unfolding nc' using assms(2) by (cases "j = i") (simp_all add: upd_record_def)
    then have "entry nc' = entry nc" by (simp add: entry_def nc' fun_eq_iff)
    ultimately show ?thesis by (simp add: nc')
  qed
qed

text \<open>The record of a key after the publication of a value with a reservation id.\<close>

definition publish_outcome ::
    "'v option res \<Rightarrow> int \<Rightarrow> ('v option \<times> int) option \<Rightarrow> ('v option \<times> int) option \<Rightarrow> bool" where
  "publish_outcome stored rid e e' \<longleftrightarrow>
     (case e of
        None \<Rightarrow> e' = None
      | Some (w, st) \<Rightarrow>
          if st = rid then (case stored of Inl _ \<Rightarrow> e' = Some (w, -3) | Inr v \<Rightarrow> e' = Some (v, -3)) else e' = e)"

lemma tryPublish_effect:
  assumes env: "env_ok env" and wf: "cache_wf nc" and k: "payload k \<noteq> None"
    and pub: "tryPublishReserved env h now k v rid nc = (r, nc')"
  shows "cache_wf nc' \<and> same_config nc nc' \<and> (\<forall>x. x \<noteq> body k \<longrightarrow> entry nc' x = entry nc x) \<and>
    publish_outcome (stored_form env nc v) (long_val rid) (entry nc (body k)) (entry nc' (body k))"
proof (cases "keyed_abs (store nc) (body k)")
  case None
  then have "nc' = nc" using pub by (simp add: tryPublishReserved_def op_simps store_get_eq [OF wf k])
  then show ?thesis using None wf by (simp add: publish_outcome_def entry_none [THEN iffD2] same_config_def)
next
  case (Some i)
  let ?L = "longs env"
  have L: "long_laws ?L" using env by (simp add: env_ok_def)
  note i = wf_lookup [OF wf Some]
  let ?r = "records nc ! i"
  have e0: "entry nc (body k) = Some (rec_value ?r, long_val (status ?r))" by (rule entry_at [OF Some])
  show ?thesis
  proof (cases "long_val (status ?r) = long_val rid")
    case False
    then have "casStatus ?L rid (READ_PERMITTED ?L) ?r = (False, ?r)" by (simp add: casStatus_def long_lawsD [OF L])
    then have "nc' = upd_record i (\<lambda>_. ?r) nc"
      using pub by (simp add: tryPublishReserved_def op_simps store_get_eq [OF wf k] Some cas_record_def)
    moreover have "upd_record i (\<lambda>_. ?r) nc = nc" by (simp add: upd_record_def)
    ultimately show ?thesis using wf e0 False by (simp add: publish_outcome_def same_config_def)
  next
    case True
    let ?nc1 = "upd_record i (\<lambda>_. ?r\<lparr>status := READ_PERMITTED ?L\<rparr>) nc"
    have "casStatus ?L rid (READ_PERMITTED ?L) ?r = (True, ?r\<lparr>status := READ_PERMITTED ?L\<rparr>)"
      using True by (simp add: casStatus_def long_lawsD [OF L])
    then have pub1: "bindS (liftR (stored_form env nc v)) (\<lambda>v.
        bindS (modS (upd_record i (\<lambda>r. setCreationTime now None (r\<lparr>rec_value := v\<rparr>)))) (\<lambda>_.
        bindS (initInvalidationMetadata ?L h i) (\<lambda>_. retS None))) ?nc1 = (r, nc')"
      using pub forms_cong(1) [of ?nc1 nc env]
      by (simp add: tryPublishReserved_def bindS_def [of "store_get k"] store_get_eq [OF wf k] Some
          bindS_def [of "cas_record L j a b" for L j a b] cas_record_def)
    have rp: "status_ok c (READ_PERMITTED ?L)" for c using read_permitted [OF L] by (simp add: status_ok_def)
    have wf1: "cache_wf ?nc1" using i rp by (intro upd_record_wf [OF wf]) simp_all
    have e1: "entry ?nc1 y = (if y = body k then Some (rec_value ?r, -3) else entry nc y)" for y
      using upd_record_entry [OF wf Some, of "\<lambda>_. ?r\<lparr>status := READ_PERMITTED ?L\<rparr>" y] read_permitted [OF L] by simp
    show ?thesis
    proof (cases "stored_form env nc v")
      case (Inl e)
      then have "nc' = ?nc1" using pub1 by (simp add: op_simps)
      then show ?thesis using wf1 e1 e0 Inl True by (simp add: publish_outcome_def)
    next
      case (Inr w)
      let ?nc2 = "upd_record i (\<lambda>r. setCreationTime now None (r\<lparr>rec_value := w\<rparr>)) ?nc1"
      obtain r' where init: "initInvalidationMetadata ?L h i ?nc2 = (r', nc')"
        using pub1 Inr by (cases "initInvalidationMetadata ?L h i ?nc2") (auto simp: op_simps split: sum.splits)
      have some1: "keyed_abs (store ?nc1) (body k) = Some i" using Some by simp
      have st: "records ?nc1 ! i = ?r\<lparr>status := READ_PERMITTED ?L\<rparr>" using i by (simp add: upd_record_def)
      have wf2: "cache_wf ?nc2" using i rp st by (intro upd_record_wf [OF wf1]) (simp_all add: setCreationTime_def Let_def)
      have e2: "entry ?nc2 y = (if y = body k then Some (w, -3) else entry nc y)" for y
        using upd_record_entry [OF wf1 some1, of "\<lambda>r. setCreationTime now None (r\<lparr>rec_value := w\<rparr>)" y] e1 [of y] st
          read_permitted [OF L] by (simp add: setCreationTime_def Let_def)
      have "same_config nc ?nc2" by (simp add: same_config_def upd_record_def)
      then show ?thesis
        using initInvalidation_effect [OF wf2 _ init] i e2 e0 Inr True
        by (auto simp: publish_outcome_def same_config_def)
    qed
  qed
qed

end
