(* ===== verification/NearCachedMap.thy ===== *)
theory NearCachedMap
  imports NearCacheProofs
begin

section \<open>Maps with a near cache (src/src/proxy/NearCachedMapProxy.ts)\<close>

text \<open>
  The proxy of a map with a near cache, together with the cluster it talks to. A read that misses the cache
  reserves the key, fetches the value from the cluster and publishes it with the id of its reservation; a write
  invalidates the key when the cluster has answered; invalidation events report the writes of other clients. The
  continuations of all calls interleave: every one of them is a step. The cluster is a function from keys to
  values, \<open>null\<close> being one of them; a call is a number.
\<close>

datatype 'v get_phase = Missed | Reserving js_long | Fetched js_long "'v option"

record 'v map_state =
  cache :: "'v near_cache"
  remote :: "heap_data \<Rightarrow> 'v"
  calls :: "nat \<Rightarrow> (heap_data \<times> 'v get_phase) option"
  writes :: "heap_data multiset"
  clears :: nat
  events :: "heap_data option multiset"

subsection \<open>The steps of the proxy\<close>

text \<open>\<open>getInternal\<close>: the lookup, the reservation, the answer of the cluster and the publication.\<close>

definition get_lookup :: "'v cache_env \<Rightarrow> repairing_handler \<Rightarrow> int \<Rightarrow> nat \<Rightarrow> heap_data \<Rightarrow> 'v map_state \<Rightarrow>
    'v option res \<times> 'v map_state" where
  "get_lookup env h now c k s =
     (case get_ready env h now k (cache s) of
        (r, nc) \<Rightarrow> (r, s\<lparr>cache := nc, calls := (if r = Inr None then (calls s)(c \<mapsto> (k, Missed)) else calls s)\<rparr>))"

definition get_reserve :: "'v cache_env \<Rightarrow> int \<Rightarrow> nat \<Rightarrow> heap_data \<Rightarrow> 'v map_state \<Rightarrow> 'v map_state" where
  "get_reserve env now c k s =
     (case tryReserveForUpdate env now k (cache s) of
        (Inl e, nc) \<Rightarrow> s\<lparr>cache := nc, calls := (calls s)(c := None)\<rparr>
      | (Inr rid, nc) \<Rightarrow> s\<lparr>cache := nc, calls := (calls s)(c \<mapsto> (k, Reserving rid))\<rparr>)"

definition get_fetch :: "nat \<Rightarrow> heap_data \<Rightarrow> js_long \<Rightarrow> 'v map_state \<Rightarrow> 'v map_state" where
  "get_fetch c k rid s = s\<lparr>calls := (calls s)(c \<mapsto> (k, Fetched rid (Some (remote s k))))\<rparr>"

definition get_publish :: "'v cache_env \<Rightarrow> repairing_handler \<Rightarrow> int \<Rightarrow> nat \<Rightarrow> heap_data \<Rightarrow> js_long \<Rightarrow> 'v option \<Rightarrow>
    'v map_state \<Rightarrow> 'v map_state" where
  "get_publish env h now c k rid v s =
     (case tryPublishReserved env h now k v rid (cache s) of
        (r, nc) \<Rightarrow> s\<lparr>cache := nc, calls := (calls s)(c := None)\<rparr>)"

definition invalidateCacheEntryAndReturn :: "heap_data \<Rightarrow> 'r \<Rightarrow> ('v near_cache, 'r) op" where
  "invalidateCacheEntryAndReturn k retVal = bindS (invalidate k) (\<lambda>_. retS retVal)"

definition invalidateCacheAndReturn :: "'r \<Rightarrow> ('v near_cache, 'r) op" where
  "invalidateCacheAndReturn retVal nc = (Inr retVal, cache_clear nc)"

text \<open>
  The writing operations: \<open>super.putInternal(..).then(oldValue => this.invalidateCacheEntryAndReturn(..))\<close>, and in
  the same way \<open>set\<close>, \<open>putIfAbsent\<close>, \<open>putTransient\<close>, \<open>tryPut\<close>, \<open>remove\<close>, \<open>tryRemove\<close>, \<open>replace\<close>,
  \<open>replaceIfSame\<close>, \<open>evict\<close>, \<open>executeOnKey\<close> and \<open>setTtl\<close>. When the call is rejected, the
  continuation does not run.
\<close>

definition putInternal :: "heap_data \<Rightarrow> 'r res \<Rightarrow> ('v near_cache, 'r) op" where
  "putInternal k result = bindS (liftR result) (invalidateCacheEntryAndReturn k)"

definition clear_map :: "'r res \<Rightarrow> ('v near_cache, 'r) op" where
  "clear_map result = bindS (liftR result) invalidateCacheAndReturn"

text \<open>
  The steps. Local writes reach the cluster before they are answered, \<open>deleteInternal\<close> invalidates before it sends
  the request as well, and so does \<open>evictAll\<close>; events of other clients are handled with whatever handler and
  metadata there are.
\<close>

inductive map_step :: "'v cache_env \<Rightarrow> heap_data set \<Rightarrow> 'v map_state \<Rightarrow> 'v map_state \<Rightarrow> bool"
  for env :: "'v cache_env" and K :: "heap_data set" where
  lookup: "k \<in> K \<Longrightarrow> ready (cache s) = ReadyResolved \<Longrightarrow> calls s c = None \<Longrightarrow>
    map_step env K s (snd (get_lookup env h now c k s))"
| reserve: "calls s c = Some (k, Missed) \<Longrightarrow> long_val (reservationCounter (cache s)) < 2 ^ 62 \<Longrightarrow>
    map_step env K s (get_reserve env now c k s)"
| fetch: "calls s c = Some (k, Reserving rid) \<Longrightarrow> map_step env K s (get_fetch c k rid s)"
| publish: "calls s c = Some (k, Fetched rid v) \<Longrightarrow> map_step env K s (get_publish env h now c k rid v s)"
| failed: "calls s c = Some (k, p) \<Longrightarrow> map_step env K s (s\<lparr>calls := (calls s)(c := None)\<rparr>)"
| local_write: "k \<in> K \<Longrightarrow> map_step env K s (s\<lparr>remote := (remote s)(k := v), writes := add_mset k (writes s)\<rparr>)"
| written: "k \<in># writes s \<Longrightarrow>
    map_step env K s (s\<lparr>cache := snd (putInternal k (Inr (x :: 'v option)) (cache s)), writes := writes s - {#k#}\<rparr>)"
| before_delete: "k \<in> K \<Longrightarrow> map_step env K s (s\<lparr>cache := snd (invalidate k (cache s))\<rparr>)"
| clear: "map_step env K s (s\<lparr>remote := f, clears := Suc (clears s)\<rparr>)"
| cleared: "clears s = Suc n \<Longrightarrow>
    map_step env K s (s\<lparr>cache := snd (clear_map (Inr ()) (cache s)), clears := n\<rparr>)"
| foreign_write: "k \<in> K \<Longrightarrow>
    map_step env K s (s\<lparr>remote := (remote s)(k := v), events := add_mset (Some k) (events s)\<rparr>)"
| foreign_clear: "map_step env K s (s\<lparr>remote := f, events := add_mset None (events s)\<rparr>)"
| event: "e \<in># events s \<Longrightarrow> \<not> uuid_equals (longs env) (localUuid h) source \<Longrightarrow>
    handle_invalidation (longs env) nd e source u sq h (cache s) = (r, h', nc) \<Longrightarrow>
    map_step env K s (s\<lparr>cache := nc, events := events s - {#e#}\<rparr>)"
| ready: "map_step env K s (s\<lparr>cache := setReady False (cache s)\<rparr>)"
| detect: "map_step env K s (s\<lparr>cache := setStaleReadDetector (cache s)\<rparr>)"

inductive map_reach :: "'v cache_env \<Rightarrow> heap_data set \<Rightarrow> 'v map_state \<Rightarrow> 'v map_state \<Rightarrow> bool"
  for env :: "'v cache_env" and K :: "heap_data set" and s0 :: "'v map_state" where
  start: "map_reach env K s0 s0"
| step: "map_reach env K s0 s \<Longrightarrow> map_step env K s s' \<Longrightarrow> map_reach env K s0 s'"

definition initial_map :: "long_ops \<Rightarrow> int \<Rightarrow> near_cache_config \<Rightarrow> (heap_data \<Rightarrow> 'v) \<Rightarrow> 'v map_state" where
  "initial_map L now cfg f = \<lparr>cache = newNearCache L now cfg, remote = f, calls = (\<lambda>_. None), writes = {#},
     clears = 0, events = {#}\<rparr>"

subsection \<open>The interface of the near cache\<close>

text \<open>
  What the proxy relies on. A cache holds for the body of a key a value and a status; a status that is not negative is
  the id of a reservation. Every operation may forget entries. A reservation takes the next id, publication stores
  the value only where the status is the id it was given, and invalidation removes the entry.
\<close>

definition phase_id :: "'v get_phase \<Rightarrow> js_long option" where
  "phase_id p = (case p of Missed \<Rightarrow> None | Reserving rid \<Rightarrow> Some rid | Fetched rid v \<Rightarrow> Some rid)"

definition coherent :: "heap_data set \<Rightarrow> (byte list \<Rightarrow> ('v option \<times> int) option) \<Rightarrow> int \<Rightarrow>
    ('v option \<Rightarrow> 'v option res) \<Rightarrow> (heap_data \<Rightarrow> 'v) \<Rightarrow> (nat \<Rightarrow> (heap_data \<times> 'v get_phase) option) \<Rightarrow>
    (heap_data \<Rightarrow> bool) \<Rightarrow> bool" where
  "coherent K e n stored rem cs dirty \<longleftrightarrow>
     (\<forall>c k p rid. cs c = Some (k, p) \<longrightarrow> k \<in> K \<and> (phase_id p = Some rid \<longrightarrow> -1 \<le> long_val rid \<and> long_val rid < n)) \<and>
     (\<forall>k \<in> K. \<forall>w st. e (body k) = Some (Some w, st) \<longrightarrow> dirty k \<or> stored (Some (rem k)) = Inr (Some w)) \<and>
     (\<forall>c k rid v w. cs c = Some (k, Fetched rid v) \<longrightarrow> e (body k) = Some (w, long_val rid) \<longrightarrow>
        dirty k \<or> v = Some (rem k))"

lemma coherentI:
  assumes "\<And>c k p rid. cs c = Some (k, p) \<Longrightarrow> k \<in> K \<and> (phase_id p = Some rid \<longrightarrow> -1 \<le> long_val rid \<and> long_val rid < n)"
    and "\<And>k w st. k \<in> K \<Longrightarrow> e (body k) = Some (Some w, st) \<Longrightarrow> \<not> dirty k \<Longrightarrow> stored (Some (rem k)) = Inr (Some w)"
    and "\<And>c k rid v w. cs c = Some (k, Fetched rid v) \<Longrightarrow> e (body k) = Some (w, long_val rid) \<Longrightarrow> \<not> dirty k \<Longrightarrow> v = Some (rem k)"
  shows "coherent K e n stored rem cs dirty"
  unfolding coherent_def using assms by blast

lemma coherentD:
  assumes "coherent K e n stored rem cs dirty"
  shows "cs c = Some (k, p) \<Longrightarrow> k \<in> K"
    and "cs c = Some (k, p) \<Longrightarrow> phase_id p = Some rid \<Longrightarrow> -1 \<le> long_val rid \<and> long_val rid < n"
    and "k \<in> K \<Longrightarrow> e (body k) = Some (Some w, st) \<Longrightarrow> \<not> dirty k \<Longrightarrow> stored (Some (rem k)) = Inr (Some w)"
    and "cs c = Some (k, Fetched rid v) \<Longrightarrow> e (body k) = Some (w', long_val rid) \<Longrightarrow> \<not> dirty k \<Longrightarrow> v = Some (rem k)"
  using assms unfolding coherent_def by blast+

text \<open>Forgetting entries, calls and dirt of keys without an entry does no harm, and neither does dirt.\<close>

lemma coherent_weaken:
  assumes "coherent K e n stored rem cs dirty" and "\<And>x. e' x = None \<or> e' x = e x"
    and "\<And>c. cs' c = None \<or> cs' c = cs c" and "\<And>k. dirty k \<Longrightarrow> dirty' k \<or> e' (body k) = None" and "n \<le> n'"
  shows "coherent K e' n' stored rem cs' dirty'"
proof (rule coherentI)
  fix c k p rid assume "cs' c = Some (k, p)"
  then have "cs c = Some (k, p)" using assms(3) [of c] by simp
  then show "k \<in> K \<and> (phase_id p = Some rid \<longrightarrow> -1 \<le> long_val rid \<and> long_val rid < n')"
    using coherentD(1,2) [OF assms(1)] assms(5) by fastforce
next
  fix k w st assume *: "k \<in> K" "e' (body k) = Some (Some w, st)" "\<not> dirty' k"
  then have "e (body k) = Some (Some w, st)" "\<not> dirty k" using assms(2) [of "body k"] assms(4) [of k] by auto
  then show "stored (Some (rem k)) = Inr (Some w)" using coherentD(3) [OF assms(1)] *(1) by blast
next
  fix c k rid v w assume *: "cs' c = Some (k, Fetched rid v)" "e' (body k) = Some (w, long_val rid)" "\<not> dirty' k"
  then have "cs c = Some (k, Fetched rid v)" "e (body k) = Some (w, long_val rid)" "\<not> dirty k"
    using assms(2) [of "body k"] assms(3) [of c] assms(4) [of k] by auto
  then show "v = Some (rem k)" by (rule coherentD(4) [OF assms(1)])
qed

lemma coherent_call:
  assumes "coherent K e n stored rem cs dirty" "k \<in> K"
    and "\<And>rid. phase_id p = Some rid \<Longrightarrow> -1 \<le> long_val rid \<and> long_val rid < n"
    and "\<And>rid v w. p = Fetched rid v \<Longrightarrow> e (body k) = Some (w, long_val rid) \<Longrightarrow> \<not> dirty k \<Longrightarrow> v = Some (rem k)"
  shows "coherent K e n stored rem (cs(c \<mapsto> (k, p))) dirty"
proof (rule coherentI)
  fix c' k' p' rid assume "(cs(c \<mapsto> (k, p))) c' = Some (k', p')"
  then show "k' \<in> K \<and> (phase_id p' = Some rid \<longrightarrow> -1 \<le> long_val rid \<and> long_val rid < n)"
    using assms(2,3) coherentD(1,2) [OF assms(1)] by (auto split: if_splits)
next
  fix k' w st assume "k' \<in> K" "e (body k') = Some (Some w, st)" "\<not> dirty k'"
  then show "stored (Some (rem k')) = Inr (Some w)" by (rule coherentD(3) [OF assms(1)])
next
  fix c' k' rid v w
  assume "(cs(c \<mapsto> (k, p))) c' = Some (k', Fetched rid v)" "e (body k') = Some (w, long_val rid)" "\<not> dirty k'"
  then show "v = Some (rem k')" using assms(4) coherentD(4) [OF assms(1)] by (auto split: if_splits)
qed

lemma reserve_outcomeD:
  assumes "reserve_outcome e n r e'"
  shows "e' = Some (w, st) \<Longrightarrow> st \<noteq> n \<Longrightarrow> e = Some (w, st)"
    and "e' = Some (Some v, st) \<Longrightarrow> \<exists>st. e = Some (Some v, st)"
    and "r = Inr rid \<Longrightarrow> long_val rid = n \<or> long_val rid = -1"
  using assms by (auto simp: reserve_outcome_def split: sum.splits)

locale reservation_cache =
  fixes wf :: "'c \<Rightarrow> bool"
    and ent :: "'c \<Rightarrow> byte list \<Rightarrow> ('v option \<times> int) option"
    and counter :: "'c \<Rightarrow> int"
    and stored :: "'c \<Rightarrow> 'v option \<Rightarrow> 'v option res"
    and get_rel :: "heap_data \<Rightarrow> 'c \<Rightarrow> 'c \<Rightarrow> bool"
    and reserve_rel :: "heap_data \<Rightarrow> 'c \<Rightarrow> js_long res \<Rightarrow> 'c \<Rightarrow> bool"
    and publish_rel :: "heap_data \<Rightarrow> 'v option \<Rightarrow> js_long \<Rightarrow> 'c \<Rightarrow> 'c \<Rightarrow> bool"
    and invalidate_rel :: "heap_data \<Rightarrow> 'c \<Rightarrow> 'c \<Rightarrow> bool"
    and clear_rel :: "'c \<Rightarrow> 'c \<Rightarrow> bool"
  assumes get_law: "wf s \<Longrightarrow> payload k \<noteq> None \<Longrightarrow> get_rel k s s' \<Longrightarrow>
      wf s' \<and> counter s' = counter s \<and> stored s' = stored s \<and> (\<forall>x. ent s' x = None \<or> ent s' x = ent s x)"
    and reserve_law: "wf s \<Longrightarrow> payload k \<noteq> None \<Longrightarrow> reserve_rel k s r s' \<Longrightarrow>
      wf s' \<and> counter s' = counter s + 1 \<and> stored s' = stored s \<and>
      (\<forall>x. x \<noteq> body k \<longrightarrow> ent s' x = None \<or> ent s' x = ent s x) \<and> reserve_outcome (ent s (body k)) (counter s) r (ent s' (body k))"
    and publish_law: "wf s \<Longrightarrow> payload k \<noteq> None \<Longrightarrow> publish_rel k v rid s s' \<Longrightarrow>
      wf s' \<and> counter s' = counter s \<and> stored s' = stored s \<and> (\<forall>x. x \<noteq> body k \<longrightarrow> ent s' x = ent s x) \<and>
      publish_outcome (stored s v) (long_val rid) (ent s (body k)) (ent s' (body k))"
    and invalidate_law: "wf s \<Longrightarrow> payload k \<noteq> None \<Longrightarrow> invalidate_rel k s s' \<Longrightarrow>
      wf s' \<and> counter s' = counter s \<and> stored s' = stored s \<and> ent s' = (ent s)(body k := None)"
    and clear_law: "wf s \<Longrightarrow> clear_rel s s' \<Longrightarrow>
      wf s' \<and> counter s' = counter s \<and> stored s' = stored s \<and> ent s' = (\<lambda>_. None)"
begin

text \<open>
  Coherence: the value of an entry is the one of the cluster unless the key is dirty, that is, an invalidation of it is
  still to come; and so is the value a call has fetched, as long as the entry carries the id of its
  reservation.
\<close>

lemma coherent_get:
  assumes "coherent K (ent s) (counter s) (stored s) rem cs dirty" "wf s" "payload k \<noteq> None" "get_rel k s s'" "k \<in> K"
    and "cs' = cs \<or> cs' = cs(c \<mapsto> (k, Missed))"
  shows "coherent K (ent s') (counter s') (stored s') rem cs' dirty"
proof -
  note g = get_law [OF assms(2-4)]
  have "coherent K (ent s') (counter s') (stored s') rem cs dirty"
    using coherent_weaken [OF assms(1), of "ent s'" cs dirty "counter s'"] g by simp
  then show ?thesis
    using assms(5,6) coherent_call [of K "ent s'" "counter s'" "stored s'" rem cs dirty k Missed c] by (auto simp: phase_id_def)
qed

lemma coherent_reserve:
  assumes "coherent K (ent s) (counter s) (stored s) rem cs dirty" "wf s" "payload k \<noteq> None" "reserve_rel k s r s'"
    and "k \<in> K" "0 \<le> counter s"
    and "cs' = (case r of Inl _ \<Rightarrow> cs(c := None) | Inr rid \<Rightarrow> cs(c \<mapsto> (k, Reserving rid)))"
  shows "coherent K (ent s') (counter s') (stored s') rem cs' dirty"
proof -
  have g: "counter s' = counter s + 1" "stored s' = stored s"
      "reserve_outcome (ent s (body k)) (counter s) r (ent s' (body k))"
    and other: "x \<noteq> body k \<Longrightarrow> ent s' x = None \<or> ent s' x = ent s x" for x
    using reserve_law [OF assms(2-4)] by blast+
  have old: "ent s x = Some (w, st)" if "ent s' x = Some (w, st)" "st \<noteq> counter s" for x w st
    using that other [of x] reserve_outcomeD(1) [OF g(3)] by (cases "x = body k") auto
  have val: "\<exists>st. ent s x = Some (Some w, st)" if "ent s' x = Some (Some w, st)" for x w st
    using that other [of x] reserve_outcomeD(2) [OF g(3)] by (cases "x = body k") (simp, metis option.distinct(1))
  have co: "coherent K (ent s') (counter s') (stored s') rem cs dirty"
  proof (rule coherentI)
    fix c' k' p rid assume "cs c' = Some (k', p)"
    then show "k' \<in> K \<and> (phase_id p = Some rid \<longrightarrow> -1 \<le> long_val rid \<and> long_val rid < counter s')"
      using coherentD(1,2) [OF assms(1)] g(1) by fastforce
  next
    fix k' w st assume *: "k' \<in> K" "ent s' (body k') = Some (Some w, st)" "\<not> dirty k'"
    then show "stored s' (Some (rem k')) = Inr (Some w)"
      using coherentD(3) [OF assms(1) *(1)] val [OF *(2)] g(2) by auto
  next
    fix c' k' rid v w assume *: "cs c' = Some (k', Fetched rid v)" "ent s' (body k') = Some (w, long_val rid)" "\<not> dirty k'"
    have "long_val rid \<noteq> counter s" using coherentD(2) [OF assms(1) *(1), of rid] by (simp add: phase_id_def)
    then show "v = Some (rem k')" using coherentD(4) [OF assms(1) *(1) old [OF *(2)]] *(3) by blast
  qed
  show ?thesis
  proof (cases r)
    case (Inl e)
    then show ?thesis using coherent_weaken [OF co, of "ent s'" cs' dirty "counter s'"] assms(7) by simp
  next
    case (Inr rid)
    then have "-1 \<le> long_val rid \<and> long_val rid < counter s'" using reserve_outcomeD(3) [OF g(3)] g(1) assms(6) by auto
    then show ?thesis using coherent_call [OF co assms(5), of "Reserving rid" c] Inr assms(7) by (simp add: phase_id_def)
  qed
qed

lemma coherent_publish:
  assumes "coherent K (ent s) (counter s) (stored s) rem cs dirty" "wf s" "payload k \<noteq> None" "publish_rel k v rid s s'"
    and "cs c = Some (k, Fetched rid v)" "inj_on body K"
  shows "coherent K (ent s') (counter s') (stored s') rem (cs(c := None)) dirty"
proof (rule coherentI)
  note g = publish_law [OF assms(2-4)]
  fix c' k' p rid assume "(cs(c := None)) c' = Some (k', p)"
  then show "k' \<in> K \<and> (phase_id p = Some rid \<longrightarrow> -1 \<le> long_val rid \<and> long_val rid < counter s')"
    using coherentD(1,2) [OF assms(1)] g by (auto split: if_splits)
next
  note g = publish_law [OF assms(2-4)]
  note D = coherentD [OF assms(1)]
  fix k' w st assume *: "k' \<in> K" "ent s' (body k') = Some (Some w, st)" "\<not> dirty k'"
  show "stored s' (Some (rem k')) = Inr (Some w)"
  proof (cases "(\<exists>st. ent s (body k') = Some (Some w, st))")
    case True
    then show ?thesis using D(3) [OF *(1)] *(3) g by auto
  next
    case False
    then have "body k' = body k" using g *(2) by metis
    then have k': "k' = k" using assms(6) *(1) D(1) [OF assms(5)] by (auto dest: inj_onD)
    obtain w0 where "ent s (body k) = Some (w0, long_val rid)" "stored s v = Inr (Some w)"
      using g *(2) False k' by (auto simp: publish_outcome_def split: option.splits if_splits sum.splits)
    then show ?thesis using D(4) [OF assms(5)] *(3) k' g by auto
  qed
next
  note g = publish_law [OF assms(2-4)]
  fix c' k' rid' v' w
  assume *: "(cs(c := None)) c' = Some (k', Fetched rid' v')" "ent s' (body k') = Some (w, long_val rid')" "\<not> dirty k'"
  then have c': "cs c' = Some (k', Fetched rid' v')" by (simp split: if_splits)
  have "long_val rid' \<noteq> -3" using coherentD(2) [OF assms(1) c', of rid'] by (simp add: phase_id_def)
  then have "ent s (body k') = Some (w, long_val rid')"
    using g *(2) by (cases "body k' = body k") (auto simp: publish_outcome_def split: option.splits if_splits sum.splits)
  then show "v' = Some (rem k')" using coherentD(4) [OF assms(1) c'] *(3) by blast
qed

lemma coherent_invalidate:
  assumes "coherent K (ent s) (counter s) (stored s) rem cs dirty" "wf s" "payload k \<noteq> None" "invalidate_rel k s s'"
    and "\<And>k'. dirty k' \<Longrightarrow> dirty' k' \<or> k' = k"
  shows "coherent K (ent s') (counter s') (stored s') rem cs dirty'"
proof -
  note g = invalidate_law [OF assms(2-4)]
  have "coherent K (ent s') (counter s') (stored s) rem cs dirty'"
  proof (rule coherent_weaken [OF assms(1)])
    show "\<And>k'. dirty k' \<Longrightarrow> dirty' k' \<or> ent s' (body k') = None" using assms(5) g by fastforce
  qed (use g in auto)
  then show ?thesis using g by simp
qed

lemma coherent_clear:
  assumes "coherent K (ent s) (counter s) (stored s) rem cs dirty" "wf s" "clear_rel s s'"
  shows "coherent K (ent s') (counter s') (stored s') rem cs dirty'"
  using coherent_weaken [OF assms(1), of "ent s'" cs dirty' "counter s'"] clear_law [OF assms(2,3)] by auto

end

subsection \<open>The near cache provides it\<close>

text \<open>The operations as relations on a near cache together with its environment.\<close>

type_synonym 'v cache_ctx = "'v cache_env \<times> 'v near_cache"

fun ctx_wf :: "'v cache_ctx \<Rightarrow> bool" where
  "ctx_wf (env, nc) \<longleftrightarrow> env_ok env \<and> cache_wf nc"

fun ctx_entry :: "'v cache_ctx \<Rightarrow> byte list \<Rightarrow> ('v option \<times> int) option" where
  "ctx_entry (env, nc) = entry nc"

fun ctx_counter :: "'v cache_ctx \<Rightarrow> int" where
  "ctx_counter (env, nc) = long_val (reservationCounter nc)"

fun ctx_stored :: "'v cache_ctx \<Rightarrow> 'v option \<Rightarrow> 'v option res" where
  "ctx_stored (env, nc) = stored_form env nc"

fun ctx_get :: "heap_data \<Rightarrow> 'v cache_ctx \<Rightarrow> 'v cache_ctx \<Rightarrow> bool" where
  "ctx_get k (env, nc) (env', nc') \<longleftrightarrow> env' = env \<and> (\<exists>h now r. get_ready env h now k nc = (r, nc'))"

fun ctx_reserve :: "heap_data \<Rightarrow> 'v cache_ctx \<Rightarrow> js_long res \<Rightarrow> 'v cache_ctx \<Rightarrow> bool" where
  "ctx_reserve k (env, nc) r (env', nc') \<longleftrightarrow> env' = env \<and> long_val (reservationCounter nc) < 2 ^ 62 \<and>
     (\<exists>now. tryReserveForUpdate env now k nc = (r, nc'))"

fun ctx_publish :: "heap_data \<Rightarrow> 'v option \<Rightarrow> js_long \<Rightarrow> 'v cache_ctx \<Rightarrow> 'v cache_ctx \<Rightarrow> bool" where
  "ctx_publish k v rid (env, nc) (env', nc') \<longleftrightarrow> env' = env \<and> (\<exists>h now r. tryPublishReserved env h now k v rid nc = (r, nc'))"

fun ctx_invalidate :: "heap_data \<Rightarrow> 'v cache_ctx \<Rightarrow> 'v cache_ctx \<Rightarrow> bool" where
  "ctx_invalidate k (env, nc) (env', nc') \<longleftrightarrow> env' = env \<and> nc' = snd (invalidate k nc)"

fun ctx_clear :: "'v cache_ctx \<Rightarrow> 'v cache_ctx \<Rightarrow> bool" where
  "ctx_clear (env, nc) (env', nc') \<longleftrightarrow> env' = env \<and> nc' = cache_clear nc"

lemma same_configD:
  "same_config nc nc' \<Longrightarrow> stored_form env nc' = stored_form env nc \<and> reservationCounter nc' = reservationCounter nc"
  using forms_cong(1) [of nc' nc env] by (simp add: same_config_def)

interpretation near: reservation_cache ctx_wf ctx_entry ctx_counter ctx_stored ctx_get ctx_reserve ctx_publish
  ctx_invalidate ctx_clear
proof (unfold_locales, goal_cases)
  case (1 s k s')
  obtain env nc nc' where s: "s = (env, nc)" "s' = (env, nc')" using 1(3) by (cases s; cases s') simp
  obtain h now r where g: "get_ready env h now k nc = (r, nc')" using 1(3) s by auto
  show ?case using get_ready_effect [OF _ 1(2) g] same_configD [of nc nc' env] 1(1) s by simp
next
  case (2 s k r s')
  obtain env nc nc' where s: "s = (env, nc)" "s' = (env, nc')" using 2(3) by (cases s; cases s') simp
  obtain now where g: "tryReserveForUpdate env now k nc = (r, nc')" "long_val (reservationCounter nc) < 2 ^ 62"
    using 2(3) s by auto
  show ?case
    using tryReserve_effect [OF _ _ 2(2) g(2,1)] forms_cong(1) [of nc' nc env] 2(1) s
    by (simp add: reserve_effect_def reserved_def)
next
  case (3 s k v rid s')
  obtain env nc nc' where s: "s = (env, nc)" "s' = (env, nc')" using 3(3) by (cases s; cases s') simp
  obtain h now r where g: "tryPublishReserved env h now k v rid nc = (r, nc')" using 3(3) s by auto
  show ?case using tryPublish_effect [OF _ _ 3(2) g] same_configD [of nc nc' env] 3(1) s by simp
next
  case (4 s k s')
  obtain env nc where s: "s = (env, nc)" "s' = (env, snd (invalidate k nc))" using 4(3) by (cases s; cases s') simp
  obtain nc' where "invalidate k nc = (Inr (), nc')" "cache_wf nc'" "same_config nc nc'" "entry nc' = (entry nc)(body k := None)"
    using invalidate_effect [OF _ 4(2), of nc] 4(1) s by auto
  then show ?case using same_configD [of nc nc' env] 4(1) s by simp
next
  case (5 s s')
  obtain env nc where s: "s = (env, nc)" "s' = (env, cache_clear nc)" using 5(2) by (cases s; cases s') simp
  show ?case using clear_effect [of nc] same_configD [of nc "cache_clear nc" env] 5(1) s by simp
qed

subsection \<open>Every reachable state is coherent\<close>

text \<open>A key is dirty while an invalidation of it is still to come.\<close>

definition dirty :: "'v map_state \<Rightarrow> heap_data \<Rightarrow> bool" where
  "dirty s k \<longleftrightarrow> k \<in># writes s \<or> 0 < clears s \<or> Some k \<in># events s \<or> None \<in># events s"

definition map_inv :: "'v cache_env \<Rightarrow> heap_data set \<Rightarrow> 'v map_state \<Rightarrow> bool" where
  "map_inv env K s \<longleftrightarrow> cache_wf (cache s) \<and> (\<forall>k. k \<in># writes s \<or> Some k \<in># events s \<longrightarrow> k \<in> K) \<and>
     coherent K (entry (cache s)) (long_val (reservationCounter (cache s))) (stored_form env (cache s)) (remote s) (calls s)
       (dirty s)"

lemma initial_map_inv:
  assumes "long_laws L"
  shows "map_inv env K (initial_map L now cfg f)"
  using long_lawsD(1) [OF assms, of 0]
  by (auto simp: map_inv_def initial_map_def newNearCache_def cache_wf_def coherent_def entry_def)

lemma putInternal_cache: "snd (putInternal k (Inr x) nc) = snd (invalidate k nc)"
  by (cases "invalidate k nc"; cases "fst (invalidate k nc)")
    (simp_all add: putInternal_def invalidateCacheEntryAndReturn_def op_simps)

lemma clear_map_cache: "snd (clear_map (Inr x) nc) = cache_clear nc"
  by (simp add: clear_map_def invalidateCacheAndReturn_def op_simps)

lemma handle_invalidation_cache:
  assumes "\<not> uuid_equals L (localUuid h) source" "handle_invalidation L nd e source u sq h nc = (r, h', nc')"
  shows "nc' = (case e of None \<Rightarrow> cache_clear nc | Some k \<Rightarrow> snd (invalidate k nc))"
  using assms by (cases e; cases "snd (invalidate (the e) nc)")
    (auto simp: handle_invalidation_def Let_def split: sum.splits prod.splits)

lemma entry_flags [simp]:
  "entry (setReady b nc) = entry nc" "entry (setStaleReadDetector nc) = entry nc"
  "cache_wf (setReady b nc) = cache_wf nc" "cache_wf (setStaleReadDetector nc) = cache_wf nc"
  "reservationCounter (setReady b nc) = reservationCounter nc"
  "reservationCounter (setStaleReadDetector nc) = reservationCounter nc"
  "stored_form env (setReady b nc) = stored_form env nc" "stored_form env (setStaleReadDetector nc) = stored_form env nc"
  by (simp_all add: setReady_def setStaleReadDetector_def entry_def cache_wf_def stored_form_def fun_eq_iff)

text \<open>Dirt: adding it is always possible, the writes behind it may change the value of a dirty key.\<close>

lemma coherent_remote:
  assumes "coherent K e n stored rem cs d" and "\<And>k. d k \<Longrightarrow> d' k" and "\<And>k. \<not> d' k \<Longrightarrow> rem' k = rem k"
  shows "coherent K e n stored rem' cs d'"
proof (rule coherentI)
  fix c k p rid assume "cs c = Some (k, p)"
  then show "k \<in> K \<and> (phase_id p = Some rid \<longrightarrow> -1 \<le> long_val rid \<and> long_val rid < n)"
    using coherentD(1,2) [OF assms(1)] by blast
next
  fix k w st assume "k \<in> K" "e (body k) = Some (Some w, st)" "\<not> d' k"
  then show "stored (Some (rem' k)) = Inr (Some w)"
    using coherentD(3) [OF assms(1)] assms(2,3) by metis
next
  fix c k rid v w assume "cs c = Some (k, Fetched rid v)" "e (body k) = Some (w, long_val rid)" "\<not> d' k"
  then show "v = Some (rem' k)" using coherentD(4) [OF assms(1)] assms(2,3) by metis
qed

lemma map_inv_cases:
  assumes "map_inv env K s"
  shows "cache_wf (cache s)" "\<And>k. k \<in># writes s \<Longrightarrow> k \<in> K" "\<And>k. Some k \<in># events s \<Longrightarrow> k \<in> K"
    "coherent K (entry (cache s)) (long_val (reservationCounter (cache s))) (stored_form env (cache s)) (remote s)
       (calls s) (dirty s)"
  using assms by (auto simp: map_inv_def)

lemma step_invalidate:
  assumes "env_ok env" "map_inv env K s" "payload k \<noteq> None" "cache s' = snd (invalidate k (cache s))" "remote s' = remote s"
    and "calls s' = calls s" "writes s' \<subseteq># writes s" "events s' \<subseteq># events s" "\<And>k'. dirty s k' \<Longrightarrow> dirty s' k' \<or> k' = k"
  shows "map_inv env K s'"
proof -
  note i = map_inv_cases [OF assms(2)]
  have wf: "ctx_wf (env, cache s)" and rel: "ctx_invalidate k (env, cache s) (env, cache s')" using assms(1,4) i(1) by simp_all
  show ?thesis
    using near.coherent_invalidate [OF _ wf assms(3) rel assms(9), of K "remote s" "calls s"] i(4)
      near.invalidate_law [OF wf assms(3) rel] i(2,3) assms(5-8)
    by (auto simp: map_inv_def dest: mset_subset_eqD)
qed

lemma step_clear:
  assumes "env_ok env" "map_inv env K s" "cache s' = cache_clear (cache s)" "remote s' = remote s"
    and "calls s' = calls s" "writes s' \<subseteq># writes s" "events s' \<subseteq># events s"
  shows "map_inv env K s'"
proof -
  note i = map_inv_cases [OF assms(2)]
  have wf: "ctx_wf (env, cache s)" and rel: "ctx_clear (env, cache s) (env, cache s')" using assms(1,3) i(1) by simp_all
  show ?thesis
    using near.coherent_clear [OF _ wf rel, of K "remote s" "calls s" "dirty s" "dirty s'"] i(4)
      near.clear_law [OF wf rel] i(2,3) assms(4-7)
    by (auto simp: map_inv_def dest: mset_subset_eqD)
qed

lemma step_remote:
  assumes "map_inv env K s" "cache s' = cache s" "calls s' = calls s"
    and "\<And>k. dirty s k \<Longrightarrow> dirty s' k" "\<And>k. \<not> dirty s' k \<Longrightarrow> remote s' k = remote s k"
    and "\<And>k. k \<in># writes s' \<or> Some k \<in># events s' \<Longrightarrow> k \<in> K"
  shows "map_inv env K s'"
  using map_inv_cases(1) [OF assms(1)] coherent_remote [OF map_inv_cases(4) [OF assms(1)], of "dirty s'" "remote s'"] assms(2-6)
  by (auto simp: map_inv_def)

text \<open>The steps that change the cache and the calls only.\<close>

lemma step_calls:
  assumes "map_inv env K s" "cache_wf (cache s')" "remote s' = remote s" "writes s' = writes s" "clears s' = clears s"
    and "events s' = events s"
    and "coherent K (entry (cache s')) (long_val (reservationCounter (cache s'))) (stored_form env (cache s')) (remote s)
       (calls s') (dirty s)"
  shows "map_inv env K s'"
proof -
  have "dirty s' = dirty s" using assms(4-6) by (simp add: dirty_def fun_eq_iff)
  then show ?thesis using assms map_inv_cases(2,3) [OF assms(1)] by (simp add: map_inv_def)
qed

lemma step_get:
  assumes "env_ok env" "\<And>k. k \<in> K \<Longrightarrow> payload k \<noteq> None" "map_inv env K s" "k \<in> K"
  shows "map_inv env K (snd (get_lookup env h now c k s))"
proof -
  note i = map_inv_cases [OF assms(3)]
  obtain r nc where g: "get_ready env h now k (cache s) = (r, nc)" by fastforce
  let ?cs = "if r = Inr None then (calls s)(c \<mapsto> (k, Missed)) else calls s"
  have wf: "ctx_wf (env, cache s)" and rel: "ctx_get k (env, cache s) (env, nc)" using assms(1) i(1) g by auto
  show ?thesis
    using near.coherent_get [OF _ wf assms(2) [OF assms(4)] rel assms(4), of "remote s" "calls s" "dirty s" ?cs c] i(4) g
      near.get_law [OF wf assms(2) [OF assms(4)] rel]
    by (intro step_calls [OF assms(3)]) (auto simp: get_lookup_def)
qed

lemma step_reserve:
  assumes "env_ok env" "\<And>k. k \<in> K \<Longrightarrow> payload k \<noteq> None" "map_inv env K s" "calls s c = Some (k, Missed)"
    and "long_val (reservationCounter (cache s)) < 2 ^ 62"
  shows "map_inv env K (get_reserve env now c k s)"
proof -
  note i = map_inv_cases [OF assms(3)]
  have k: "k \<in> K" using coherentD(1) [OF i(4) assms(4)] .
  obtain r nc where g: "tryReserveForUpdate env now k (cache s) = (r, nc)" by fastforce
  have wf: "ctx_wf (env, cache s)" and rel: "ctx_reserve k (env, cache s) r (env, nc)" using assms(1,5) i(1) g by auto
  have n: "0 \<le> ctx_counter (env, cache s)" using i(1) by (simp add: cache_wf_def)
  show ?thesis
    using near.coherent_reserve [OF _ wf assms(2) [OF k] rel k n refl, of "remote s" "calls s" "dirty s" c] i(4) g
      near.reserve_law [OF wf assms(2) [OF k] rel]
    by (intro step_calls [OF assms(3)]) (auto simp: get_reserve_def split: sum.splits)
qed

lemma step_publish:
  assumes "env_ok env" "\<And>k. k \<in> K \<Longrightarrow> payload k \<noteq> None" "inj_on body K" "map_inv env K s"
    and "calls s c = Some (k, Fetched rid v)"
  shows "map_inv env K (get_publish env h now c k rid v s)"
proof -
  note i = map_inv_cases [OF assms(4)]
  have k: "k \<in> K" using coherentD(1) [OF i(4) assms(5)] .
  obtain r nc where g: "tryPublishReserved env h now k v rid (cache s) = (r, nc)" by fastforce
  have wf: "ctx_wf (env, cache s)" and rel: "ctx_publish k v rid (env, cache s) (env, nc)" using assms(1) i(1) g by auto
  show ?thesis
    using near.coherent_publish [OF _ wf assms(2) [OF k] rel _ assms(3), of "remote s" "calls s" "dirty s" c] i(4) g assms(5)
      near.publish_law [OF wf assms(2) [OF k] rel]
    by (intro step_calls [OF assms(4)]) (auto simp: get_publish_def)
qed

lemma map_step_inv:
  assumes "map_step env K s s'" "env_ok env" "\<And>k. k \<in> K \<Longrightarrow> payload k \<noteq> None" "inj_on body K" "map_inv env K s"
  shows "map_inv env K s'"
  using assms(1)
proof cases
  case (lookup k c h now)
  then show ?thesis using step_get [OF assms(2,3,5)] by simp
next
  case (reserve c k now)
  then show ?thesis using step_reserve [OF assms(2,3,5)] by simp
next
  case (fetch c k rid)
  have "k \<in> K" "-1 \<le> long_val rid \<and> long_val rid < long_val (reservationCounter (cache s))"
    using coherentD(1,2) [OF map_inv_cases(4) [OF assms(5)] fetch(2)] by (auto simp: phase_id_def)
  then show ?thesis
    using coherent_call [OF map_inv_cases(4) [OF assms(5)], of k "Fetched rid (Some (remote s k))" c] fetch(1)
      map_inv_cases(1) [OF assms(5)]
    by (intro step_calls [OF assms(5)]) (auto simp: get_fetch_def phase_id_def)
next
  case (publish c k rid v h now)
  then show ?thesis using step_publish [OF assms(2-5)] by simp
next
  case (failed c k p)
  then show ?thesis
    using coherent_weaken [OF map_inv_cases(4) [OF assms(5)], of "entry (cache s)" "(calls s)(c := None)" "dirty s"]
      map_inv_cases(1) [OF assms(5)]
    by (intro step_calls [OF assms(5)]) auto
next
  case (local_write k v)
  then show ?thesis using map_inv_cases(2,3) [OF assms(5)]
    by (intro step_remote [OF assms(5)]) (auto simp: dirty_def split: if_splits)
next
  case (written k x)
  then show ?thesis using assms(3) map_inv_cases(2) [OF assms(5)]
    by (intro step_invalidate [OF assms(2,5), of k]) (auto simp: putInternal_cache dirty_def in_diff_count split: if_splits)
next
  case (before_delete k)
  then show ?thesis using assms(3)
    by (intro step_invalidate [OF assms(2,5), of k]) (auto simp: dirty_def)
next
  case (clear f)
  then show ?thesis using map_inv_cases(2,3) [OF assms(5)]
    by (intro step_remote [OF assms(5)]) (auto simp: dirty_def)
next
  case (cleared n)
  then show ?thesis by (intro step_clear [OF assms(2,5)]) (auto simp: clear_map_cache)
next
  case (foreign_write k v)
  then show ?thesis using map_inv_cases(2,3) [OF assms(5)]
    by (intro step_remote [OF assms(5)]) (auto simp: dirty_def split: if_splits)
next
  case (foreign_clear f)
  then show ?thesis using map_inv_cases(2,3) [OF assms(5)]
    by (intro step_remote [OF assms(5)]) (auto simp: dirty_def)
next
  case (event e h source nd u sq r h' nc)
  note nc = handle_invalidation_cache [OF event(3,4)]
  show ?thesis
  proof (cases e)
    case None
    then show ?thesis using event(1) nc by (intro step_clear [OF assms(2,5)]) auto
  next
    case (Some k)
    then show ?thesis using event(1,2) nc assms(3) map_inv_cases(3) [OF assms(5)]
      by (intro step_invalidate [OF assms(2,5), of k]) (auto simp: dirty_def in_diff_count split: if_splits)
  qed
next
  case ready
  then show ?thesis using map_inv_cases(1,4) [OF assms(5)] by (intro step_calls [OF assms(5)]) auto
next
  case detect
  then show ?thesis using map_inv_cases(1,4) [OF assms(5)] by (intro step_calls [OF assms(5)]) auto
qed

lemma map_reach_inv:
  assumes "map_reach env K (initial_map (longs env) now cfg f) s" "env_ok env" "\<And>k. k \<in> K \<Longrightarrow> payload k \<noteq> None" "inj_on body K"
  shows "map_inv env K s"
  using assms(1)
proof (induction rule: map_reach.induct)
  case start
  then show ?case using assms(2) by (intro initial_map_inv) (simp add: env_ok_def)
next
  case (step s s')
  then show ?case using map_step_inv [OF _ assms(2-4)] by blast
qed

text \<open>
  C3. The near cache is coherent, in every interleaving of reads, writes and invalidation events. If no local write of a
  key is unanswered, no local \<open>clear\<close> is, and no invalidation event for the key or for the whole map is on its way,
  then a read that hits the cache returns the current value of the cluster, in the form the cache hands out:
  late publications of values fetched before a write never survive it. The keys in use are assumed to
  differ behind their headers.
\<close>

theorem near_cache_coherent:
  assumes "map_reach env K (initial_map (longs env) t0 cfg f) s" and "env_ok env"
    and "\<forall>k \<in> K. payload k \<noteq> None" and "inj_on body K" and "k \<in> K"
    and "\<not> dirty s k" and "get_lookup env h now c k s = (Inr (Some v), s')"
  shows "\<exists>w. stored_form env (cache s) (Some (remote s k)) = Inr (Some w) \<and>
    returned_form env (cache s) (Some w) = Inr (Some v)"
proof -
  have inv: "map_inv env K s" using map_reach_inv [OF assms(1,2) _ assms(4)] assms(3) by blast
  note i = map_inv_cases [OF inv]
  obtain nc where "get_ready env h now k (cache s) = (Inr (Some v), nc)"
    using assms(7) by (auto simp: get_lookup_def split: prod.splits)
  then obtain w st where w: "entry (cache s) (body k) = Some (w, st)" "returned_form env (cache s) w = Inr (Some v)"
    using get_ready_effect [OF i(1) bspec [OF assms(3,5)]] by blast
  show ?thesis
  proof (cases w)
    case (Some x)
    then show ?thesis using coherentD(3) [OF i(4) assms(5)] w assms(6) by auto
  next
    case None
    then show ?thesis using w(2) assms(2) by (simp add: returned_form_def env_ok_def split: if_splits)
  qed
qed

subsection \<open>A sample run\<close>

text \<open>A read that misses, fetches 7 and publishes it; the next read hits.\<close>

definition sample_env :: "nat cache_env" where
  "sample_env = \<lparr>longs = word_longs, toObjectV = Inr, toDataV = Inr, pick = (\<lambda>i. i - 1), random_order = (\<lambda>xs. xs)\<rparr>"

definition sample_config :: near_cache_config where
  "sample_config = \<lparr>cfg_invalidateOnChange = True, cfg_maxIdleSeconds = 0, cfg_inMemoryFormat = BINARY,
     cfg_timeToLiveSeconds = 0, cfg_evictionPolicy = NONE, cfg_evictionMaxSize = 100, cfg_evictionSamplingCount = 8,
     cfg_evictionSamplingPoolSize = 16\<rparr>"

definition sample_handler :: repairing_handler where
  "sample_handler = newRepairingHandler word_longs [] newPartitionService \<lparr>mostSignificant = long_of 1, leastSignificant = long_of 2\<rparr>"

lemma sample_env_ok: "env_ok sample_env"
  by (simp add: env_ok_def sample_env_def word_longs_laws)

definition sample_reserved :: "heap_data \<Rightarrow> nat keyed_map \<Rightarrow> nat near_cache" where
  "sample_reserved k m = (setReady False (newNearCache word_longs 0 sample_config))\<lparr>missCount := 1,
     reservationCounter := long_of 1, store := m,
     records := [(newDataRecord word_longs 1 k None None 0)\<lparr>status := long_of 0\<rparr>]\<rparr>"

definition sample_published :: "heap_data \<Rightarrow> nat keyed_map \<Rightarrow> nat near_cache" where
  "sample_published k m = (sample_reserved k m)\<lparr>records :=
     [(newDataRecord word_longs 2 k (Some 7) None 0)\<lparr>lastAccessTime := 1\<rparr>]\<rparr>"

lemmas sample_defs = sample_env_def sample_config_def sample_reserved_def setReady_def newNearCache_def

lemma sample_reserve:
  assumes "payload k \<noteq> None" "map_set k 0 new_keyed_map = Inr m"
  shows "tryReserveForUpdate sample_env 1 k ((setReady False (newNearCache word_longs 0 sample_config))\<lparr>missCount := 1\<rparr>)
    = (Inr (long_of 0), sample_reserved k m)"
proof -
  have "map_get k (new_keyed_map :: nat keyed_map) = Inr None" using get_law [OF new_keyed_map_ok(1) assms(1)] by simp
  then show ?thesis
    using assms(2)
    by (simp add: tryReserveForUpdate_def op_simps store_get_def nextReservationId_def doEvictionIfRequired_def Let_def
        isEvictionRequired_def alloc_record_def store_set_def casStatus_def sample_defs word_longs_def newDataRecord_def long_val_of wrap64_def)
qed

lemma sample_publish:
  assumes "map_get k m = Inr (Some 0)"
  shows "tryPublishReserved sample_env sample_handler 2 k (Some 7) (long_of 0) (sample_reserved k m)
    = (Inr None, sample_published k m)"
  using assms
  by (simp add: tryPublishReserved_def op_simps store_get_def cas_record_def casStatus_def upd_record_def stored_form_def
      initInvalidationMetadata_def sample_published_def sample_defs word_longs_def newDataRecord_def setCreationTime_def Let_def)

lemma sample_hit:
  assumes "map_get k m = Inr (Some 0)"
  shows "\<exists>nc. get_ready sample_env sample_handler 3 k (sample_published k m) = (Inr (Some 7), nc)"
  using assms
  by (simp add: get_ready_def op_simps store_get_def isExpired_def upd_record_def returned_form_def sample_published_def
      sample_defs newDataRecord_def setAccessTime_def hitRecord_def)

definition sample_map :: "nat near_cache \<Rightarrow> (nat \<Rightarrow> (heap_data \<times> nat get_phase) option) \<Rightarrow> nat map_state" where
  "sample_map nc cs = \<lparr>cache = nc, remote = (\<lambda>_. 7), calls = cs, writes = {#}, clears = 0, events = {#}\<rparr>"

lemma sample_run:
  assumes k: "payload k \<noteq> None" and m: "map_set k 0 new_keyed_map = Inr m" "map_get k m = Inr (Some 0)"
  shows "map_reach sample_env {k} (initial_map word_longs 0 sample_config (\<lambda>_. 7))
    (sample_map (sample_published k m) Map.empty)"
proof -
  let ?nc = "setReady False (newNearCache word_longs 0 sample_config)" and ?R = "map_reach sample_env {k}"
  let ?s0 = "initial_map word_longs 0 sample_config (\<lambda>_. 7)"
  have none: "map_get k (new_keyed_map :: nat keyed_map) = Inr None" using get_law [OF new_keyed_map_ok(1) k] by simp
  have "?R ?s0 (sample_map ?nc Map.empty)"
    using map_reach.step [OF map_reach.start map_step.ready, of sample_env "{k}" ?s0]
    by (simp add: initial_map_def sample_map_def)
  moreover have "ready ?nc = ReadyResolved" by (simp add: setReady_def newNearCache_def)
  moreover have "snd (get_lookup sample_env sample_handler 1 0 k (sample_map ?nc Map.empty))
      = sample_map (?nc\<lparr>missCount := 1\<rparr>) [0 \<mapsto> (k, Missed)]"
    using none by (simp add: get_lookup_def get_ready_def op_simps store_get_def miss_def sample_map_def setReady_def newNearCache_def)
  ultimately have "?R ?s0 (sample_map (?nc\<lparr>missCount := 1\<rparr>) [0 \<mapsto> (k, Missed)])"
    using map_reach.step [OF _ map_step.lookup, of sample_env "{k}" ?s0 "sample_map ?nc Map.empty" k 0 sample_handler 1]
    by (simp add: sample_map_def)
  moreover have "long_val (reservationCounter (?nc\<lparr>missCount := 1\<rparr>)) < 2 ^ 62"
    by (simp add: setReady_def newNearCache_def word_longs_def long_val_of wrap64_def)
  ultimately have "?R ?s0 (sample_map (sample_reserved k m) [0 \<mapsto> (k, Reserving (long_of 0))])"
    using map_reach.step [OF _ map_step.reserve, of sample_env "{k}" ?s0 "sample_map (?nc\<lparr>missCount := 1\<rparr>) [0 \<mapsto> (k, Missed)]" 0 k 1]
      sample_reserve [OF k m(1)]
    by (simp add: sample_map_def get_reserve_def)
  then have "?R ?s0 (sample_map (sample_reserved k m) [0 \<mapsto> (k, Fetched (long_of 0) (Some 7))])"
    using map_reach.step [OF _ map_step.fetch, of sample_env "{k}" ?s0
        "sample_map (sample_reserved k m) [0 \<mapsto> (k, Reserving (long_of 0))]" 0 k "long_of 0"]
    by (simp add: sample_map_def get_fetch_def)
  then show ?thesis
    using map_reach.step [OF _ map_step.publish, of sample_env "{k}" ?s0
        "sample_map (sample_reserved k m) [0 \<mapsto> (k, Fetched (long_of 0) (Some 7))]" 0 k "long_of 0" "Some 7" sample_handler 2]
      sample_publish [OF m(2)]
    by (simp add: sample_map_def get_publish_def fun_upd_idem)
qed

theorem near_cache_coherent_witness:
  "\<exists>s s'. map_reach sample_env {sample_key 1 5} (initial_map (longs sample_env) 0 sample_config (\<lambda>_. 7)) s \<and>
    get_lookup sample_env sample_handler 3 1 (sample_key 1 5) s = (Inr (Some 7), s') \<and>
    (\<exists>w. stored_form sample_env (cache s) (Some (remote s (sample_key 1 5))) = Inr (Some w) \<and>
      returned_form sample_env (cache s) (Some w) = Inr (Some 7))"
proof -
  let ?k = "sample_key 1 5"
  have k: "payload ?k \<noteq> None" by (simp add: sample_key_def)
  obtain m where m: "map_set ?k 0 new_keyed_map = Inr m" "map_get ?k m = Inr (Some (0 :: nat))"
    using put_law [OF new_keyed_map_ok(1) k, of 0] get_law [OF _ k] by fastforce
  let ?s = "sample_map (sample_published ?k m) Map.empty"
  have r: "map_reach sample_env {?k} (initial_map (longs sample_env) 0 sample_config (\<lambda>_. 7)) ?s"
    using sample_run [OF k m] by (simp add: sample_env_def)
  obtain nc where "get_ready sample_env sample_handler 3 ?k (sample_published ?k m) = (Inr (Some 7), nc)"
    using sample_hit [OF m(2)] by blast
  then have g: "get_lookup sample_env sample_handler 3 1 ?k ?s = (Inr (Some 7), ?s\<lparr>cache := nc\<rparr>)"
    by (simp add: get_lookup_def sample_map_def)
  have "\<not> dirty ?s ?k" by (simp add: dirty_def sample_map_def)
  from near_cache_coherent [OF r sample_env_ok _ _ _ this g] k r g show ?thesis by auto
qed

end
