(* ===== verification/CodecUtil.thy ===== *)
theory CodecUtil
  imports ClientMessage
begin

section \<open>Structured values as frames (CodecUtil, ListMultiFrameCodec, EntryListCodec, MapCodec of src/src/codec/builtin)\<close>

text \<open>
  A codec writes a value as a run of frames at the end of a message under construction and reads
  it back from the position of the message's reader. Optional values, lists and maps are built
  from the codecs of their parts. The loops that read lists call the decoder of the elements; their
  fuel is one more than the number of frames left, which is enough for every decoder
  that consumes a frame.
\<close>

text \<open>\<open>clientMessage.nextFrame()\<close> followed by an access to the frame, and with the result ignored.\<close>

definition next_frame :: "client_message \<Rightarrow> (frame \<times> client_message) res" where
  "next_frame m = (case nextFrame m of (None, m) \<Rightarrow> Inl TypeError | (Some f, m) \<Rightarrow> Inr (f, m))"

definition skip_frame :: "client_message \<Rightarrow> client_message" where
  "skip_frame m = snd (nextFrame m)"

definition peek_frame :: "client_message \<Rightarrow> frame res" where
  "peek_frame m = (case peekNextFrame m of None \<Rightarrow> Inl TypeError | Some f \<Rightarrow> Inr f)"

text \<open>The number of frames left, and a bound for the loops.\<close>

definition frames_left :: "client_message \<Rightarrow> nat" where
  "frames_left m = (case nxt m of None \<Rightarrow> 0 | Some i \<Rightarrow> Suc (length (frames m) - i))"

lemma next_frame_left [termination_simp]:
  "next_frame m = Inr (f, m') \<Longrightarrow> frames_left m' < frames_left m"
  by (auto simp: next_frame_def nextFrame_def frames_left_def split: option.splits if_splits)

subsection \<open>CodecUtil\<close>

function fastForward :: "nat \<Rightarrow> client_message \<Rightarrow> client_message res" where
  "fastForward numberOfExpectedEndFrames m =
     (if numberOfExpectedEndFrames = 0 then Inr m
      else case next_frame m of
        Inl e \<Rightarrow> Inl e
      | Inr (f, m) \<Rightarrow>
          if isEndFrame f then fastForward (numberOfExpectedEndFrames - 1) m
          else if isBeginFrame f then fastForward (numberOfExpectedEndFrames + 1) m
          else fastForward numberOfExpectedEndFrames m)"
  by pat_completeness auto
termination
  by (relation "measure (frames_left \<circ> snd)") (auto dest: next_frame_left)

declare fastForward.simps [simp del]

definition fastForwardToEndFrame :: "client_message \<Rightarrow> client_message res" where
  "fastForwardToEndFrame m = fastForward 1 m"

definition nextFrameIsDataStructureEndFrame :: "client_message \<Rightarrow> bool res" where
  "nextFrameIsDataStructureEndFrame m = bindR (peek_frame m) (\<lambda>f. Inr (isEndFrame f))"

definition nextFrameIsNullFrame :: "client_message \<Rightarrow> (bool \<times> client_message) res" where
  "nextFrameIsNullFrame m =
     bindR (peek_frame m) (\<lambda>f.
       if isNullFrame f then Inr (True, skip_frame m) else Inr (False, m))"

type_synonym 'a encoder = "'a \<Rightarrow> client_message \<Rightarrow> client_message res"
type_synonym 'a decoder = "client_message \<Rightarrow> ('a \<times> client_message) res"

definition encodeNullable :: "'a encoder \<Rightarrow> 'a option encoder" where
  "encodeNullable encoder v m =
     (case v of None \<Rightarrow> Inr (addFrame (copyFrame NULL_FRAME) m) | Some v \<Rightarrow> encoder v m)"

definition decodeNullable :: "'a decoder \<Rightarrow> 'a option decoder" where
  "decodeNullable decoder m =
     bindR (nextFrameIsNullFrame m) (\<lambda>(isNull, m).
       if isNull then Inr (None, m) else bindR (decoder m) (\<lambda>(v, m). Inr (Some v, m)))"

subsection \<open>ListMultiFrameCodec\<close>

fun encode_each :: "'a encoder \<Rightarrow> 'a list encoder" where
  "encode_each encoder [] m = Inr m"
| "encode_each encoder (x # xs) m = bindR (encoder x m) (encode_each encoder xs)"

definition ListMultiFrame_encode :: "'a encoder \<Rightarrow> 'a list encoder" where
  "ListMultiFrame_encode encoder xs m =
     bindR (encode_each encoder xs (addFrame (copyFrame BEGIN_FRAME) m)) (\<lambda>m.
       Inr (addFrame (copyFrame END_FRAME) m))"

definition ListMultiFrame_encodeContainsNullable :: "'a encoder \<Rightarrow> 'a option list encoder" where
  "ListMultiFrame_encodeContainsNullable encoder xs m =
     bindR (encode_each (\<lambda>v m. case v of None \<Rightarrow> Inr (addFrame (copyFrame NULL_FRAME) m) | Some v \<Rightarrow> encoder v m)
              xs (addFrame (copyFrame BEGIN_FRAME) m)) (\<lambda>m.
       Inr (addFrame (copyFrame END_FRAME) m))"

definition ListMultiFrame_encodeNullable :: "'a encoder \<Rightarrow> 'a list option encoder" where
  "ListMultiFrame_encodeNullable encoder xs m =
     (case xs of None \<Rightarrow> Inr (addFrame (copyFrame NULL_FRAME) m) | Some xs \<Rightarrow> ListMultiFrame_encode encoder xs m)"

fun decode_loop :: "nat \<Rightarrow> 'a decoder \<Rightarrow> 'a list decoder" where
  "decode_loop 0 decoder m = Inl NoReturn"
| "decode_loop (Suc fuel) decoder m =
     bindR (nextFrameIsDataStructureEndFrame m) (\<lambda>isEnd.
       if isEnd then Inr ([], m)
       else bindR (decoder m) (\<lambda>(x, m). bindR (decode_loop fuel decoder m) (\<lambda>(xs, m). Inr (x # xs, m))))"

definition ListMultiFrame_decode :: "'a decoder \<Rightarrow> 'a list decoder" where
  "ListMultiFrame_decode decoder m =
     (let m = skip_frame m in
      bindR (decode_loop (Suc (frames_left m)) decoder m) (\<lambda>(xs, m). Inr (xs, skip_frame m)))"

definition ListMultiFrame_decodeNullable :: "'a decoder \<Rightarrow> 'a list option decoder" where
  "ListMultiFrame_decodeNullable decoder m =
     bindR (nextFrameIsNullFrame m) (\<lambda>(isNull, m).
       if isNull then Inr (None, m)
       else bindR (ListMultiFrame_decode decoder m) (\<lambda>(v, m). Inr (Some v, m)))"

definition ListMultiFrame_decodeContainsNullable :: "'a decoder \<Rightarrow> 'a option list decoder" where
  "ListMultiFrame_decodeContainsNullable decoder m =
     (let m = skip_frame m in
      bindR (decode_loop (Suc (frames_left m))
               (\<lambda>m. bindR (nextFrameIsNullFrame m) (\<lambda>(isNull, m).
                      if isNull then Inr (None, m) else bindR (decoder m) (\<lambda>(v, m). Inr (Some v, m)))) m)
        (\<lambda>(xs, m). Inr (xs, skip_frame m)))"

subsection \<open>EntryListCodec and MapCodec\<close>

definition pair_encoder :: "'k encoder \<Rightarrow> 'v encoder \<Rightarrow> ('k \<times> 'v) encoder" where
  "pair_encoder keyEncoder valueEncoder e m = bindR (keyEncoder (fst e) m) (valueEncoder (snd e))"

definition pair_decoder :: "'k decoder \<Rightarrow> 'v decoder \<Rightarrow> ('k \<times> 'v) decoder" where
  "pair_decoder keyDecoder valueDecoder m =
     bindR (keyDecoder m) (\<lambda>(k, m). bindR (valueDecoder m) (\<lambda>(v, m). Inr ((k, v), m)))"

definition EntryList_encode :: "'k encoder \<Rightarrow> 'v encoder \<Rightarrow> ('k \<times> 'v) list encoder" where
  "EntryList_encode keyEncoder valueEncoder entries m =
     bindR (encode_each (pair_encoder keyEncoder valueEncoder) entries (addFrame (copyFrame BEGIN_FRAME) m)) (\<lambda>m.
       Inr (addFrame (copyFrame END_FRAME) m))"

definition EntryList_encodeNullable :: "'k encoder \<Rightarrow> 'v encoder \<Rightarrow> ('k \<times> 'v) list option encoder" where
  "EntryList_encodeNullable keyEncoder valueEncoder entries m =
     (case entries of None \<Rightarrow> Inr (addFrame (copyFrame NULL_FRAME) m)
      | Some entries \<Rightarrow> EntryList_encode keyEncoder valueEncoder entries m)"

definition EntryList_decode :: "'k decoder \<Rightarrow> 'v decoder \<Rightarrow> ('k \<times> 'v) list decoder" where
  "EntryList_decode keyDecoder valueDecoder m =
     (let m = skip_frame m in
      bindR (decode_loop (Suc (frames_left m)) (pair_decoder keyDecoder valueDecoder) m) (\<lambda>(xs, m).
        Inr (xs, skip_frame m)))"

definition EntryList_decodeNullable :: "'k decoder \<Rightarrow> 'v decoder \<Rightarrow> ('k \<times> 'v) list option decoder" where
  "EntryList_decodeNullable keyDecoder valueDecoder m =
     bindR (nextFrameIsNullFrame m) (\<lambda>(isNull, m).
       if isNull then Inr (None, m)
       else bindR (EntryList_decode keyDecoder valueDecoder m) (\<lambda>(v, m). Inr (Some v, m)))"

text \<open>
  A JavaScript map as the list of its entries in insertion order. \<open>set\<close> replaces the value of a key
  that is present, in its place. \<open>same\<close> is the equality of keys: equality of strings and
  numbers, and identity of objects, so that two decoded objects are never the same key.
\<close>

fun js_map_set :: "('k \<Rightarrow> 'k \<Rightarrow> bool) \<Rightarrow> 'k \<Rightarrow> 'v \<Rightarrow> ('k \<times> 'v) list \<Rightarrow> ('k \<times> 'v) list" where
  "js_map_set same k v [] = [(k, v)]"
| "js_map_set same k v ((k', v') # es) =
     (if same k k' then (k', v) # es else (k', v') # js_map_set same k v es)"

definition Map_encode :: "'k encoder \<Rightarrow> 'v encoder \<Rightarrow> ('k \<times> 'v) list encoder" where
  "Map_encode keyEncoder valueEncoder mp m =
     bindR (encode_each (pair_encoder keyEncoder valueEncoder) mp (addFrame (copyFrame BEGIN_FRAME) m)) (\<lambda>m.
       Inr (addFrame (copyFrame END_FRAME) m))"

definition Map_encodeNullable :: "'k encoder \<Rightarrow> 'v encoder \<Rightarrow> ('k \<times> 'v) list option encoder" where
  "Map_encodeNullable keyEncoder valueEncoder mp m =
     (case mp of None \<Rightarrow> Inr (addFrame (copyFrame NULL_FRAME) m)
      | Some mp \<Rightarrow> Map_encode keyEncoder valueEncoder mp m)"

definition Map_decode :: "('k \<Rightarrow> 'k \<Rightarrow> bool) \<Rightarrow> 'k decoder \<Rightarrow> 'v decoder \<Rightarrow> ('k \<times> 'v) list decoder" where
  "Map_decode same keyDecoder valueDecoder m =
     (let m = skip_frame m in
      bindR (decode_loop (Suc (frames_left m)) (pair_decoder keyDecoder valueDecoder) m) (\<lambda>(es, m).
        Inr (foldl (\<lambda>mp (k, v). js_map_set same k v mp) [] es, skip_frame m)))"

definition Map_decodeNullable :: "('k \<Rightarrow> 'k \<Rightarrow> bool) \<Rightarrow> 'k decoder \<Rightarrow> 'v decoder \<Rightarrow> ('k \<times> 'v) list option decoder" where
  "Map_decodeNullable same keyDecoder valueDecoder m =
     bindR (nextFrameIsNullFrame m) (\<lambda>(isNull, m).
       if isNull then Inr (None, m)
       else bindR (Map_decode same keyDecoder valueDecoder m) (\<lambda>(v, m). Inr (Some v, m)))"

subsection \<open>Positions in a message\<close>

definition remaining :: "client_message \<Rightarrow> frame list" where
  "remaining m = (case nxt m of None \<Rightarrow> [] | Some i \<Rightarrow> drop i (frames m))"

definition at_frames :: "client_message \<Rightarrow> frame list \<Rightarrow> bool" where
  "at_frames m fs \<longleftrightarrow> message_wf m \<and> remaining m = fs"

lemma next_at:
  assumes "at_frames m (f # fs)"
  shows "\<exists>m'. nextFrame m = (Some f, m') \<and> at_frames m' fs"
proof -
  obtain i where i: "nxt m = Some i" "drop i (frames m) = f # fs"
    using assms by (auto simp: at_frames_def remaining_def split: option.splits)
  have len: "i < length (frames m)" using i(2) by (cases "i < length (frames m)") simp_all
  then have f: "frames m ! i = f" "drop (Suc i) (frames m) = fs"
    using i(2) Cons_nth_drop_Suc [of i "frames m"] by auto
  have "message_wf (snd (nextFrame m))"
    using assms nextFrame_wf by (simp add: at_frames_def)
  then show ?thesis
    using i(1) f len by (auto simp: nextFrame_def at_frames_def remaining_def)
qed

lemma peek_at: "at_frames m (f # fs) \<Longrightarrow> peek_frame m = Inr f"
  by (auto simp: at_frames_def remaining_def peek_frame_def peekNextFrame_def split: option.splits
      intro: nth_via_drop)

lemma next_frame_at: "at_frames m (f # fs) \<Longrightarrow> \<exists>m'. next_frame m = Inr (f, m') \<and> at_frames m' fs"
  using next_at [of m f fs] by (auto simp: next_frame_def)

lemma skip_at: "at_frames m (f # fs) \<Longrightarrow> at_frames (skip_frame m) fs"
  using next_at [of m f fs] by (auto simp: skip_frame_def)

lemma length_le_frames_left: "at_frames m fs \<Longrightarrow> length fs \<le> frames_left m"
  by (auto simp: at_frames_def remaining_def frames_left_def split: option.splits)

text \<open>Frames a decoder cannot tell apart: the final flag is not looked at.\<close>

definition frame_like :: "frame \<Rightarrow> frame \<Rightarrow> bool" where
  "frame_like f g \<longleftrightarrow> content f = content g \<and> isEndFrame f = isEndFrame g \<and>
     isNullFrame f = isNullFrame g \<and> isBeginFrame f = isBeginFrame g"

abbreviation frames_like :: "frame list \<Rightarrow> frame list \<Rightarrow> bool" where
  "frames_like \<equiv> list_all2 frame_like"

lemma frame_like_refl [simp]: "frame_like f f"
  by (simp add: frame_like_def)

lemma frames_like_refl [simp]: "frames_like fs fs"
  by (simp add: list_all2_refl)

definition reads :: "'a decoder \<Rightarrow> frame list \<Rightarrow> 'a \<Rightarrow> bool" where
  "reads dec fs v \<longleftrightarrow> (\<forall>m gs rest. frames_like fs gs \<longrightarrow> at_frames m (gs @ rest) \<longrightarrow>
     (\<exists>m'. dec m = Inr (v, m') \<and> at_frames m' rest))"

lemma readsD:
  "reads dec fs v \<Longrightarrow> frames_like fs gs \<Longrightarrow> at_frames m (gs @ rest) \<Longrightarrow>
     \<exists>m'. dec m = Inr (v, m') \<and> at_frames m' rest"
  by (simp add: reads_def)

text \<open>A message under construction, and what an encoder appends to it.\<close>

definition under_construction :: "client_message \<Rightarrow> bool" where
  "under_construction m \<longleftrightarrow> message_wf m \<and> (frames m = [] \<or> endFrame m = EndAttached)"

definition adds :: "client_message \<Rightarrow> frame list \<Rightarrow> client_message \<Rightarrow> bool" where
  "adds m fs m' \<longleftrightarrow> frames m' = frames m @ fs \<and> under_construction m' \<and> retryable m' = retryable m"

lemma addFrame_adds: "under_construction m \<Longrightarrow> adds m [f] (addFrame f m)"
  using addFrame_wf [of m f] by (auto simp: adds_def under_construction_def addFrame_def Let_def)

lemma adds_Nil: "under_construction m \<Longrightarrow> adds m [] m"
  by (simp add: adds_def)

lemma adds_trans: "adds m fs m1 \<Longrightarrow> adds m1 gs m2 \<Longrightarrow> adds m (fs @ gs) m2"
  by (simp add: adds_def)

lemma adds_construction: "adds m fs m' \<Longrightarrow> under_construction m'"
  by (simp add: adds_def)

lemma adds_unique: "adds m fs m' \<Longrightarrow> adds m gs m' \<Longrightarrow> fs = gs"
  by (simp add: adds_def)

lemma special_frames [simp]:
  "isNullFrame (copyFrame NULL_FRAME)" "\<not> isEndFrame (copyFrame NULL_FRAME)"
  "isEndFrame (copyFrame END_FRAME)" "\<not> isNullFrame (copyFrame BEGIN_FRAME)"
  "\<not> isEndFrame (copyFrame BEGIN_FRAME)" "isBeginFrame (copyFrame BEGIN_FRAME)"
  "\<not> isEndFrame (newFrame b None)" "\<not> isNullFrame (newFrame b None)" "\<not> isBeginFrame (newFrame b None)"
  by (simp_all add: copyFrame_def NULL_FRAME_def END_FRAME_def BEGIN_FRAME_def newFrame_def frame_tests
      isFlagSet_def js_and_def)

subsection \<open>The contract of a codec\<close>

text \<open>
  On a message under construction, encoding a valid value appends at least one frame, the first
  of them not an end frame; and wherever these frames stand, up to the final flag, decoding consumes
  exactly them and gives the value.
\<close>

locale frame_codec =
  fixes enc :: "'a encoder" and dec :: "'a decoder" and ok :: "'a \<Rightarrow> bool"
  assumes enc_dec: "ok v \<Longrightarrow> under_construction m \<Longrightarrow>
    \<exists>fs m'. enc v m = Inr m' \<and> adds m fs m' \<and> fs \<noteq> [] \<and> \<not> isEndFrame (hd fs) \<and> reads dec fs v"

text \<open>A codec whose values never start with a null frame can be made optional.\<close>

locale nonnull_codec = frame_codec +
  assumes enc_nonnull:
    "ok v \<Longrightarrow> under_construction m \<Longrightarrow> enc v m = Inr m' \<Longrightarrow> adds m fs m' \<Longrightarrow> \<not> isNullFrame (hd fs)"

lemma nonnull_codecI:
  assumes "\<And>v m. ok v \<Longrightarrow> under_construction m \<Longrightarrow> \<exists>fs m'. enc v m = Inr m' \<and> adds m fs m' \<and> fs \<noteq> [] \<and>
    \<not> isEndFrame (hd fs) \<and> \<not> isNullFrame (hd fs) \<and> reads dec fs v"
  shows "nonnull_codec enc dec ok"
proof
  fix v m assume "ok v" "under_construction m"
  then show "\<exists>fs m'. enc v m = Inr m' \<and> adds m fs m' \<and> fs \<noteq> [] \<and> \<not> isEndFrame (hd fs) \<and> reads dec fs v"
    using assms by blast
next
  fix v m m' fs assume "ok v" "under_construction m" "enc v m = Inr m'" "adds m fs m'"
  then show "\<not> isNullFrame (hd fs)"
    using assms [of v m] adds_unique by force
qed

lemma like_hd:
  "frames_like fs gs \<Longrightarrow> fs \<noteq> [] \<Longrightarrow> \<exists>g gs'. gs = g # gs' \<and> frame_like (hd fs) g"
  by (cases fs) (auto simp: list_all2_Cons1)

context nonnull_codec
begin

lemma nullable_codec: "frame_codec (encodeNullable enc) (decodeNullable dec) (pred_option ok)"
proof
  fix v m assume ok: "pred_option ok v" and m: "under_construction m"
  show "\<exists>fs m'. encodeNullable enc v m = Inr m' \<and> adds m fs m' \<and> fs \<noteq> [] \<and> \<not> isEndFrame (hd fs) \<and>
      reads (decodeNullable dec) fs v"
  proof (cases v)
    case None
    let ?n = "copyFrame NULL_FRAME"
    have "reads (decodeNullable dec) [?n] None"
      unfolding reads_def
    proof (intro allI impI)
      fix m gs rest assume g: "frames_like [?n] gs" "at_frames m (gs @ rest)"
      then obtain g where g': "gs = [g]" "isNullFrame g"
        by (auto simp: list_all2_Cons1 frame_like_def)
      then show "\<exists>m'. decodeNullable dec m = Inr (None, m') \<and> at_frames m' rest"
        using g(2) peek_at [of m g rest] skip_at [of m g rest]
        by (simp add: decodeNullable_def nextFrameIsNullFrame_def)
    qed
    then show ?thesis
      using None addFrame_adds [OF m, of ?n] by (auto simp: encodeNullable_def)
  next
    case (Some x)
    obtain fs m' where fs: "enc x m = Inr m'" "adds m fs m'" "fs \<noteq> []" "\<not> isEndFrame (hd fs)" "reads dec fs x"
      using enc_dec [of x m] ok m Some by auto
    have nn: "\<not> isNullFrame (hd fs)" using enc_nonnull [of x m m' fs] fs ok m Some by simp
    have "reads (decodeNullable dec) fs (Some x)"
      unfolding reads_def
    proof (intro allI impI)
      fix m gs rest assume g: "frames_like fs gs" "at_frames m (gs @ rest)"
      obtain h gs' where h: "gs = h # gs'" "frame_like (hd fs) h" using like_hd [OF g(1) fs(3)] by blast
      have "nextFrameIsNullFrame m = Inr (False, m)"
        using peek_at [of m h "gs' @ rest"] g(2) h nn by (simp add: nextFrameIsNullFrame_def frame_like_def)
      then show "\<exists>m'. decodeNullable dec m = Inr (Some x, m') \<and> at_frames m' rest"
        using readsD [OF fs(5) g] by (auto simp: decodeNullable_def)
    qed
    then show ?thesis using fs Some by (auto simp: encodeNullable_def)
  qed
qed

end

text \<open>The loop that reads a list, up to an end frame.\<close>

lemma nextFrameIsEnd_at:
  "at_frames m (g # gs) \<Longrightarrow> nextFrameIsDataStructureEndFrame m = Inr (isEndFrame g)"
  by (simp add: nextFrameIsDataStructureEndFrame_def peek_at)

lemma decode_loop_reads:
  assumes "list_all2 (\<lambda>fs x. fs \<noteq> [] \<and> \<not> isEndFrame (hd fs) \<and> reads dec fs x) fss xs"
    and "frames_like (concat fss) gs" and "at_frames m (gs @ e # rest)" and "isEndFrame e"
    and "length xs < fuel"
  shows "\<exists>m'. decode_loop fuel dec m = Inr (xs, m') \<and> at_frames m' (e # rest)"
  using assms
proof (induction fss xs arbitrary: gs m fuel rule: list_all2_induct)
  case Nil
  then show ?case by (cases fuel) (simp_all add: nextFrameIsEnd_at)
next
  case (Cons fs fss x xs)
  obtain fuel' where fuel: "fuel = Suc fuel'" "length xs < fuel'" using Cons.prems(4) by (cases fuel) auto
  obtain g1 g2 where g: "gs = g1 @ g2" "frames_like fs g1" "frames_like (concat fss) g2"
    using Cons.prems(1) by (auto simp: list_all2_append1)
  obtain h g1' where h: "g1 = h # g1'" "frame_like (hd fs) h"
    using like_hd [OF g(2)] Cons(1) by blast
  have e: "nextFrameIsDataStructureEndFrame m = Inr False"
    using Cons.prems(2) g(1) h Cons(1) by (simp add: nextFrameIsEnd_at frame_like_def)
  obtain m1 where m1: "dec m = Inr (x, m1)" "at_frames m1 (g2 @ e # rest)"
    using readsD [of dec fs x g1 m "g2 @ e # rest"] Cons(1) g Cons.prems(2) by auto
  obtain m2 where "decode_loop fuel' dec m1 = Inr (xs, m2)" "at_frames m2 (e # rest)"
    using Cons.IH [OF g(3) m1(2) Cons.prems(3) fuel(2)] by blast
  then show ?case using e m1 fuel by simp
qed

lemma loop_items_le:
  "list_all2 (\<lambda>fs x. fs \<noteq> [] \<and> P fs x) fss xs \<Longrightarrow> length xs \<le> length (concat fss)"
proof (induction rule: list_all2_induct)
  case (Cons fs fss x xs)
  then show ?case by (cases fs) auto
qed simp

text \<open>A begin frame, the frames of the elements, an end frame.\<close>

lemma structure_reads:
  assumes "list_all2 (\<lambda>fs x. fs \<noteq> [] \<and> \<not> isEndFrame (hd fs) \<and> reads dec fs x) fss xs"
  shows "reads (\<lambda>m. let m = skip_frame m in
      bindR (decode_loop (Suc (frames_left m)) dec m) (\<lambda>(xs, m). Inr (f xs, skip_frame m)))
    (copyFrame BEGIN_FRAME # concat fss @ [copyFrame END_FRAME]) (f xs)"
  unfolding reads_def
proof (intro allI impI)
  fix m gs rest
  assume like: "frames_like (copyFrame BEGIN_FRAME # concat fss @ [copyFrame END_FRAME]) gs"
    and m: "at_frames m (gs @ rest)"
  then obtain b g e where g: "gs = b # g @ [e]" "frames_like (concat fss) g" "isEndFrame e"
    by (auto simp: list_all2_Cons1 list_all2_append1 frame_like_def)
  have m1: "at_frames (skip_frame m) (g @ e # rest)" using m g(1) skip_at by simp
  have "length xs < Suc (frames_left (skip_frame m))"
    using loop_items_le [of "\<lambda>fs x. \<not> isEndFrame (hd fs) \<and> reads dec fs x" fss xs] assms
      length_le_frames_left [OF m1] list_all2_lengthD [OF g(2)] by simp
  then obtain m2 where m2: "decode_loop (Suc (frames_left (skip_frame m))) dec (skip_frame m) = Inr (xs, m2)"
    "at_frames m2 (e # rest)"
    using decode_loop_reads [OF assms g(2) m1 g(3)] by blast
  show "\<exists>m'. (let m = skip_frame m in
      bindR (decode_loop (Suc (frames_left m)) dec m) (\<lambda>(xs, m). Inr (f xs, skip_frame m))) = Inr (f xs, m') \<and>
      at_frames m' rest"
    using m2 skip_at [OF m2(2)] by (simp add: Let_def del: decode_loop.simps)
qed

context frame_codec
begin

lemma encode_each_ok:
  "list_all ok xs \<Longrightarrow> under_construction m \<Longrightarrow>
     \<exists>fss m'. encode_each enc xs m = Inr m' \<and> adds m (concat fss) m' \<and>
       list_all2 (\<lambda>fs x. fs \<noteq> [] \<and> \<not> isEndFrame (hd fs) \<and> reads dec fs x) fss xs"
proof (induction xs arbitrary: m)
  case Nil
  then show ?case using adds_Nil [of m] by (intro exI [of _ "[]"]) auto
next
  case (Cons x xs)
  obtain fs m1 where fs: "enc x m = Inr m1" "adds m fs m1" "fs \<noteq> []" "\<not> isEndFrame (hd fs)" "reads dec fs x"
    using enc_dec [of x m] Cons.prems by auto
  obtain fss m2 where "encode_each enc xs m1 = Inr m2" "adds m1 (concat fss) m2"
    "list_all2 (\<lambda>fs x. fs \<noteq> [] \<and> \<not> isEndFrame (hd fs) \<and> reads dec fs x) fss xs"
    using Cons.IH [OF _ adds_construction [OF fs(2)]] Cons.prems by auto
  then show ?case
    using fs adds_trans [OF fs(2)] by (intro exI [of _ "fs # fss"] exI [of _ m2]) auto
qed

lemma structure_ok:
  assumes "list_all ok xs" and "under_construction m"
  shows "\<exists>fs m'. bindR (encode_each enc xs (addFrame (copyFrame BEGIN_FRAME) m)) (\<lambda>m.
      Inr (addFrame (copyFrame END_FRAME) m)) = Inr m' \<and> adds m fs m' \<and> fs \<noteq> [] \<and> \<not> isEndFrame (hd fs) \<and>
    \<not> isNullFrame (hd fs) \<and> reads (\<lambda>m. let m = skip_frame m in
      bindR (decode_loop (Suc (frames_left m)) dec m) (\<lambda>(xs, m). Inr (f xs, skip_frame m))) fs (f xs)"
proof -
  let ?b = "copyFrame BEGIN_FRAME" and ?e = "copyFrame END_FRAME"
  note b = addFrame_adds [OF assms(2), of ?b]
  obtain fss m2 where m2: "encode_each enc xs (addFrame ?b m) = Inr m2"
    "adds (addFrame ?b m) (concat fss) m2"
    "list_all2 (\<lambda>fs x. fs \<noteq> [] \<and> \<not> isEndFrame (hd fs) \<and> reads dec fs x) fss xs"
    using encode_each_ok [OF assms(1) adds_construction [OF b]] by blast
  have "adds m (?b # concat fss @ [?e]) (addFrame ?e m2)"
    using adds_trans [OF adds_trans [OF b m2(2)] addFrame_adds [OF adds_construction [OF m2(2)], of ?e]]
    by simp
  then show ?thesis
    using m2(1) structure_reads [OF m2(3), of f]
    by (intro exI [of _ "?b # concat fss @ [?e]"] exI [of _ "addFrame ?e m2"])
      (simp del: decode_loop.simps)
qed

lemma list_codec: "nonnull_codec (ListMultiFrame_encode enc) (ListMultiFrame_decode dec) (list_all ok)"
proof (rule nonnull_codecI)
  fix v m assume "list_all ok v" "under_construction m"
  then show "\<exists>fs m'. ListMultiFrame_encode enc v m = Inr m' \<and> adds m fs m' \<and> fs \<noteq> [] \<and>
      \<not> isEndFrame (hd fs) \<and> \<not> isNullFrame (hd fs) \<and> reads (ListMultiFrame_decode dec) fs v"
    using structure_ok [of v m id]
    by (simp add: ListMultiFrame_encode_def ListMultiFrame_decode_def [abs_def])
qed

end

text \<open>The list codecs with optional elements, and optional lists.\<close>

lemma containsNullable_eq:
  "ListMultiFrame_encodeContainsNullable enc = ListMultiFrame_encode (encodeNullable enc)"
  "ListMultiFrame_decodeContainsNullable dec = ListMultiFrame_decode (decodeNullable dec)"
  by (simp_all add: fun_eq_iff ListMultiFrame_encodeContainsNullable_def ListMultiFrame_encode_def
      ListMultiFrame_decodeContainsNullable_def ListMultiFrame_decode_def encodeNullable_def [abs_def]
      decodeNullable_def [abs_def])

lemma listNullable_eq:
  "ListMultiFrame_encodeNullable enc = encodeNullable (ListMultiFrame_encode enc)"
  "ListMultiFrame_decodeNullable dec = decodeNullable (ListMultiFrame_decode dec)"
  by (simp_all add: fun_eq_iff ListMultiFrame_encodeNullable_def ListMultiFrame_decodeNullable_def
      encodeNullable_def decodeNullable_def)

text \<open>Two codecs in sequence.\<close>

lemma reads_seq:
  assumes "reads dec1 fs x" and "reads dec2 gs y"
  shows "reads (\<lambda>m. bindR (dec1 m) (\<lambda>(x, m). bindR (dec2 m) (\<lambda>(y, m). Inr (f x y, m)))) (fs @ gs) (f x y)"
  unfolding reads_def
proof (intro allI impI)
  fix m hs rest assume h: "frames_like (fs @ gs) hs" "at_frames m (hs @ rest)"
  obtain h1 h2 where hs: "hs = h1 @ h2" "frames_like fs h1" "frames_like gs h2"
    using h(1) by (auto simp: list_all2_append1)
  obtain m1 where m1: "dec1 m = Inr (x, m1)" "at_frames m1 (h2 @ rest)"
    using readsD [OF assms(1) hs(2), of m "h2 @ rest"] h(2) hs(1) by auto
  obtain m2 where "dec2 m1 = Inr (y, m2)" "at_frames m2 rest"
    using readsD [OF assms(2) hs(3) m1(2)] by blast
  then show "\<exists>m'. bindR (dec1 m) (\<lambda>(x, m). bindR (dec2 m) (\<lambda>(y, m). Inr (f x y, m))) = Inr (f x y, m') \<and>
      at_frames m' rest"
    using m1 by simp
qed

locale entry_frame_codec = K: frame_codec encK decK okK + V: frame_codec encV decV okV
  for encK :: "'k encoder" and decK okK and encV :: "'v encoder" and decV okV
begin

sublocale pair: frame_codec "pair_encoder encK encV" "pair_decoder decK decV"
  "\<lambda>e. okK (fst e) \<and> okV (snd e)"
proof
  fix e m assume e: "okK (fst e) \<and> okV (snd e)" and m: "under_construction m"
  obtain fs m1 where fs: "encK (fst e) m = Inr m1" "adds m fs m1" "fs \<noteq> []" "\<not> isEndFrame (hd fs)"
    "reads decK fs (fst e)" using K.enc_dec [of "fst e" m] e m by blast
  obtain gs m2 where gs: "encV (snd e) m1 = Inr m2" "adds m1 gs m2" "reads decV gs (snd e)"
    using V.enc_dec [of "snd e" m1] e adds_construction [OF fs(2)] by blast
  have "reads (pair_decoder decK decV) (fs @ gs) (fst e, snd e)"
    unfolding pair_decoder_def [abs_def] by (rule reads_seq [OF fs(5) gs(3)])
  then show "\<exists>fs m'. pair_encoder encK encV e m = Inr m' \<and> adds m fs m' \<and> fs \<noteq> [] \<and>
      \<not> isEndFrame (hd fs) \<and> reads (pair_decoder decK decV) fs e"
    using fs gs adds_trans [OF fs(2) gs(2)]
    by (intro exI [of _ "fs @ gs"] exI [of _ m2]) (simp add: pair_encoder_def)
qed

lemma entries_codec:
  "nonnull_codec (EntryList_encode encK encV) (EntryList_decode decK decV)
     (list_all (\<lambda>e. okK (fst e) \<and> okV (snd e)))"
  using pair.list_codec
  by (simp add: EntryList_encode_def [abs_def] EntryList_decode_def [abs_def]
      ListMultiFrame_encode_def [abs_def] ListMultiFrame_decode_def [abs_def])

end

text \<open>Inserting the entries of a map with distinct keys gives the map back.\<close>

lemma js_map_set_new:
  "list_all (\<lambda>(k', v). \<not> same k k') es \<Longrightarrow> js_map_set same k v es = es @ [(k, v)]"
  by (induction es) auto

definition distinct_keys :: "('k \<Rightarrow> 'k \<Rightarrow> bool) \<Rightarrow> ('k \<times> 'v) list \<Rightarrow> bool" where
  "distinct_keys same es \<longleftrightarrow> sorted_wrt (\<lambda>a b. \<not> same (fst b) (fst a)) es"

lemma js_map_build:
  "distinct_keys same (es @ fs) \<Longrightarrow> foldl (\<lambda>mp (k, v). js_map_set same k v mp) es fs = es @ fs"
proof (induction fs arbitrary: es)
  case (Cons f fs)
  have "list_all (\<lambda>(k', v). \<not> same (fst f) k') es"
    using Cons.prems by (auto simp: distinct_keys_def sorted_wrt_append list_all_iff)
  then show ?case using Cons js_map_set_new [of same "fst f" es "snd f"] by (cases f) simp
qed simp

context entry_frame_codec
begin

lemma map_codec:
  "nonnull_codec (Map_encode encK encV) (Map_decode same decK decV)
     (\<lambda>mp. distinct_keys same mp \<and> list_all (\<lambda>e. okK (fst e) \<and> okV (snd e)) mp)"
proof (rule nonnull_codecI)
  let ?f = "\<lambda>es. foldl (\<lambda>mp (k, v). js_map_set same k v mp) [] es"
  fix v :: "('k \<times> 'v) list" and m
  assume v: "distinct_keys same v \<and> list_all (\<lambda>e. okK (fst e) \<and> okV (snd e)) v" and m: "under_construction m"
  have "?f v = v" using js_map_build [of same "[]" v] v by simp
  then show "\<exists>fs m'. Map_encode encK encV v m = Inr m' \<and> adds m fs m' \<and> fs \<noteq> [] \<and>
      \<not> isEndFrame (hd fs) \<and> \<not> isNullFrame (hd fs) \<and> reads (Map_decode same decK decV) fs v"
    using pair.structure_ok [of v m ?f] v m
    by (simp add: Map_encode_def Map_decode_def [abs_def])
qed

end

text \<open>
  Termination: the loop does not run out of fuel for any decoder that consumes a frame when it
  succeeds.
\<close>

lemma decode_loop_returns:
  assumes "\<And>m x m'. dec m = Inr (x, m') \<Longrightarrow> frames_left m' < frames_left m" and "\<And>m. dec m \<noteq> Inl NoReturn"
  shows "frames_left m < fuel \<Longrightarrow> decode_loop fuel dec m \<noteq> Inl NoReturn"
proof (induction fuel arbitrary: m)
  case (Suc fuel)
  have "nextFrameIsDataStructureEndFrame m \<noteq> Inl NoReturn"
    by (simp add: nextFrameIsDataStructureEndFrame_def peek_frame_def split: option.split)
  moreover have "decode_loop fuel dec m' \<noteq> Inl NoReturn" if "dec m = Inr (x, m')" for x m'
    using Suc.IH [of m'] Suc.prems assms(1) [OF that] by simp
  ultimately show ?case using assms(2) [of m]
    by (cases "dec m"; cases "nextFrameIsDataStructureEndFrame m") (auto simp: bindR_Inl_iff)
qed simp

end
