(* ===== verification/BuiltinCodecs.thy ===== *)
theory BuiltinCodecs
  imports CodecUtil Js_String
begin

section \<open>Codecs of the builtin types (src/src/codec/builtin)\<close>

text \<open>
  Strings, byte arrays, serialized data and lists of fixed-size values are one frame each; the
  entry lists with values of variable size are a structure of frames followed by the keys.
\<close>

subsection \<open>StringCodec, ByteArrayCodec, DataCodec\<close>

definition String_encode :: "js_string encoder" where
  "String_encode s m = Inr (addFrame (newFrame (utf8_encode s) None) m)"

definition String_decode :: "js_string decoder" where
  "String_decode m = bindR (next_frame m) (\<lambda>(f, m). Inr (utf8_decode (content f), m))"

definition ByteArray_encode :: "buffer encoder" where
  "ByteArray_encode bs m = Inr (addFrame (newFrame bs None) m)"

definition ByteArray_decode :: "buffer decoder" where
  "ByteArray_decode m = bindR (next_frame m) (\<lambda>(f, m). Inr (content f, m))"

text \<open>
  A frame around a null buffer has no content: every later use of it raises a \<open>TypeError\<close>, which is
  where the model raises it.
\<close>

definition Data_encode :: "heap_data encoder" where
  "Data_encode d m =
     (case toBuffer d of None \<Rightarrow> Inl TypeError | Some b \<Rightarrow> Inr (addFrame (newFrame b None) m))"

definition Data_encodeNullable :: "heap_data option encoder" where
  "Data_encodeNullable d m =
     (case d of None \<Rightarrow> Inr (addFrame (copyFrame NULL_FRAME) m)
      | Some d \<Rightarrow> (case toBuffer d of None \<Rightarrow> Inl TypeError | Some b \<Rightarrow> Inr (addFrame (newFrame b None) m)))"

definition Data_decode :: "heap_data decoder" where
  "Data_decode m =
     bindR (next_frame m) (\<lambda>(f, m). bindR (HeapData (Some (content f))) (\<lambda>d. Inr (d, m)))"

definition Data_decodeNullable :: "heap_data option decoder" where
  "Data_decodeNullable m =
     bindR (nextFrameIsNullFrame m) (\<lambda>(isNull, m).
       if isNull then Inr (None, m) else bindR (Data_decode m) (\<lambda>(d, m). Inr (Some d, m)))"

definition ListData_encode :: "heap_data list encoder" where
  "ListData_encode = ListMultiFrame_encode Data_encode"

definition ListData_decode :: "heap_data list decoder" where
  "ListData_decode = ListMultiFrame_decode Data_decode"

subsection \<open>Lists of fixed-size values\<close>

text \<open>
  All these codecs have the same shape: one frame of \<open>n * size\<close> bytes. \<open>new Array(itemCount)\<close> raises
  a \<open>RangeError\<close> when the length of the content is not a multiple of the size.
\<close>

definition encode_fixed :: "(nat \<Rightarrow> byte) \<Rightarrow> (buffer \<Rightarrow> int \<Rightarrow> 'a \<Rightarrow> buffer res) \<Rightarrow> int \<Rightarrow> 'a list encoder" where
  "encode_fixed junk enc sz xs m =
     bindR (allocUnsafe junk (int (length xs) * sz)) (\<lambda>b.
     bindR (encode_items enc sz 0 xs b) (\<lambda>b. Inr (addFrame (newFrame b None) m)))"

definition decode_fixed :: "(buffer \<Rightarrow> int \<Rightarrow> 'a res) \<Rightarrow> int \<Rightarrow> 'a list decoder" where
  "decode_fixed dec sz m =
     bindR (next_frame m) (\<lambda>(f, m).
       if int (length (content f)) mod sz = 0
       then bindR (decode_items dec sz 0 (nat (int (length (content f)) div sz)) (content f)) (\<lambda>xs. Inr (xs, m))
       else Inl RangeError)"

definition ListInteger_encode :: "(nat \<Rightarrow> byte) \<Rightarrow> int list encoder" where
  "ListInteger_encode junk = encode_fixed junk encodeInt INT_SIZE_IN_BYTES"
definition ListInteger_decode :: "int list decoder" where
  "ListInteger_decode = decode_fixed decodeInt INT_SIZE_IN_BYTES"

definition ListLong_encode :: "(nat \<Rightarrow> byte) \<Rightarrow> js_long list encoder" where
  "ListLong_encode junk = encode_fixed junk encodeLong LONG_SIZE_IN_BYTES"
definition ListLong_decode :: "js_long list decoder" where
  "ListLong_decode = decode_fixed decodeLong LONG_SIZE_IN_BYTES"

definition LongArray_encode :: "(nat \<Rightarrow> byte) \<Rightarrow> js_long list encoder" where
  "LongArray_encode junk = ListLong_encode junk"
definition LongArray_decode :: "js_long list decoder" where
  "LongArray_decode = ListLong_decode"

definition ListUUID_encode :: "(nat \<Rightarrow> byte) \<Rightarrow> uuid option list encoder" where
  "ListUUID_encode junk = encode_fixed junk encodeUUID UUID_SIZE_IN_BYTES"
definition ListUUID_decode :: "uuid option list decoder" where
  "ListUUID_decode = decode_fixed decodeUUID UUID_SIZE_IN_BYTES"

definition EntryListIntegerInteger_encode :: "(nat \<Rightarrow> byte) \<Rightarrow> (int \<times> int) list encoder" where
  "EntryListIntegerInteger_encode junk =
     encode_fixed junk (encode_entry encodeInt encodeInt INT_SIZE_IN_BYTES) (INT_SIZE_IN_BYTES + INT_SIZE_IN_BYTES)"
definition EntryListIntegerInteger_decode :: "(int \<times> int) list decoder" where
  "EntryListIntegerInteger_decode =
     decode_fixed (decode_entry decodeInt decodeInt INT_SIZE_IN_BYTES) (INT_SIZE_IN_BYTES + INT_SIZE_IN_BYTES)"

definition EntryListIntegerLong_encode :: "(nat \<Rightarrow> byte) \<Rightarrow> (int \<times> js_long) list encoder" where
  "EntryListIntegerLong_encode junk =
     encode_fixed junk (encode_entry encodeInt encodeLong INT_SIZE_IN_BYTES) (INT_SIZE_IN_BYTES + LONG_SIZE_IN_BYTES)"
definition EntryListIntegerLong_decode :: "(int \<times> js_long) list decoder" where
  "EntryListIntegerLong_decode =
     decode_fixed (decode_entry decodeInt decodeLong INT_SIZE_IN_BYTES) (INT_SIZE_IN_BYTES + LONG_SIZE_IN_BYTES)"

definition EntryListIntegerUUID_encode :: "(nat \<Rightarrow> byte) \<Rightarrow> (int \<times> uuid option) list encoder" where
  "EntryListIntegerUUID_encode junk =
     encode_fixed junk (encode_entry encodeInt encodeUUID INT_SIZE_IN_BYTES) (INT_SIZE_IN_BYTES + UUID_SIZE_IN_BYTES)"
definition EntryListIntegerUUID_decode :: "(int \<times> uuid option) list decoder" where
  "EntryListIntegerUUID_decode =
     decode_fixed (decode_entry decodeInt decodeUUID INT_SIZE_IN_BYTES) (INT_SIZE_IN_BYTES + UUID_SIZE_IN_BYTES)"

definition EntryListUUIDLong_encode :: "(nat \<Rightarrow> byte) \<Rightarrow> (uuid option \<times> js_long) list encoder" where
  "EntryListUUIDLong_encode junk =
     encode_fixed junk (encode_entry encodeUUID encodeLong UUID_SIZE_IN_BYTES) (UUID_SIZE_IN_BYTES + LONG_SIZE_IN_BYTES)"
definition EntryListUUIDLong_decode :: "(uuid option \<times> js_long) list decoder" where
  "EntryListUUIDLong_decode =
     decode_fixed (decode_entry decodeUUID decodeLong UUID_SIZE_IN_BYTES) (UUID_SIZE_IN_BYTES + LONG_SIZE_IN_BYTES)"

definition EntryListUUIDUUID_encode :: "(nat \<Rightarrow> byte) \<Rightarrow> (uuid option \<times> uuid option) list encoder" where
  "EntryListUUIDUUID_encode junk =
     encode_fixed junk (encode_entry encodeUUID encodeUUID UUID_SIZE_IN_BYTES) (UUID_SIZE_IN_BYTES + UUID_SIZE_IN_BYTES)"
definition EntryListUUIDUUID_decode :: "(uuid option \<times> uuid option) list decoder" where
  "EntryListUUIDUUID_decode =
     decode_fixed (decode_entry decodeUUID decodeUUID UUID_SIZE_IN_BYTES) (UUID_SIZE_IN_BYTES + UUID_SIZE_IN_BYTES)"

subsection \<open>Entry lists with values of variable size\<close>

text \<open>
  The values as a structure of frames, then the keys as one frame. A value is \<open>None\<close> where the
  array of values is shorter than that of the keys (\<open>undefined\<close>), which no encoder accepts.
\<close>

definition defined_encoder :: "'v encoder \<Rightarrow> 'v option encoder" where
  "defined_encoder enc v m = (case v of None \<Rightarrow> Inl TypeError | Some v \<Rightarrow> enc v m)"

definition encode_values_keys :: "'k list encoder \<Rightarrow> 'v encoder \<Rightarrow> ('k \<times> 'v option) list encoder" where
  "encode_values_keys encKeys encV entries m =
     bindR (encode_each (defined_encoder encV) (map snd entries) (addFrame (copyFrame BEGIN_FRAME) m)) (\<lambda>m.
       encKeys (map fst entries) (addFrame (copyFrame END_FRAME) m))"

definition decode_values_keys :: "'k list decoder \<Rightarrow> 'v decoder \<Rightarrow> ('k \<times> 'v option) list decoder" where
  "decode_values_keys decKeys decV m =
     bindR (ListMultiFrame_decode decV m) (\<lambda>(values, m).
     bindR (decKeys m) (\<lambda>(keys, m).
       Inr (map (\<lambda>i. (keys ! i, if i < length values then Some (values ! i) else None)) [0..<length keys], m)))"

definition EntryListUUIDListInteger_encode :: "(nat \<Rightarrow> byte) \<Rightarrow> (uuid option \<times> int list option) list encoder" where
  "EntryListUUIDListInteger_encode junk = encode_values_keys (ListUUID_encode junk) (ListInteger_encode junk)"
definition EntryListUUIDListInteger_decode :: "(uuid option \<times> int list option) list decoder" where
  "EntryListUUIDListInteger_decode = decode_values_keys ListUUID_decode ListInteger_decode"

definition EntryListLongByteArray_encode :: "(nat \<Rightarrow> byte) \<Rightarrow> (js_long \<times> buffer option) list encoder" where
  "EntryListLongByteArray_encode junk = encode_values_keys (ListLong_encode junk) ByteArray_encode"
definition EntryListLongByteArray_decode :: "(js_long \<times> buffer option) list decoder" where
  "EntryListLongByteArray_decode = decode_values_keys ListLong_decode ByteArray_decode"

subsection \<open>One-frame codecs meet the contract\<close>

lemma plain_frame_codec:
  assumes "\<And>v m. ok v \<Longrightarrow> \<exists>b. enc v m = Inr (addFrame (newFrame b None) m) \<and>
      (\<forall>f m'. content f = b \<longrightarrow> rd f m' = Inr (v, m'))"
    and "\<And>m. dec m = bindR (next_frame m) (\<lambda>(f, m). rd f m)"
  shows "nonnull_codec enc dec ok"
proof (rule nonnull_codecI)
  fix v m assume "ok v" and m: "under_construction m"
  then obtain b where b: "enc v m = Inr (addFrame (newFrame b None) m)"
    "\<forall>f m'. content f = b \<longrightarrow> rd f m' = Inr (v, m')"
    using assms(1) by blast
  have "reads dec [newFrame b None] v"
    unfolding reads_def
  proof (intro allI impI)
    fix m gs rest assume g: "frames_like [newFrame b None] gs" "at_frames m (gs @ rest)"
    then obtain f where f: "gs = [f]" "content f = b"
      by (auto simp: list_all2_Cons1 frame_like_def newFrame_def)
    then obtain m' where "next_frame m = Inr (f, m')" "at_frames m' rest"
      using next_frame_at [of m f rest] g(2) by auto
    then show "\<exists>m'. dec m = Inr (v, m') \<and> at_frames m' rest" using b(2) f assms(2) by auto
  qed
  then show "\<exists>fs m'. enc v m = Inr m' \<and> adds m fs m' \<and> fs \<noteq> [] \<and> \<not> isEndFrame (hd fs) \<and>
      \<not> isNullFrame (hd fs) \<and> reads dec fs v"
    using b(1) addFrame_adds [OF m] by (intro exI [of _ "[newFrame b None]"]) auto
qed

interpretation string_frame: nonnull_codec String_encode String_decode well_formed_utf16
  by (rule plain_frame_codec [where rd = "\<lambda>f m. Inr (utf8_decode (content f), m)"])
    (auto simp: String_encode_def String_decode_def utf8_roundtrip)

interpretation byteArray_frame: nonnull_codec ByteArray_encode ByteArray_decode "\<lambda>_. True"
  by (rule plain_frame_codec [where rd = "\<lambda>f m. Inr (content f, m)"])
    (auto simp: ByteArray_encode_def ByteArray_decode_def)

lemma heap_data_rebuild: "heap_data_wf d \<Longrightarrow> toBuffer d = Some b \<Longrightarrow> HeapData (Some b) = Inr d"
  by (cases d) (auto simp: heap_data_wf_def toBuffer_def HeapData_def)

interpretation data_frame: nonnull_codec Data_encode Data_decode heap_data_wf
proof (rule plain_frame_codec [where rd = "\<lambda>f m. bindR (HeapData (Some (content f))) (\<lambda>d. Inr (d, m))"])
  fix d m assume d: "heap_data_wf d"
  then obtain b where b: "toBuffer d = Some b" using wf_payload by (auto simp: toBuffer_def)
  show "\<exists>b. Data_encode d m = Inr (addFrame (newFrame b None) m) \<and>
      (\<forall>f m'. content f = b \<longrightarrow> bindR (HeapData (Some (content f))) (\<lambda>d. Inr (d, m')) = Inr (d, m'))"
    using b heap_data_rebuild [OF d b] by (intro exI [of _ b]) (simp add: Data_encode_def)
qed (simp add: Data_decode_def)

context fixed_codec
begin

lemma fixed_list_codec: "nonnull_codec (encode_fixed junk enc sz) (decode_fixed dec sz) (list_all ok)"
proof (rule plain_frame_codec [where rd = "\<lambda>f m. if int (length (content f)) mod sz = 0
       then bindR (decode_items dec sz 0 (nat (int (length (content f)) div sz)) (content f)) (\<lambda>xs. Inr (xs, m))
       else Inl RangeError"])
  fix xs m assume ok: "list_all ok xs"
  let ?n = "int (length xs) * sz"
  have n: "0 \<le> ?n" using sz_pos by simp
  let ?b = "map junk [0..<nat ?n]"
  obtain b where b: "encode_items enc sz 0 xs ?b = Inr b" "length b = length ?b"
    "decode_items dec sz 0 (length xs) b = Inr xs"
    using items_roundtrip [OF ok, of 0 ?b] n by auto
  then have "int (length b) mod sz = 0" "nat (int (length b) div sz) = length xs"
    using n sz_pos by simp_all
  then show "\<exists>b. encode_fixed junk enc sz xs m = Inr (addFrame (newFrame b None) m) \<and>
      (\<forall>f m'. content f = b \<longrightarrow> (if int (length (content f)) mod sz = 0
       then bindR (decode_items dec sz 0 (nat (int (length (content f)) div sz)) (content f)) (\<lambda>xs. Inr (xs, m'))
       else Inl RangeError) = Inr (xs, m'))"
    using b n by (intro exI [of _ b]) (simp add: encode_fixed_def allocUnsafe_def)
qed (simp add: decode_fixed_def)

end

lemma item_sizes: "INT_SIZE_IN_BYTES = 4" "LONG_SIZE_IN_BYTES = 8" "UUID_SIZE_IN_BYTES = 17"
  by (simp_all add: size_defs)

interpretation uuid_uuid_entry: entry_codec encodeUUID decodeUUID 17 uuid_ok encodeUUID decodeUUID 17 uuid_ok
  by unfold_locales

interpretation listInteger_frame: nonnull_codec "ListInteger_encode junk" ListInteger_decode "list_all (in_sint 4)"
  unfolding ListInteger_encode_def ListInteger_decode_def item_sizes by (rule int_item.fixed_list_codec)

interpretation listLong_frame: nonnull_codec "ListLong_encode junk" ListLong_decode "list_all long_ok"
  unfolding ListLong_encode_def ListLong_decode_def item_sizes by (rule long_item.fixed_list_codec)

interpretation longArray_frame: nonnull_codec "LongArray_encode junk" LongArray_decode "list_all long_ok"
  unfolding LongArray_encode_def LongArray_decode_def by (rule listLong_frame.nonnull_codec_axioms)

interpretation listUUID_frame: nonnull_codec "ListUUID_encode junk" ListUUID_decode "list_all uuid_ok"
  unfolding ListUUID_encode_def ListUUID_decode_def item_sizes by (rule uuid_item.fixed_list_codec)

lemmas entry_list_codecs =
  int_int_entry.entry.fixed_list_codec integer_long_entry.entry.fixed_list_codec
  integer_uuid_entry.entry.fixed_list_codec uuid_long_entry.entry.fixed_list_codec
  uuid_uuid_entry.entry.fixed_list_codec

interpretation entryListIntegerInteger_frame: nonnull_codec "EntryListIntegerInteger_encode junk"
    EntryListIntegerInteger_decode "list_all (\<lambda>e. in_sint 4 (fst e) \<and> in_sint 4 (snd e))"
  unfolding EntryListIntegerInteger_encode_def EntryListIntegerInteger_decode_def item_sizes by (rule entry_list_codecs(1))

interpretation entryListIntegerLong_frame: nonnull_codec "EntryListIntegerLong_encode junk"
    EntryListIntegerLong_decode "list_all (\<lambda>e. in_sint 4 (fst e) \<and> long_ok (snd e))"
  unfolding EntryListIntegerLong_encode_def EntryListIntegerLong_decode_def item_sizes by (rule entry_list_codecs(2))

interpretation entryListIntegerUUID_frame: nonnull_codec "EntryListIntegerUUID_encode junk"
    EntryListIntegerUUID_decode "list_all (\<lambda>e. in_sint 4 (fst e) \<and> uuid_ok (snd e))"
  unfolding EntryListIntegerUUID_encode_def EntryListIntegerUUID_decode_def item_sizes by (rule entry_list_codecs(3))

interpretation entryListUUIDLong_frame: nonnull_codec "EntryListUUIDLong_encode junk"
    EntryListUUIDLong_decode "list_all (\<lambda>e. uuid_ok (fst e) \<and> long_ok (snd e))"
  unfolding EntryListUUIDLong_encode_def EntryListUUIDLong_decode_def item_sizes by (rule entry_list_codecs(4))

interpretation entryListUUIDUUID_frame: nonnull_codec "EntryListUUIDUUID_encode junk"
    EntryListUUIDUUID_decode "list_all (\<lambda>e. uuid_ok (fst e) \<and> uuid_ok (snd e))"
  unfolding EntryListUUIDUUID_encode_def EntryListUUIDUUID_decode_def item_sizes by (rule entry_list_codecs(5))

text \<open>Values first, then keys.\<close>

lemma values_keys_codec:
  assumes "frame_codec encKeys decKeys (list_all okK)" and "frame_codec encV decV okV"
  shows "nonnull_codec (encode_values_keys encKeys encV) (decode_values_keys decKeys decV)
    (list_all (\<lambda>e. okK (fst e) \<and> snd e \<noteq> None \<and> okV (the (snd e))))"
proof (rule nonnull_codecI)
  fix es :: "('a \<times> 'b option) list" and m
  assume es: "list_all (\<lambda>e. okK (fst e) \<and> snd e \<noteq> None \<and> okV (the (snd e))) es" and m: "under_construction m"
  let ?ks = "map fst es" and ?vs = "map (the \<circ> snd) es"
  have some: "map snd es = map Some ?vs" using es by (induction es) auto
  have each: "encode_each (defined_encoder encV) (map Some vs) m = encode_each encV vs m" for vs m
    by (induction vs arbitrary: m) (simp_all add: defined_encoder_def [abs_def] cong: bindR_cong)
  have vs: "list_all okV ?vs" using es by (induction es) auto
  have ks: "list_all okK ?ks" using es by (induction es) auto
  obtain fs m1 where fs: "bindR (encode_each encV ?vs (addFrame (copyFrame BEGIN_FRAME) m)) (\<lambda>m.
      Inr (addFrame (copyFrame END_FRAME) m)) = Inr m1" "adds m fs m1" "fs \<noteq> []" "\<not> isEndFrame (hd fs)"
      "\<not> isNullFrame (hd fs)" and rd: "reads (ListMultiFrame_decode decV) fs ?vs"
    using frame_codec.structure_ok [OF assms(2) vs m, of id]
    by (auto simp: ListMultiFrame_decode_def [abs_def])
  obtain gs m2 where gs: "encKeys ?ks m1 = Inr m2" "adds m1 gs m2" "reads decKeys gs ?ks"
    using frame_codec.enc_dec [OF assms(1) ks adds_construction [OF fs(2)]] by blast
  let ?f = "\<lambda>values keys. map (\<lambda>i. (keys ! i, if i < length values then Some (values ! i) else None)) [0..<length keys]"
  have "(fst (es ! i), Some (the (snd (es ! i)))) = es ! i" if "i < length es" for i
    using that es by (cases "es ! i") (auto simp: list_all_length)
  then have again: "?f ?vs ?ks = es" by (intro nth_equalityI) auto
  have "reads (decode_values_keys decKeys decV) (fs @ gs) (?f ?vs ?ks)"
    unfolding decode_values_keys_def [abs_def] by (rule reads_seq [OF rd gs(3), of ?f])
  moreover have "encode_values_keys encKeys encV es m = Inr m2"
    using fs(1) gs(1) unfolding encode_values_keys_def some each by (auto simp: bindR_Inr_iff)
  ultimately show "\<exists>fs m'. encode_values_keys encKeys encV es m = Inr m' \<and> adds m fs m' \<and> fs \<noteq> [] \<and>
      \<not> isEndFrame (hd fs) \<and> \<not> isNullFrame (hd fs) \<and> reads (decode_values_keys decKeys decV) fs es"
    using fs adds_trans [OF fs(2) gs(2)] again by (intro exI [of _ "fs @ gs"] exI [of _ m2]) simp
qed

interpretation entryListUUIDListInteger_frame: nonnull_codec "EntryListUUIDListInteger_encode junk"
    EntryListUUIDListInteger_decode
    "list_all (\<lambda>e. uuid_ok (fst e) \<and> snd e \<noteq> None \<and> list_all (in_sint 4) (the (snd e)))"
  unfolding EntryListUUIDListInteger_encode_def EntryListUUIDListInteger_decode_def
  by (rule values_keys_codec [OF listUUID_frame.frame_codec_axioms listInteger_frame.frame_codec_axioms])

interpretation entryListLongByteArray_frame: nonnull_codec "EntryListLongByteArray_encode junk"
    EntryListLongByteArray_decode "list_all (\<lambda>e. long_ok (fst e) \<and> snd e \<noteq> None \<and> True)"
  unfolding EntryListLongByteArray_encode_def EntryListLongByteArray_decode_def
  by (rule values_keys_codec [OF listLong_frame.frame_codec_axioms byteArray_frame.frame_codec_axioms])

interpretation listData_frame: nonnull_codec ListData_encode ListData_decode "list_all heap_data_wf"
  unfolding ListData_encode_def ListData_decode_def by (rule data_frame.list_codec)

lemma dataNullable_eq:
  "Data_encodeNullable = encodeNullable Data_encode" "Data_decodeNullable = decodeNullable Data_decode"
  by (simp_all add: fun_eq_iff Data_encodeNullable_def encodeNullable_def Data_encode_def
      Data_decodeNullable_def decodeNullable_def split: option.split)

interpretation dataNullable_frame: frame_codec Data_encodeNullable Data_decodeNullable "pred_option heap_data_wf"
  unfolding dataNullable_eq by (rule data_frame.nullable_codec)

interpretation data_data_entry: entry_frame_codec Data_encode Data_decode heap_data_wf Data_encode Data_decode
    heap_data_wf
  by unfold_locales

interpretation string_string_entry: entry_frame_codec String_encode String_decode well_formed_utf16
    String_encode String_decode well_formed_utf16
  by unfold_locales

end
