(* ===== verification/CustomCodecs.thy ===== *)
theory CustomCodecs
  imports BuiltinCodecs
begin

section \<open>Codecs of the custom types (src/src/codec/custom)\<close>

text \<open>
  A value of a custom type is a data structure in a message: a begin frame, an initial frame with the fields
  of fixed size (where the type has such fields), the frames of the other fields and an end frame. The
  codecs are written with the steps they share: \<open>encode_structure\<close> puts the parts between the begin
  and the end frame, \<open>initial_frame\<close> writes the fixed fields one after the other into a fresh frame, and
  \<open>decode_structure\<close> skips the begin frame, reads the parts and fast-forwards to the end frame. The
  rules about these steps make every codec below an instance of the interface \<open>nonnull_codec\<close>.
\<close>

subsection \<open>Steps of the codecs\<close>

fun run_all :: "('s \<Rightarrow> 's res) list \<Rightarrow> 's \<Rightarrow> 's res" where
  "run_all [] s = Inr s"
| "run_all (f # fs) s = bindR (f s) (run_all fs)"

definition encode_structure :: "(client_message \<Rightarrow> client_message res) list \<Rightarrow> client_message \<Rightarrow> client_message res" where
  "encode_structure parts m =
     bindR (run_all parts (addFrame (copyFrame BEGIN_FRAME) m)) (\<lambda>m. Inr (addFrame (copyFrame END_FRAME) m))"

definition initial_frame :: "(nat \<Rightarrow> byte) \<Rightarrow> int \<Rightarrow> (buffer \<Rightarrow> buffer res) list \<Rightarrow>
    client_message \<Rightarrow> client_message res" where
  "initial_frame junk frameSize writes m =
     bindR (createInitialFrame junk frameSize (Some DEFAULT_FLAGS)) (\<lambda>f.
     bindR (run_all writes (content f)) (\<lambda>b.
       Inr (addFrame (f\<lparr>content := b\<rparr>) m)))"

definition decode_structure :: "'a decoder \<Rightarrow> 'a decoder" where
  "decode_structure parts m =
     bindR (parts (skip_frame m)) (\<lambda>(v, m). bindR (fastForwardToEndFrame m) (\<lambda>m. Inr (v, m)))"

definition read_initial :: "(buffer \<Rightarrow> 'a res) \<Rightarrow> 'a decoder" where
  "read_initial rd m = bindR (next_frame m) (\<lambda>(f, m). bindR (rd (content f)) (\<lambda>v. Inr (v, m)))"

subsection \<open>Addresses, versions and endpoint qualifiers\<close>

record address_impl =
  host :: js_string
  port :: int

definition Address_encode :: "(nat \<Rightarrow> byte) \<Rightarrow> address_impl encoder" where
  "Address_encode junk a = encode_structure
     [initial_frame junk 4 [\<lambda>b. encodeInt b 0 (port a)],
      String_encode (host a)]"

definition Address_decode :: "address_impl decoder" where
  "Address_decode = decode_structure (\<lambda>m.
     bindR (read_initial (\<lambda>b. bindR (decodeInt b 0) (\<lambda>p. Inr p)) m) (\<lambda>(p, m).
     bindR (String_decode m) (\<lambda>(h, m).
       Inr (\<lparr>host = h, port = p\<rparr>, m))))"

record member_version =
  major :: int
  minor :: int
  patch :: int

definition MemberVersion_encode :: "(nat \<Rightarrow> byte) \<Rightarrow> member_version encoder" where
  "MemberVersion_encode junk v = encode_structure
     [initial_frame junk 3
        [\<lambda>b. encodeByte b 0 (major v), \<lambda>b. encodeByte b 1 (minor v), \<lambda>b. encodeByte b 2 (patch v)]]"

definition MemberVersion_decode :: "member_version decoder" where
  "MemberVersion_decode = decode_structure (\<lambda>m.
     bindR (read_initial (\<lambda>b. bindR (decodeByte b 0) (\<lambda>ma. bindR (decodeByte b 1) (\<lambda>mi.
              bindR (decodeByte b 2) (\<lambda>pa. Inr \<lparr>major = ma, minor = mi, patch = pa\<rparr>)))) m) (\<lambda>(v, m).
       Inr (v, m)))"

record endpoint_qualifier =
  eq_type :: int
  eq_identifier :: "js_string option"

definition EndpointQualifier_encode :: "(nat \<Rightarrow> byte) \<Rightarrow> endpoint_qualifier encoder" where
  "EndpointQualifier_encode junk q = encode_structure
     [initial_frame junk 4 [\<lambda>b. encodeInt b 0 (eq_type q)],
      encodeNullable String_encode (eq_identifier q)]"

definition EndpointQualifier_decode :: "endpoint_qualifier decoder" where
  "EndpointQualifier_decode = decode_structure (\<lambda>m.
     bindR (read_initial (\<lambda>b. bindR (decodeInt b 0) (\<lambda>t. Inr t)) m) (\<lambda>(t, m).
     bindR (decodeNullable String_decode m) (\<lambda>(i, m).
       Inr (\<lparr>eq_type = t, eq_identifier = i\<rparr>, m))))"

subsection \<open>Members\<close>

text \<open>
  Older members do not send the address map; the decoder then looks at an end frame. Two decoded endpoint
  qualifiers are different objects and so never the same key of the map.
\<close>

record member_info =
  mi_address :: address_impl
  mi_uuid :: "uuid option"
  mi_attributes :: "(js_string \<times> js_string) list"
  mi_liteMember :: bool
  mi_version :: member_version
  mi_addressMap :: "(endpoint_qualifier \<times> address_impl) list"

definition newMemberInfo :: "address_impl \<Rightarrow> uuid option \<Rightarrow> (js_string \<times> js_string) list \<Rightarrow> bool \<Rightarrow> member_version \<Rightarrow>
    bool \<Rightarrow> (endpoint_qualifier \<times> address_impl) list \<Rightarrow> member_info" where
  "newMemberInfo a u attrs lite v isAddressMapExists am =
     \<lparr>mi_address = a, mi_uuid = u, mi_attributes = attrs, mi_liteMember = lite, mi_version = v,
      mi_addressMap = (if isAddressMapExists then am else [])\<rparr>"

definition MemberInfo_encode :: "(nat \<Rightarrow> byte) \<Rightarrow> member_info encoder" where
  "MemberInfo_encode junk i = encode_structure
     [initial_frame junk 18 [\<lambda>b. encodeUUID b 0 (mi_uuid i), \<lambda>b. encodeBoolean b 17 (mi_liteMember i)],
      Address_encode junk (mi_address i),
      Map_encode String_encode String_encode (mi_attributes i),
      MemberVersion_encode junk (mi_version i),
      Map_encode (EndpointQualifier_encode junk) (Address_encode junk) (mi_addressMap i)]"

definition decode_addressMap :: "(bool \<times> (endpoint_qualifier \<times> address_impl) list) decoder" where
  "decode_addressMap m =
     bindR (peek_frame m) (\<lambda>f.
       if isEndFrame f then Inr ((False, []), m)
       else bindR (Map_decode (\<lambda>_ _. False) EndpointQualifier_decode Address_decode m) (\<lambda>(am, m). Inr ((True, am), m)))"

definition MemberInfo_decode :: "member_info decoder" where
  "MemberInfo_decode = decode_structure (\<lambda>m.
     bindR (read_initial (\<lambda>b. bindR (decodeUUID b 0) (\<lambda>u. bindR (decodeBoolean b 17) (\<lambda>l. Inr (u, l)))) m) (\<lambda>(ul, m).
     bindR (Address_decode m) (\<lambda>(a, m).
     bindR (Map_decode (=) String_decode String_decode m) (\<lambda>(attrs, m).
     bindR (MemberVersion_decode m) (\<lambda>(v, m).
     bindR (decode_addressMap m) (\<lambda>(am, m).
       Inr (newMemberInfo a (fst ul) attrs (snd ul) v (fst am) (snd am), m)))))))"

subsection \<open>Errors\<close>

record stack_trace_element =
  st_className :: js_string
  st_methodName :: js_string
  st_fileName :: "js_string option"
  st_lineNumber :: int

definition StackTraceElement_encode :: "(nat \<Rightarrow> byte) \<Rightarrow> stack_trace_element encoder" where
  "StackTraceElement_encode junk s = encode_structure
     [initial_frame junk 4 [\<lambda>b. encodeInt b 0 (st_lineNumber s)],
      String_encode (st_className s),
      String_encode (st_methodName s),
      encodeNullable String_encode (st_fileName s)]"

definition StackTraceElement_decode :: "stack_trace_element decoder" where
  "StackTraceElement_decode = decode_structure (\<lambda>m.
     bindR (read_initial (\<lambda>b. bindR (decodeInt b 0) (\<lambda>l. Inr l)) m) (\<lambda>(l, m).
     bindR (String_decode m) (\<lambda>(c, m).
     bindR (String_decode m) (\<lambda>(me, m).
     bindR (decodeNullable String_decode m) (\<lambda>(f, m).
       Inr (\<lparr>st_className = c, st_methodName = me, st_fileName = f, st_lineNumber = l\<rparr>, m))))))"

record error_holder =
  errorCode :: int
  eh_className :: js_string
  eh_message :: "js_string option"
  stackTraceElements :: "stack_trace_element list"

definition ErrorHolder_encode :: "(nat \<Rightarrow> byte) \<Rightarrow> error_holder encoder" where
  "ErrorHolder_encode junk e = encode_structure
     [initial_frame junk 4 [\<lambda>b. encodeInt b 0 (errorCode e)],
      String_encode (eh_className e),
      encodeNullable String_encode (eh_message e),
      ListMultiFrame_encode (StackTraceElement_encode junk) (stackTraceElements e)]"

definition ErrorHolder_decode :: "error_holder decoder" where
  "ErrorHolder_decode = decode_structure (\<lambda>m.
     bindR (read_initial (\<lambda>b. bindR (decodeInt b 0) (\<lambda>c. Inr c)) m) (\<lambda>(code, m).
     bindR (String_decode m) (\<lambda>(c, m).
     bindR (decodeNullable String_decode m) (\<lambda>(msg, m).
     bindR (ListMultiFrame_decode StackTraceElement_decode m) (\<lambda>(st, m).
       Inr (\<lparr>errorCode = code, eh_className = c, eh_message = msg, stackTraceElements = st\<rparr>, m))))))"

record sql_error =
  se_code :: int
  se_message :: "js_string option"
  originatingMemberId :: "uuid option"

definition SqlError_encode :: "(nat \<Rightarrow> byte) \<Rightarrow> sql_error encoder" where
  "SqlError_encode junk e = encode_structure
     [initial_frame junk 21 [\<lambda>b. encodeInt b 0 (se_code e), \<lambda>b. encodeUUID b 4 (originatingMemberId e)],
      encodeNullable String_encode (se_message e)]"

definition SqlError_decode :: "sql_error decoder" where
  "SqlError_decode = decode_structure (\<lambda>m.
     bindR (read_initial (\<lambda>b. bindR (decodeInt b 0) (\<lambda>c. bindR (decodeUUID b 4) (\<lambda>u. Inr (c, u)))) m) (\<lambda>(cu, m).
     bindR (decodeNullable String_decode m) (\<lambda>(msg, m).
       Inr (\<lparr>se_code = fst cu, se_message = msg, originatingMemberId = snd cu\<rparr>, m))))"

subsection \<open>SQL, CP subsystem and maps\<close>

record sql_column_metadata =
  cm_name :: js_string
  cm_type :: int
  cm_nullable :: bool

definition newSqlColumnMetadata :: "js_string \<Rightarrow> int \<Rightarrow> bool \<Rightarrow> bool \<Rightarrow> sql_column_metadata" where
  "newSqlColumnMetadata n t isNullableExists nullable =
     \<lparr>cm_name = n, cm_type = t, cm_nullable = (if isNullableExists then nullable else True)\<rparr>"

definition SqlColumnMetadata_encode :: "(nat \<Rightarrow> byte) \<Rightarrow> sql_column_metadata encoder" where
  "SqlColumnMetadata_encode junk c = encode_structure
     [initial_frame junk 5 [\<lambda>b. encodeInt b 0 (cm_type c), \<lambda>b. encodeBoolean b 4 (cm_nullable c)],
      String_encode (cm_name c)]"

definition decode_nullable_flag :: "buffer \<Rightarrow> (bool \<times> bool) res" where
  "decode_nullable_flag b =
     (if int (length b) \<ge> 5 then bindR (decodeBoolean b 4) (\<lambda>n. Inr (True, n)) else Inr (False, False))"

definition SqlColumnMetadata_decode :: "sql_column_metadata decoder" where
  "SqlColumnMetadata_decode = decode_structure (\<lambda>m.
     bindR (read_initial (\<lambda>b. bindR (decodeInt b 0) (\<lambda>t. bindR (decode_nullable_flag b) (\<lambda>n. Inr (t, n)))) m) (\<lambda>(tn, m).
     bindR (String_decode m) (\<lambda>(n, m).
       Inr (newSqlColumnMetadata n (fst tn) (fst (snd tn)) (snd (snd tn)), m))))"

record sql_query_id =
  memberIdHigh :: js_long
  memberIdLow :: js_long
  localIdHigh :: js_long
  localIdLow :: js_long

definition SqlQueryId_encode :: "(nat \<Rightarrow> byte) \<Rightarrow> sql_query_id encoder" where
  "SqlQueryId_encode junk q = encode_structure
     [initial_frame junk 32
        [\<lambda>b. encodeLong b 0 (memberIdHigh q), \<lambda>b. encodeLong b 8 (memberIdLow q),
         \<lambda>b. encodeLong b 16 (localIdHigh q), \<lambda>b. encodeLong b 24 (localIdLow q)]]"

definition SqlQueryId_decode :: "sql_query_id decoder" where
  "SqlQueryId_decode = decode_structure (\<lambda>m.
     bindR (read_initial (\<lambda>b. bindR (decodeLong b 0) (\<lambda>mh. bindR (decodeLong b 8) (\<lambda>ml.
              bindR (decodeLong b 16) (\<lambda>lh. bindR (decodeLong b 24) (\<lambda>ll.
                Inr \<lparr>memberIdHigh = mh, memberIdLow = ml, localIdHigh = lh, localIdLow = ll\<rparr>))))) m) (\<lambda>(q, m).
       Inr (q, m)))"

record raft_group_id =
  rg_name :: js_string
  rg_seed :: js_long
  rg_id :: js_long

definition RaftGroupId_encode :: "(nat \<Rightarrow> byte) \<Rightarrow> raft_group_id encoder" where
  "RaftGroupId_encode junk g = encode_structure
     [initial_frame junk 16 [\<lambda>b. encodeLong b 0 (rg_seed g), \<lambda>b. encodeLong b 8 (rg_id g)],
      String_encode (rg_name g)]"

definition RaftGroupId_decode :: "raft_group_id decoder" where
  "RaftGroupId_decode = decode_structure (\<lambda>m.
     bindR (read_initial (\<lambda>b. bindR (decodeLong b 0) (\<lambda>s. bindR (decodeLong b 8) (\<lambda>i. Inr (s, i)))) m) (\<lambda>(si, m).
     bindR (String_decode m) (\<lambda>(n, m).
       Inr (\<lparr>rg_name = n, rg_seed = fst si, rg_id = snd si\<rparr>, m))))"

record distributed_object_info =
  doi_serviceName :: js_string
  doi_name :: js_string

definition DistributedObjectInfo_encode :: "distributed_object_info encoder" where
  "DistributedObjectInfo_encode d = encode_structure [String_encode (doi_serviceName d), String_encode (doi_name d)]"

definition DistributedObjectInfo_decode :: "distributed_object_info decoder" where
  "DistributedObjectInfo_decode = decode_structure (\<lambda>m.
     bindR (String_decode m) (\<lambda>(s, m).
     bindR (String_decode m) (\<lambda>(n, m).
       Inr (\<lparr>doi_serviceName = s, doi_name = n\<rparr>, m))))"

record bitmap_index_options =
  uniqueKey :: js_string
  uniqueKeyTransformation :: int

definition BitmapIndexOptions_encode :: "(nat \<Rightarrow> byte) \<Rightarrow> bitmap_index_options encoder" where
  "BitmapIndexOptions_encode junk o' = encode_structure
     [initial_frame junk 4 [\<lambda>b. encodeInt b 0 (uniqueKeyTransformation o')],
      String_encode (uniqueKey o')]"

definition BitmapIndexOptions_decode :: "bitmap_index_options decoder" where
  "BitmapIndexOptions_decode = decode_structure (\<lambda>m.
     bindR (read_initial (\<lambda>b. bindR (decodeInt b 0) (\<lambda>t. Inr t)) m) (\<lambda>(t, m).
     bindR (String_decode m) (\<lambda>(k, m).
       Inr (\<lparr>uniqueKey = k, uniqueKeyTransformation = t\<rparr>, m))))"

text \<open>The constructor of \<open>InternalIndexConfig\<close> drops an empty name; the default type is 0.\<close>

record index_config =
  ic_name :: "js_string option"
  ic_type :: int
  ic_attributes :: "js_string list"
  bitmapIndexOptions :: "bitmap_index_options option"

definition newIndexConfig :: "js_string option \<Rightarrow> int \<Rightarrow> js_string list \<Rightarrow> bitmap_index_options option \<Rightarrow> index_config" where
  "newIndexConfig n t attrs opts =
     \<lparr>ic_name = (if n = Some [] then None else n), ic_type = (if t \<noteq> 0 then t else 0),
      ic_attributes = attrs, bitmapIndexOptions = opts\<rparr>"

definition IndexConfig_encode :: "(nat \<Rightarrow> byte) \<Rightarrow> index_config encoder" where
  "IndexConfig_encode junk c = encode_structure
     [initial_frame junk 4 [\<lambda>b. encodeInt b 0 (ic_type c)],
      encodeNullable String_encode (ic_name c),
      ListMultiFrame_encode String_encode (ic_attributes c),
      encodeNullable (BitmapIndexOptions_encode junk) (bitmapIndexOptions c)]"

definition IndexConfig_decode :: "index_config decoder" where
  "IndexConfig_decode = decode_structure (\<lambda>m.
     bindR (read_initial (\<lambda>b. bindR (decodeInt b 0) (\<lambda>t. Inr t)) m) (\<lambda>(t, m).
     bindR (decodeNullable String_decode m) (\<lambda>(n, m).
     bindR (ListMultiFrame_decode String_decode m) (\<lambda>(attrs, m).
     bindR (decodeNullable BitmapIndexOptions_decode m) (\<lambda>(opts, m).
       Inr (newIndexConfig n t attrs opts, m))))))"

record anchor_data_list_holder =
  anchorPageList :: "int list"
  anchorDataList :: "(heap_data \<times> heap_data) list"

definition AnchorDataListHolder_encode :: "(nat \<Rightarrow> byte) \<Rightarrow> anchor_data_list_holder encoder" where
  "AnchorDataListHolder_encode junk a = encode_structure
     [ListInteger_encode junk (anchorPageList a),
      EntryList_encode Data_encode Data_encode (anchorDataList a)]"

definition AnchorDataListHolder_decode :: "anchor_data_list_holder decoder" where
  "AnchorDataListHolder_decode = decode_structure (\<lambda>m.
     bindR (ListInteger_decode m) (\<lambda>(ps, m).
     bindR (EntryList_decode Data_decode Data_decode m) (\<lambda>(ds, m).
       Inr (\<lparr>anchorPageList = ps, anchorDataList = ds\<rparr>, m))))"

record paging_predicate_holder =
  anchorDataListHolder :: anchor_data_list_holder
  predicateData :: "heap_data option"
  comparatorData :: "heap_data option"
  pageSize :: int
  page :: int
  iterationTypeId :: int
  partitionKeyData :: "heap_data option"

definition PagingPredicateHolder_encode :: "(nat \<Rightarrow> byte) \<Rightarrow> paging_predicate_holder encoder" where
  "PagingPredicateHolder_encode junk p = encode_structure
     [initial_frame junk 9
        [\<lambda>b. encodeInt b 0 (pageSize p), \<lambda>b. encodeInt b 4 (page p), \<lambda>b. encodeByte b 8 (iterationTypeId p)],
      AnchorDataListHolder_encode junk (anchorDataListHolder p),
      encodeNullable Data_encode (predicateData p),
      encodeNullable Data_encode (comparatorData p),
      encodeNullable Data_encode (partitionKeyData p)]"

definition PagingPredicateHolder_decode :: "paging_predicate_holder decoder" where
  "PagingPredicateHolder_decode = decode_structure (\<lambda>m.
     bindR (read_initial (\<lambda>b. bindR (decodeInt b 0) (\<lambda>ps. bindR (decodeInt b 4) (\<lambda>pg.
              bindR (decodeByte b 8) (\<lambda>it. Inr (ps, pg, it))))) m) (\<lambda>(h, m).
     bindR (AnchorDataListHolder_decode m) (\<lambda>(a, m).
     bindR (decodeNullable Data_decode m) (\<lambda>(p, m).
     bindR (decodeNullable Data_decode m) (\<lambda>(c, m).
     bindR (decodeNullable Data_decode m) (\<lambda>(k, m).
       Inr (\<lparr>anchorDataListHolder = a, predicateData = p, comparatorData = c, pageSize = fst h,
             page = fst (snd h), iterationTypeId = snd (snd h), partitionKeyData = k\<rparr>, m)))))))"

text \<open>The ten numbers of an entry view are held in the order of their offsets.\<close>

record entry_view_times =
  ev_cost :: js_long
  ev_creationTime :: js_long
  ev_expirationTime :: js_long
  ev_hits :: js_long
  ev_lastAccessTime :: js_long
  ev_lastStoredTime :: js_long
  ev_lastUpdateTime :: js_long
  ev_version :: js_long
  ev_ttl :: js_long
  ev_maxIdle :: js_long

record simple_entry_view = entry_view_times +
  ev_key :: heap_data
  ev_value :: heap_data

definition SimpleEntryView_encode :: "(nat \<Rightarrow> byte) \<Rightarrow> simple_entry_view encoder" where
  "SimpleEntryView_encode junk v = encode_structure
     [initial_frame junk 80
        [\<lambda>b. encodeLong b 0 (ev_cost v), \<lambda>b. encodeLong b 8 (ev_creationTime v),
         \<lambda>b. encodeLong b 16 (ev_expirationTime v), \<lambda>b. encodeLong b 24 (ev_hits v),
         \<lambda>b. encodeLong b 32 (ev_lastAccessTime v), \<lambda>b. encodeLong b 40 (ev_lastStoredTime v),
         \<lambda>b. encodeLong b 48 (ev_lastUpdateTime v), \<lambda>b. encodeLong b 56 (ev_version v),
         \<lambda>b. encodeLong b 64 (ev_ttl v), \<lambda>b. encodeLong b 72 (ev_maxIdle v)],
      Data_encode (ev_key v),
      Data_encode (ev_value v)]"

definition SimpleEntryView_decode :: "simple_entry_view decoder" where
  "SimpleEntryView_decode = decode_structure (\<lambda>m.
     bindR (read_initial (\<lambda>b.
         bindR (decodeLong b 0) (\<lambda>cost. bindR (decodeLong b 8) (\<lambda>creationTime.
         bindR (decodeLong b 16) (\<lambda>expirationTime. bindR (decodeLong b 24) (\<lambda>hits.
         bindR (decodeLong b 32) (\<lambda>lastAccessTime. bindR (decodeLong b 40) (\<lambda>lastStoredTime.
         bindR (decodeLong b 48) (\<lambda>lastUpdateTime. bindR (decodeLong b 56) (\<lambda>version.
         bindR (decodeLong b 64) (\<lambda>ttl. bindR (decodeLong b 72) (\<lambda>maxIdle.
           Inr \<lparr>ev_cost = cost, ev_creationTime = creationTime, ev_expirationTime = expirationTime,
                ev_hits = hits, ev_lastAccessTime = lastAccessTime, ev_lastStoredTime = lastStoredTime,
                ev_lastUpdateTime = lastUpdateTime, ev_version = version, ev_ttl = ttl,
                ev_maxIdle = maxIdle\<rparr>))))))))))) m) (\<lambda>(t, m).
     bindR (Data_decode m) (\<lambda>(k, m).
     bindR (Data_decode m) (\<lambda>(v, m).
       Inr (entry_view_times.extend t (simple_entry_view.fields k v), m)))))"

subsection \<open>Rules for the steps\<close>

text \<open>
  A run of field writers fills the bytes from \<open>lo\<close> up to \<open>hi\<close> and a reader that depends on these bytes only
  gets the value back.
\<close>

definition fields_code :: "int \<Rightarrow> int \<Rightarrow> (buffer \<Rightarrow> buffer res) list \<Rightarrow> (buffer \<Rightarrow> 'a res) \<Rightarrow> 'a \<Rightarrow> bool" where
  "fields_code lo hi ws rd v \<longleftrightarrow> (\<forall>b. hi \<le> int (length b) \<longrightarrow>
     (\<exists>b'. run_all ws b = Inr b' \<and> length b' = length b \<and> same_outside lo hi b b' \<and>
       (\<forall>b''. length b'' = length b \<longrightarrow> same_inside lo hi b' b'' \<longrightarrow> rd b'' = Inr v)))"

lemma fields_Nil: "fields_code lo lo [] (\<lambda>b. Inr v) v"
  by (simp add: fields_code_def)

lemma fields_Cons:
  assumes "fixed_codec enc dec sz ok" and "ok x" and "0 \<le> lo"
    and rest: "fields_code lo' hi ws (rd x) v" and lo': "lo' = lo + sz" and "lo' \<le> hi"
  shows "fields_code lo hi ((\<lambda>b. enc b lo x) # ws) (\<lambda>b. bindR (dec b lo) (\<lambda>x. rd x b)) v"
  unfolding fields_code_def
proof (intro allI impI)
  fix b :: buffer assume b: "hi \<le> int (length b)"
  obtain b1 where b1: "enc b lo x = Inr b1" "length b1 = length b" "dec b1 lo = Inr x" "same_outside lo lo' b b1"
    using fixed_codec.enc_ok [OF assms(1,2,3), of b] b assms(6) unfolding lo' by auto
  have "hi \<le> int (length b1)" using b b1(2) by simp
  then obtain b2 where b2: "run_all ws b1 = Inr b2" "length b2 = length b1" "same_outside lo' hi b1 b2"
    and rd: "\<forall>b''. length b'' = length b1 \<longrightarrow> same_inside lo' hi b2 b'' \<longrightarrow> rd x b'' = Inr v"
    using rest unfolding fields_code_def by blast
  have pos: "lo \<le> lo'" using fixed_codec.sz_pos [OF assms(1)] lo' by simp
  have "bindR (dec b'' lo) (\<lambda>x. rd x b'') = Inr v" if "length b'' = length b" "same_inside lo hi b2 b''" for b''
  proof -
    have "dec b'' lo = dec b2 lo" "dec b2 lo = dec b1 lo"
      using fixed_codec.dec_local [OF assms(1)] same_inside_mono [OF that(2)] same_outside_inside [OF b2(3)]
        assms(6) unfolding lo' by auto
    then show ?thesis using b1(2,3) rd [rule_format, of b''] that same_inside_mono [OF that(2) pos] by simp
  qed
  then show "\<exists>b'. run_all ((\<lambda>b. enc b lo x) # ws) b = Inr b' \<and> length b' = length b \<and> same_outside lo hi b b' \<and>
      (\<forall>b''. length b'' = length b \<longrightarrow> same_inside lo hi b' b'' \<longrightarrow> bindR (dec b'' lo) (\<lambda>x. rd x b'') = Inr v)"
    using b1(1,2) b2(1,2) same_outside_trans [OF b1(4) b2(3) pos assms(6)] by auto
qed

text \<open>A step that appends frames, and a decoder that reads them back.\<close>

definition codes :: "(client_message \<Rightarrow> client_message res) \<Rightarrow> 'a decoder \<Rightarrow> 'a \<Rightarrow> bool" where
  "codes step dec v \<longleftrightarrow> (\<forall>m. under_construction m \<longrightarrow>
     (\<exists>fs m'. step m = Inr m' \<and> adds m fs m' \<and> reads dec fs v))"

lemma codes_of: "frame_codec enc dec ok \<Longrightarrow> ok v \<Longrightarrow> codes (enc v) dec v"
  unfolding codes_def using frame_codec.enc_dec [of enc dec ok v] by blast

lemma codes_Nil: "codes (run_all []) (\<lambda>m. Inr (v, m)) v"
  using adds_Nil by (fastforce simp: codes_def reads_def)

lemma reads_bind:
  assumes "reads dec fs x" and "reads (cont x) gs v"
  shows "reads (\<lambda>m. bindR (dec m) (\<lambda>(x, m). cont x m)) (fs @ gs) v"
  unfolding reads_def
proof (intro allI impI)
  fix m hs rest assume h: "frames_like (fs @ gs) hs" "at_frames m (hs @ rest)"
  obtain h1 h2 where hs: "hs = h1 @ h2" "frames_like fs h1" "frames_like gs h2"
    using h(1) by (auto simp: list_all2_append1)
  obtain m1 where m1: "dec m = Inr (x, m1)" "at_frames m1 (h2 @ rest)"
    using readsD [OF assms(1) hs(2), of m "h2 @ rest"] h(2) hs(1) by auto
  then show "\<exists>m'. bindR (dec m) (\<lambda>(x, m). cont x m) = Inr (v, m') \<and> at_frames m' rest"
    using readsD [OF assms(2) hs(3) m1(2)] by simp
qed

lemma codes_Cons:
  assumes "codes step dec x" and "codes (run_all steps) (cont x) v"
  shows "codes (run_all (step # steps)) (\<lambda>m. bindR (dec m) (\<lambda>(x, m). cont x m)) v"
  unfolding codes_def
proof (intro allI impI)
  fix m assume m: "under_construction m"
  obtain fs m1 where fs: "step m = Inr m1" "adds m fs m1" "reads dec fs x"
    using assms(1) m unfolding codes_def by blast
  obtain gs m2 where gs: "run_all steps m1 = Inr m2" "adds m1 gs m2" "reads (cont x) gs v"
    using assms(2) adds_construction [OF fs(2)] unfolding codes_def by blast
  show "\<exists>fs m'. run_all (step # steps) m = Inr m' \<and> adds m fs m' \<and>
      reads (\<lambda>m. bindR (dec m) (\<lambda>(x, m). cont x m)) fs v"
    using fs(1) gs(1) adds_trans [OF fs(2) gs(2)] reads_bind [of dec fs x cont gs v] fs(3) gs(3) by auto
qed

lemma codes_initial:
  assumes "fields_code 0 n ws rd v" and "0 \<le> n" and "n < 2 ^ 31"
  shows "codes (initial_frame junk n ws) (read_initial rd) v"
  unfolding codes_def
proof (intro allI impI)
  fix m assume m: "under_construction m"
  obtain f where f: "createInitialFrame junk n (Some DEFAULT_FLAGS) = Inr f" "int (length (content f)) = n"
    using assms(2,3) by (auto simp: createInitialFrame_def allocUnsafe_def newFrame_def)
  obtain b where b: "run_all ws (content f) = Inr b" "rd b = Inr v"
    using assms(1) f(2) unfolding fields_code_def by (fastforce simp: same_inside_def)
  have "reads (read_initial rd) [f\<lparr>content := b\<rparr>] v"
    unfolding reads_def
  proof (intro allI impI)
    fix m gs rest assume "frames_like [f\<lparr>content := b\<rparr>] gs" "at_frames m (gs @ rest)"
    then show "\<exists>m'. read_initial rd m = Inr (v, m') \<and> at_frames m' rest"
      using next_frame_at [of m] b(2) by (fastforce simp: read_initial_def list_all2_Cons1 frame_like_def)
  qed
  then show "\<exists>fs m'. initial_frame junk n ws m = Inr m' \<and> adds m fs m' \<and> reads (read_initial rd) fs v"
    using f(1) b(1) addFrame_adds [OF m] by (auto simp: initial_frame_def)
qed

lemma fastForward_at: "at_frames m (e # rest) \<Longrightarrow> isEndFrame e \<Longrightarrow>
    \<exists>m'. fastForwardToEndFrame m = Inr m' \<and> at_frames m' rest"
  using next_frame_at [of m e rest]
  by (auto simp: fastForwardToEndFrame_def fastForward.simps [of "Suc 0"] fastForward.simps [of 0])

lemma reads_structure:
  assumes "reads dec fs v"
  shows "reads (decode_structure dec) (copyFrame BEGIN_FRAME # fs @ [copyFrame END_FRAME]) v"
  unfolding reads_def
proof (intro allI impI)
  fix m gs rest
  assume like: "frames_like (copyFrame BEGIN_FRAME # fs @ [copyFrame END_FRAME]) gs" and m: "at_frames m (gs @ rest)"
  then obtain b g e where g: "gs = b # g @ [e]" "frames_like fs g" "isEndFrame e"
    by (auto simp: list_all2_Cons1 list_all2_append1 frame_like_def)
  obtain m1 where m1: "dec (skip_frame m) = Inr (v, m1)" "at_frames m1 (e # rest)"
    using readsD [OF assms g(2), of "skip_frame m" "e # rest"] skip_at [of m b "g @ e # rest"] m g(1) by auto
  show "\<exists>m'. decode_structure dec m = Inr (v, m') \<and> at_frames m' rest"
    using m1(1) fastForward_at [OF m1(2) g(3)] by (auto simp: decode_structure_def)
qed

lemma structure_codec:
  assumes "\<And>v. ok v \<Longrightarrow> codes (run_all (parts v)) dec v"
  shows "nonnull_codec (\<lambda>v. encode_structure (parts v)) (decode_structure dec) ok"
proof (rule nonnull_codecI)
  fix v m assume v: "ok v" and m: "under_construction m"
  let ?b = "copyFrame BEGIN_FRAME" and ?e = "copyFrame END_FRAME"
  note b = addFrame_adds [OF m, of ?b]
  obtain fs m1 where fs: "run_all (parts v) (addFrame ?b m) = Inr m1" "adds (addFrame ?b m) fs m1" "reads dec fs v"
    using assms [OF v] adds_construction [OF b] unfolding codes_def by blast
  have "adds m (?b # fs @ [?e]) (addFrame ?e m1)"
    using adds_trans [OF adds_trans [OF b fs(2)] addFrame_adds [OF adds_construction [OF fs(2)], of ?e]] by simp
  then show "\<exists>fs m'. encode_structure (parts v) m = Inr m' \<and> adds m fs m' \<and> fs \<noteq> [] \<and> \<not> isEndFrame (hd fs) \<and>
      \<not> isNullFrame (hd fs) \<and> reads (decode_structure dec) fs v"
    using fs(1) reads_structure [OF fs(3)]
    by (intro exI [of _ "?b # fs @ [?e]"] exI [of _ "addFrame ?e m1"]) (simp add: encode_structure_def)
qed

named_theorems codec_steps \<open>the steps of a codec with what they read back\<close>

lemma codes_NilI [codec_steps]: "w = v \<Longrightarrow> codes (run_all []) (\<lambda>m. Inr (w, m)) v"
  using codes_Nil by simp

declare codes_Cons [codec_steps] codes_initial [codec_steps] fields_Nil [codec_steps]

lemmas fixed_steps [codec_steps] =
  fields_Cons [OF int_item.fixed_codec_axioms] fields_Cons [OF byte_item.fixed_codec_axioms]
  fields_Cons [OF boolean_item.fixed_codec_axioms] fields_Cons [OF long_item.fixed_codec_axioms]
  fields_Cons [OF uuid_item.fixed_codec_axioms]

lemmas frame_steps [codec_steps] =
  codes_of [OF string_frame.frame_codec_axioms] codes_of [OF string_frame.nullable_codec]
  codes_of [OF data_frame.frame_codec_axioms] codes_of [OF data_frame.nullable_codec]
  codes_of [OF listInteger_frame.frame_codec_axioms]
  codes_of [OF nonnull_codec.axioms(1) [OF data_data_entry.entries_codec]]
  codes_of [OF nonnull_codec.axioms(1) [OF string_string_entry.map_codec]]
  codes_of [OF nonnull_codec.axioms(1) [OF string_frame.list_codec]]

subsection \<open>The codecs meet the contract\<close>

definition address_ok :: "address_impl \<Rightarrow> bool" where
  "address_ok a \<longleftrightarrow> in_sint 4 (port a) \<and> well_formed_utf16 (host a)"

interpretation address_frame: nonnull_codec "Address_encode junk" Address_decode address_ok for junk
  unfolding Address_encode_def [abs_def] Address_decode_def
  by (rule structure_codec) (rule codec_steps | simp add: address_ok_def)+

declare codes_of [OF address_frame.frame_codec_axioms, codec_steps]

definition member_version_ok :: "member_version \<Rightarrow> bool" where
  "member_version_ok v \<longleftrightarrow> in_uint 1 (major v) \<and> in_uint 1 (minor v) \<and> in_uint 1 (patch v)"

interpretation memberVersion_frame: nonnull_codec "MemberVersion_encode junk" MemberVersion_decode
  member_version_ok for junk
  unfolding MemberVersion_encode_def [abs_def] MemberVersion_decode_def
  by (rule structure_codec) (rule codec_steps | simp add: member_version_ok_def)+

declare codes_of [OF memberVersion_frame.frame_codec_axioms, codec_steps]

definition endpoint_qualifier_ok :: "endpoint_qualifier \<Rightarrow> bool" where
  "endpoint_qualifier_ok q \<longleftrightarrow> in_sint 4 (eq_type q) \<and> pred_option well_formed_utf16 (eq_identifier q)"

interpretation endpointQualifier_frame: nonnull_codec "EndpointQualifier_encode junk" EndpointQualifier_decode
  endpoint_qualifier_ok for junk
  unfolding EndpointQualifier_encode_def [abs_def] EndpointQualifier_decode_def
  by (rule structure_codec) (rule codec_steps | simp add: endpoint_qualifier_ok_def)+

definition stack_trace_element_ok :: "stack_trace_element \<Rightarrow> bool" where
  "stack_trace_element_ok s \<longleftrightarrow> in_sint 4 (st_lineNumber s) \<and> well_formed_utf16 (st_className s) \<and>
     well_formed_utf16 (st_methodName s) \<and> pred_option well_formed_utf16 (st_fileName s)"

interpretation stackTraceElement_frame: nonnull_codec "StackTraceElement_encode junk" StackTraceElement_decode
  stack_trace_element_ok for junk
  unfolding StackTraceElement_encode_def [abs_def] StackTraceElement_decode_def
  by (rule structure_codec) (rule codec_steps | simp add: stack_trace_element_ok_def)+

declare codes_of [OF nonnull_codec.axioms(1) [OF stackTraceElement_frame.list_codec], codec_steps]

definition error_holder_ok :: "error_holder \<Rightarrow> bool" where
  "error_holder_ok e \<longleftrightarrow> in_sint 4 (errorCode e) \<and> well_formed_utf16 (eh_className e) \<and>
     pred_option well_formed_utf16 (eh_message e) \<and> list_all stack_trace_element_ok (stackTraceElements e)"

interpretation errorHolder_frame: nonnull_codec "ErrorHolder_encode junk" ErrorHolder_decode error_holder_ok for junk
  unfolding ErrorHolder_encode_def [abs_def] ErrorHolder_decode_def
  by (rule structure_codec) (rule codec_steps | simp add: error_holder_ok_def)+

definition sql_error_ok :: "sql_error \<Rightarrow> bool" where
  "sql_error_ok e \<longleftrightarrow> in_sint 4 (se_code e) \<and> uuid_ok (originatingMemberId e) \<and>
     pred_option well_formed_utf16 (se_message e)"

interpretation sqlError_frame: nonnull_codec "SqlError_encode junk" SqlError_decode sql_error_ok for junk
  unfolding SqlError_encode_def [abs_def] SqlError_decode_def
  by (rule structure_codec) (rule codec_steps | simp add: sql_error_ok_def)+

definition sql_query_id_ok :: "sql_query_id \<Rightarrow> bool" where
  "sql_query_id_ok q \<longleftrightarrow> long_ok (memberIdHigh q) \<and> long_ok (memberIdLow q) \<and> long_ok (localIdHigh q) \<and>
     long_ok (localIdLow q)"

interpretation sqlQueryId_frame: nonnull_codec "SqlQueryId_encode junk" SqlQueryId_decode sql_query_id_ok for junk
  unfolding SqlQueryId_encode_def [abs_def] SqlQueryId_decode_def
  by (rule structure_codec) (rule codec_steps | simp add: sql_query_id_ok_def)+

definition raft_group_id_ok :: "raft_group_id \<Rightarrow> bool" where
  "raft_group_id_ok g \<longleftrightarrow> well_formed_utf16 (rg_name g) \<and> long_ok (rg_seed g) \<and> long_ok (rg_id g)"

interpretation raftGroupId_frame: nonnull_codec "RaftGroupId_encode junk" RaftGroupId_decode raft_group_id_ok for junk
  unfolding RaftGroupId_encode_def [abs_def] RaftGroupId_decode_def
  by (rule structure_codec) (rule codec_steps | simp add: raft_group_id_ok_def)+

definition distributed_object_info_ok :: "distributed_object_info \<Rightarrow> bool" where
  "distributed_object_info_ok d \<longleftrightarrow> well_formed_utf16 (doi_serviceName d) \<and> well_formed_utf16 (doi_name d)"

interpretation distributedObjectInfo_frame: nonnull_codec DistributedObjectInfo_encode DistributedObjectInfo_decode
  distributed_object_info_ok
  unfolding DistributedObjectInfo_encode_def [abs_def] DistributedObjectInfo_decode_def
  by (rule structure_codec) (rule codec_steps | simp add: distributed_object_info_ok_def)+

definition bitmap_index_options_ok :: "bitmap_index_options \<Rightarrow> bool" where
  "bitmap_index_options_ok v \<longleftrightarrow> in_sint 4 (uniqueKeyTransformation v) \<and> well_formed_utf16 (uniqueKey v)"

interpretation bitmapIndexOptions_frame: nonnull_codec "BitmapIndexOptions_encode junk" BitmapIndexOptions_decode
  bitmap_index_options_ok for junk
  unfolding BitmapIndexOptions_encode_def [abs_def] BitmapIndexOptions_decode_def
  by (rule structure_codec) (rule codec_steps | simp add: bitmap_index_options_ok_def)+

declare codes_of [OF bitmapIndexOptions_frame.nullable_codec, codec_steps]

definition index_config_ok :: "index_config \<Rightarrow> bool" where
  "index_config_ok c \<longleftrightarrow> in_sint 4 (ic_type c) \<and> pred_option well_formed_utf16 (ic_name c) \<and> ic_name c \<noteq> Some [] \<and>
     list_all well_formed_utf16 (ic_attributes c) \<and> pred_option bitmap_index_options_ok (bitmapIndexOptions c)"

interpretation indexConfig_frame: nonnull_codec "IndexConfig_encode junk" IndexConfig_decode index_config_ok for junk
  unfolding IndexConfig_encode_def [abs_def] IndexConfig_decode_def
  by (rule structure_codec) (rule codec_steps | simp add: index_config_ok_def newIndexConfig_def)+

definition anchor_list_ok :: "anchor_data_list_holder \<Rightarrow> bool" where
  "anchor_list_ok a \<longleftrightarrow> list_all (in_sint 4) (anchorPageList a) \<and>
     list_all (\<lambda>e. heap_data_wf (fst e) \<and> heap_data_wf (snd e)) (anchorDataList a)"

interpretation anchorDataListHolder_frame: nonnull_codec "AnchorDataListHolder_encode junk"
  AnchorDataListHolder_decode anchor_list_ok for junk
  unfolding AnchorDataListHolder_encode_def [abs_def] AnchorDataListHolder_decode_def
  by (rule structure_codec) (rule codec_steps | simp add: anchor_list_ok_def)+

declare codes_of [OF anchorDataListHolder_frame.frame_codec_axioms, codec_steps]

definition paging_predicate_holder_ok :: "paging_predicate_holder \<Rightarrow> bool" where
  "paging_predicate_holder_ok p \<longleftrightarrow> anchor_list_ok (anchorDataListHolder p) \<and>
     pred_option heap_data_wf (predicateData p) \<and> pred_option heap_data_wf (comparatorData p) \<and>
     pred_option heap_data_wf (partitionKeyData p) \<and> in_sint 4 (pageSize p) \<and> in_sint 4 (page p) \<and>
     in_uint 1 (iterationTypeId p)"

interpretation pagingPredicateHolder_frame: nonnull_codec "PagingPredicateHolder_encode junk"
  PagingPredicateHolder_decode paging_predicate_holder_ok for junk
  unfolding PagingPredicateHolder_encode_def [abs_def] PagingPredicateHolder_decode_def
  by (rule structure_codec) (rule codec_steps | simp add: paging_predicate_holder_ok_def)+

text \<open>The fields a decoder looks for before it reads them: the address map and the nullable flag.\<close>

lemma endpoint_map_codec:
  "nonnull_codec (Map_encode (EndpointQualifier_encode junk) (Address_encode junk))
     (Map_decode (\<lambda>_ _. False) EndpointQualifier_decode Address_decode)
     (\<lambda>mp. distinct_keys (\<lambda>_ _. False) mp \<and> list_all (\<lambda>e. endpoint_qualifier_ok (fst e) \<and> address_ok (snd e)) mp)"
  by (intro entry_frame_codec.map_codec entry_frame_codec.intro endpointQualifier_frame.frame_codec_axioms
      address_frame.frame_codec_axioms)

lemma addressMap_codes:
  assumes "list_all (\<lambda>e. endpoint_qualifier_ok (fst e) \<and> address_ok (snd e)) am"
  shows "codes (Map_encode (EndpointQualifier_encode junk) (Address_encode junk) am) decode_addressMap (True, am)"
  unfolding codes_def
proof (intro allI impI)
  let ?enc = "Map_encode (EndpointQualifier_encode junk) (Address_encode junk)"
    and ?dec = "Map_decode (\<lambda>_ _. False) EndpointQualifier_decode Address_decode"
  fix m assume m: "under_construction m"
  have "sorted_wrt (\<lambda>a b. True) am" by (induction am) simp_all
  then have ok: "distinct_keys (\<lambda>_ _. False) am" by (simp add: distinct_keys_def)
  obtain fs m' where fs: "?enc am m = Inr m'" "adds m fs m'" "fs \<noteq> []" "\<not> isEndFrame (hd fs)" "reads ?dec fs am"
    using frame_codec.enc_dec [OF nonnull_codec.axioms(1) [OF endpoint_map_codec], of am m junk] ok assms m by blast
  have "reads decode_addressMap fs (True, am)"
    unfolding reads_def
  proof (intro allI impI)
    fix m gs rest assume g: "frames_like fs gs" "at_frames m (gs @ rest)"
    obtain h gs' where h: "gs = h # gs'" "frame_like (hd fs) h" using like_hd [OF g(1) fs(3)] by blast
    have "peek_frame m = Inr h" "\<not> isEndFrame h"
      using peek_at [of m h "gs' @ rest"] g(2) h fs(4) by (simp_all add: frame_like_def)
    then show "\<exists>m'. decode_addressMap m = Inr ((True, am), m') \<and> at_frames m' rest"
      using readsD [OF fs(5) g] by (auto simp: decode_addressMap_def)
  qed
  then show "\<exists>fs m'. ?enc am m = Inr m' \<and> adds m fs m' \<and> reads decode_addressMap fs (True, am)"
    using fs by blast
qed

lemma nullable_flag_codes:
  "fields_code 4 5 [\<lambda>b. encodeBoolean b 4 x] (\<lambda>b. bindR (decode_nullable_flag b) (\<lambda>n. Inr (t, n))) (t, True, x)"
proof -
  have "fields_code 4 5 [\<lambda>b. encodeBoolean b 4 x] (\<lambda>b. bindR (decodeBoolean b 4) (\<lambda>n. Inr (t, True, n))) (t, True, x)"
    by (rule codec_steps | simp)+
  moreover have "bindR (decode_nullable_flag b) (\<lambda>n. Inr (t, n)) = bindR (decodeBoolean b 4) (\<lambda>n. Inr (t, True, n))"
    if "5 \<le> int (length b)" for b
    using that by (simp add: decode_nullable_flag_def bindR_assoc)
  ultimately show ?thesis unfolding fields_code_def by (metis (no_types, lifting))
qed

declare addressMap_codes [codec_steps] nullable_flag_codes [codec_steps]

definition member_info_ok :: "member_info \<Rightarrow> bool" where
  "member_info_ok i \<longleftrightarrow> address_ok (mi_address i) \<and> uuid_ok (mi_uuid i) \<and> distinct_keys (=) (mi_attributes i) \<and>
     list_all (\<lambda>e. well_formed_utf16 (fst e) \<and> well_formed_utf16 (snd e)) (mi_attributes i) \<and>
     member_version_ok (mi_version i) \<and>
     list_all (\<lambda>e. endpoint_qualifier_ok (fst e) \<and> address_ok (snd e)) (mi_addressMap i)"

interpretation memberInfo_frame: nonnull_codec "MemberInfo_encode junk" MemberInfo_decode member_info_ok for junk
  unfolding MemberInfo_encode_def [abs_def] MemberInfo_decode_def
  by (rule structure_codec) (rule codec_steps | simp add: member_info_ok_def newMemberInfo_def)+

definition sql_column_metadata_ok :: "sql_column_metadata \<Rightarrow> bool" where
  "sql_column_metadata_ok c \<longleftrightarrow> in_sint 4 (cm_type c) \<and> well_formed_utf16 (cm_name c)"

interpretation sqlColumnMetadata_frame: nonnull_codec "SqlColumnMetadata_encode junk" SqlColumnMetadata_decode
  sql_column_metadata_ok for junk
  unfolding SqlColumnMetadata_encode_def [abs_def] SqlColumnMetadata_decode_def
  by (rule structure_codec) (rule codec_steps | simp add: sql_column_metadata_ok_def newSqlColumnMetadata_def)+

definition simple_entry_view_ok :: "simple_entry_view \<Rightarrow> bool" where
  "simple_entry_view_ok v \<longleftrightarrow> list_all long_ok [ev_cost v, ev_creationTime v, ev_expirationTime v, ev_hits v,
     ev_lastAccessTime v, ev_lastStoredTime v, ev_lastUpdateTime v, ev_version v, ev_ttl v, ev_maxIdle v] \<and>
     heap_data_wf (ev_key v) \<and> heap_data_wf (ev_value v)"

interpretation simpleEntryView_frame: nonnull_codec "SimpleEntryView_encode junk" SimpleEntryView_decode
  simple_entry_view_ok for junk
  unfolding SimpleEntryView_encode_def [abs_def] SimpleEntryView_decode_def
  by (rule structure_codec)
    (rule codec_steps | simp add: simple_entry_view_ok_def entry_view_times.defs simple_entry_view.defs)+

end
