(* ===== verification/ProtoValues.thy ===== *)
theory ProtoValues
  imports CustomCodecs
begin

section \<open>The parameters of a message\<close>

text \<open>
  The parameters of a request or response: a sequence of values of the builtin and custom types behind an
  initial frame. The constructor of a value tells which codec it is written and read with.
\<close>

datatype proto_value =
    PString js_string | PNullableString "js_string option" | PBytes buffer
  | PData heap_data | PNullableData "heap_data option" | PListData "heap_data list"
  | PListInteger "int list" | PListLong "js_long list" | PListUUID "uuid option list"
  | PIntegerUUID "(int \<times> uuid option) list" | PUUIDLong "(uuid option \<times> js_long) list"
  | PUUIDListInteger "(uuid option \<times> int list option) list" | PEntries "(heap_data \<times> heap_data) list"
  | PListString "js_string list" | PListNullableData "heap_data option list"
  | PAddress address_impl
  | PListMember "member_info list"
  | PListError "error_holder list"
  | PNullableSqlError "sql_error option"
  | PNullableColumns "sql_column_metadata list option"
  | PSqlQueryId sql_query_id
  | PRaftGroupId raft_group_id
  | PListObjectInfo "distributed_object_info list"
  | PIndexConfig index_config
  | PPagingPredicate paging_predicate_holder
  | PNullableEntryView "simple_entry_view option"

definition as_value :: "('a \<Rightarrow> proto_value) \<Rightarrow> 'a decoder \<Rightarrow> proto_value decoder" where
  "as_value C dec m = bindR (dec m) (\<lambda>(x, m). Inr (C x, m))"

fun encode_value :: "(nat \<Rightarrow> byte) \<Rightarrow> proto_value encoder" where
  "encode_value junk (PString s) = String_encode s"
| "encode_value junk (PNullableString s) = encodeNullable String_encode s"
| "encode_value junk (PBytes b) = ByteArray_encode b"
| "encode_value junk (PData d) = Data_encode d"
| "encode_value junk (PNullableData d) = Data_encodeNullable d"
| "encode_value junk (PListData ds) = ListData_encode ds"
| "encode_value junk (PListInteger xs) = ListInteger_encode junk xs"
| "encode_value junk (PListLong xs) = ListLong_encode junk xs"
| "encode_value junk (PListUUID xs) = ListUUID_encode junk xs"
| "encode_value junk (PIntegerUUID es) = EntryListIntegerUUID_encode junk es"
| "encode_value junk (PUUIDLong es) = EntryListUUIDLong_encode junk es"
| "encode_value junk (PUUIDListInteger es) = EntryListUUIDListInteger_encode junk es"
| "encode_value junk (PEntries es) = EntryList_encode Data_encode Data_encode es"
| "encode_value junk (PListString ss) = ListMultiFrame_encode String_encode ss"
| "encode_value junk (PListNullableData ds) = ListMultiFrame_encodeContainsNullable Data_encode ds"
| "encode_value junk (PAddress v) = Address_encode junk v"
| "encode_value junk (PListMember v) = ListMultiFrame_encode (MemberInfo_encode junk) v"
| "encode_value junk (PListError v) = ListMultiFrame_encode (ErrorHolder_encode junk) v"
| "encode_value junk (PNullableSqlError v) = encodeNullable (SqlError_encode junk) v"
| "encode_value junk (PNullableColumns v) = ListMultiFrame_encodeNullable (SqlColumnMetadata_encode junk) v"
| "encode_value junk (PSqlQueryId v) = SqlQueryId_encode junk v"
| "encode_value junk (PRaftGroupId v) = RaftGroupId_encode junk v"
| "encode_value junk (PListObjectInfo v) = ListMultiFrame_encode DistributedObjectInfo_encode v"
| "encode_value junk (PIndexConfig v) = IndexConfig_encode junk v"
| "encode_value junk (PPagingPredicate v) = PagingPredicateHolder_encode junk v"
| "encode_value junk (PNullableEntryView v) = encodeNullable (SimpleEntryView_encode junk) v"

fun decode_value :: "proto_value \<Rightarrow> proto_value decoder" where
  "decode_value (PString _) = as_value PString String_decode"
| "decode_value (PNullableString _) = as_value PNullableString (decodeNullable String_decode)"
| "decode_value (PBytes _) = as_value PBytes ByteArray_decode"
| "decode_value (PData _) = as_value PData Data_decode"
| "decode_value (PNullableData _) = as_value PNullableData Data_decodeNullable"
| "decode_value (PListData _) = as_value PListData ListData_decode"
| "decode_value (PListInteger _) = as_value PListInteger ListInteger_decode"
| "decode_value (PListLong _) = as_value PListLong ListLong_decode"
| "decode_value (PListUUID _) = as_value PListUUID ListUUID_decode"
| "decode_value (PIntegerUUID _) = as_value PIntegerUUID EntryListIntegerUUID_decode"
| "decode_value (PUUIDLong _) = as_value PUUIDLong EntryListUUIDLong_decode"
| "decode_value (PUUIDListInteger _) = as_value PUUIDListInteger EntryListUUIDListInteger_decode"
| "decode_value (PEntries _) = as_value PEntries (EntryList_decode Data_decode Data_decode)"
| "decode_value (PListString _) = as_value PListString (ListMultiFrame_decode String_decode)"
| "decode_value (PListNullableData _) =
     as_value PListNullableData (ListMultiFrame_decodeContainsNullable Data_decode)"
| "decode_value (PAddress _) = as_value PAddress Address_decode"
| "decode_value (PListMember _) = as_value PListMember (ListMultiFrame_decode MemberInfo_decode)"
| "decode_value (PListError _) = as_value PListError (ListMultiFrame_decode ErrorHolder_decode)"
| "decode_value (PNullableSqlError _) = as_value PNullableSqlError (decodeNullable SqlError_decode)"
| "decode_value (PNullableColumns _) = as_value PNullableColumns (ListMultiFrame_decodeNullable SqlColumnMetadata_decode)"
| "decode_value (PSqlQueryId _) = as_value PSqlQueryId SqlQueryId_decode"
| "decode_value (PRaftGroupId _) = as_value PRaftGroupId RaftGroupId_decode"
| "decode_value (PListObjectInfo _) = as_value PListObjectInfo (ListMultiFrame_decode DistributedObjectInfo_decode)"
| "decode_value (PIndexConfig _) = as_value PIndexConfig IndexConfig_decode"
| "decode_value (PPagingPredicate _) = as_value PPagingPredicate PagingPredicateHolder_decode"
| "decode_value (PNullableEntryView _) = as_value PNullableEntryView (decodeNullable SimpleEntryView_decode)"

fun value_ok :: "proto_value \<Rightarrow> bool" where
  "value_ok (PString s) = well_formed_utf16 s"
| "value_ok (PNullableString s) = pred_option well_formed_utf16 s"
| "value_ok (PBytes b) = True"
| "value_ok (PData d) = heap_data_wf d"
| "value_ok (PNullableData d) = pred_option heap_data_wf d"
| "value_ok (PListData ds) = list_all heap_data_wf ds"
| "value_ok (PListInteger xs) = list_all (in_sint 4) xs"
| "value_ok (PListLong xs) = list_all long_ok xs"
| "value_ok (PListUUID xs) = list_all uuid_ok xs"
| "value_ok (PIntegerUUID es) = list_all (\<lambda>e. in_sint 4 (fst e) \<and> uuid_ok (snd e)) es"
| "value_ok (PUUIDLong es) = list_all (\<lambda>e. uuid_ok (fst e) \<and> long_ok (snd e)) es"
| "value_ok (PUUIDListInteger es) =
     list_all (\<lambda>e. uuid_ok (fst e) \<and> snd e \<noteq> None \<and> list_all (in_sint 4) (the (snd e))) es"
| "value_ok (PEntries es) = list_all (\<lambda>e. heap_data_wf (fst e) \<and> heap_data_wf (snd e)) es"
| "value_ok (PListString ss) = list_all well_formed_utf16 ss"
| "value_ok (PListNullableData ds) = list_all (pred_option heap_data_wf) ds"
| "value_ok (PAddress v) = address_ok v"
| "value_ok (PListMember v) = list_all member_info_ok v"
| "value_ok (PListError v) = list_all error_holder_ok v"
| "value_ok (PNullableSqlError v) = pred_option sql_error_ok v"
| "value_ok (PNullableColumns v) = pred_option (list_all sql_column_metadata_ok) v"
| "value_ok (PSqlQueryId v) = sql_query_id_ok v"
| "value_ok (PRaftGroupId v) = raft_group_id_ok v"
| "value_ok (PListObjectInfo v) = list_all distributed_object_info_ok v"
| "value_ok (PIndexConfig v) = index_config_ok v"
| "value_ok (PPagingPredicate v) = paging_predicate_holder_ok v"
| "value_ok (PNullableEntryView v) = pred_option simple_entry_view_ok v"

lemma as_value_codec:
  assumes "frame_codec enc dec ok" and "ok x" and "under_construction m"
  shows "\<exists>fs m'. enc x m = Inr m' \<and> adds m fs m' \<and> reads (as_value C dec) fs (C x)"
proof -
  obtain fs m' where fs: "enc x m = Inr m'" "adds m fs m'" "reads dec fs x"
    using frame_codec.enc_dec [OF assms] by blast
  have "reads (as_value C dec) fs (C x)"
    unfolding reads_def
  proof (intro allI impI)
    fix m gs rest assume "frames_like fs gs" "at_frames m (gs @ rest)"
    then show "\<exists>m'. as_value C dec m = Inr (C x, m') \<and> at_frames m' rest"
      using readsD [OF fs(3)] by (fastforce simp: as_value_def)
  qed
  then show ?thesis using fs by blast
qed

lemmas value_codecs =
  string_frame.frame_codec_axioms string_frame.nullable_codec byteArray_frame.frame_codec_axioms
  data_frame.frame_codec_axioms dataNullable_frame.frame_codec_axioms listData_frame.frame_codec_axioms
  listInteger_frame.frame_codec_axioms listLong_frame.frame_codec_axioms listUUID_frame.frame_codec_axioms
  entryListIntegerUUID_frame.frame_codec_axioms entryListUUIDLong_frame.frame_codec_axioms
  entryListUUIDListInteger_frame.frame_codec_axioms
  nonnull_codec.axioms(1) [OF data_data_entry.entries_codec]
  nonnull_codec.axioms(1) [OF string_frame.list_codec]
  nonnull_codec.axioms(1) [OF frame_codec.list_codec [OF data_frame.nullable_codec]]
  address_frame.frame_codec_axioms
  nonnull_codec.axioms(1) [OF memberInfo_frame.list_codec]
  nonnull_codec.axioms(1) [OF errorHolder_frame.list_codec]
  sqlError_frame.nullable_codec
  nonnull_codec.nullable_codec [OF sqlColumnMetadata_frame.list_codec]
  sqlQueryId_frame.frame_codec_axioms
  raftGroupId_frame.frame_codec_axioms
  nonnull_codec.axioms(1) [OF distributedObjectInfo_frame.list_codec]
  indexConfig_frame.frame_codec_axioms
  pagingPredicateHolder_frame.frame_codec_axioms
  simpleEntryView_frame.nullable_codec

lemma encode_value_ok:
  assumes "value_ok v" and "under_construction m"
  shows "\<exists>fs m'. encode_value junk v m = Inr m' \<and> adds m fs m' \<and> reads (decode_value v) fs v"
  using assms
  by (cases v) (simp_all add: containsNullable_eq listNullable_eq value_codecs [THEN as_value_codec])

end
