(* ===== verification/Protocol.thy ===== *)
theory Protocol
  imports ProtoValues Connection
begin

section \<open>Requests and responses over a connection\<close>

text \<open>
  The codecs, the wire format and the receiving side of a connection put together: a message built
  by the codecs of the builtin and custom types arrives as a message that decodes to the same values.
\<close>

fun encode_values :: "(nat \<Rightarrow> byte) \<Rightarrow> proto_value list \<Rightarrow> client_message \<Rightarrow> client_message res" where
  "encode_values junk [] m = Inr m"
| "encode_values junk (v # vs) m = bindR (encode_value junk v m) (encode_values junk vs)"

text \<open>The second argument says only which codecs to read with, in which order.\<close>

fun decode_values :: "proto_value list \<Rightarrow> proto_value list decoder" where
  "decode_values [] m = Inr ([], m)"
| "decode_values (v # vs) m =
     bindR (decode_value v m) (\<lambda>(x, m). bindR (decode_values vs m) (\<lambda>(xs, m). Inr (x # xs, m)))"

lemma encode_values_ok:
  "list_all value_ok vs \<Longrightarrow> under_construction m \<Longrightarrow>
     \<exists>fs m'. encode_values junk vs m = Inr m' \<and> adds m fs m' \<and> reads (decode_values vs) fs vs"
proof (induction vs arbitrary: m)
  case Nil
  then show ?case using adds_Nil [of m] by (auto simp: reads_def)
next
  case (Cons v vs)
  obtain fs m1 where fs: "encode_value junk v m = Inr m1" "adds m fs m1" "reads (decode_value v) fs v"
    using encode_value_ok [of v m junk] Cons.prems by auto
  obtain gs m2 where gs: "encode_values junk vs m1 = Inr m2" "adds m1 gs m2" "reads (decode_values vs) gs vs"
    using Cons.IH [OF _ adds_construction [OF fs(2)]] Cons.prems by auto
  have "reads (decode_values (v # vs)) (fs @ gs) (v # vs)"
    using reads_seq [OF fs(3) gs(3), of Cons] by (simp add: reads_def)
  then show ?case using fs(1) gs(1) adds_trans [OF fs(2) gs(2)]
    by (intro exI [of _ "fs @ gs"] exI [of _ m2]) (simp del: decode_values.simps)
qed

lemma final_flag_other:
  assumes "frame_ok f" and "\<not> bit k 13" and "0 \<le> k" and "k < 2 ^ 16"
  shows "isFlagSet (js_or (flags f) IS_FINAL_FLAG) k = isFlagSet (flags f) k"
proof -
  have fl: "0 \<le> flags f" "flags f < 2 ^ 16" using frame_ok_flags [OF assms(1)] by auto
  have or: "0 \<le> flags f OR 8192" "flags f OR 8192 < 2 ^ 16"
    using js_or_flags [of "flags f" 8192] fl by auto
  have "(flags f OR 8192) AND k = flags f AND k"
  proof (rule bit_eqI)
    fix n
    have "bit (8192 :: int) n \<longleftrightarrow> n = 13"
      using bit_exp_iff [where 'a = int, of 13 n] by simp
    then show "bit ((flags f OR 8192) AND k) n = bit (flags f AND k) n"
      using assms(2) by (auto simp: bit_simps)
  qed
  then show ?thesis
    using or fl assms(3,4) by (simp add: isFlagSet_def addFlag_final(1) [OF assms(1), simplified] js_and_flags)
qed

lemma masks_not_final:
  "\<not> bit (2048 :: int) 13" "\<not> bit (1024 :: int) 13" "\<not> bit (4096 :: int) 13" "\<not> bit (49152 :: int) 13"
  by code_simp+

lemma addFlag_like: "frame_ok f \<Longrightarrow> frame_like f (addFlag IS_FINAL_FLAG f)"
  using final_flag_other [OF _ masks_not_final(1)] final_flag_other [OF _ masks_not_final(2)]
    final_flag_other [OF _ masks_not_final(3)]
  by (simp add: frame_like_def frame_tests addFlag_def)

lemma addFlag_unfragmented:
  "frame_ok f \<Longrightarrow> hasUnfragmentedMessageFlag (addFlag IS_FINAL_FLAG f) = hasUnfragmentedMessageFlag f"
  using final_flag_other [OF _ masks_not_final(4)] by (simp add: frame_tests addFlag_def)

lemma wire_frames_like: "list_all frame_ok fs \<Longrightarrow> frames_like fs (wire_frames fs)"
  by (induction fs rule: wire_frames.induct) (simp_all add: addFlag_like [simplified])

lemma wire_frames_hd:
  "list_all frame_ok (f # fs) \<Longrightarrow>
     hasUnfragmentedMessageFlag (hd (wire_frames (f # fs))) = hasUnfragmentedMessageFlag f"
  by (cases fs) (simp_all add: addFlag_unfragmented [simplified])

lemma fresh_at: "fresh_message fs m \<Longrightarrow> at_frames m fs"
  by (auto simp: fresh_message_def at_frames_def remaining_def message_wf_def)

text \<open>Frames that a decoder reads back, sent behind an initial frame.\<close>

lemma encoded_arrives:
  assumes "adds (addFrame initial createForEncode) fs m" and "reads dec fs v" and "hasUnfragmentedMessageFlag initial"
    and "msg_ok (frames m)" and "concat cs = enc_frames (frames m)"
  shows "\<exists>m' c' m''. receive toNumber now cs (newConnection i t) = Some (Inr ([m'], c')) \<and>
    dec (skip_frame m') = Inr (v, m'') \<and> \<not> hasNextFrame m''"
proof -
  have frs: "frames m = initial # fs"
    using assms(1) by (simp add: adds_def addFrame_def createForEncode_def newMessage_def)
  let ?w = "wire_frames (frames m)"
  have like: "frames_like (initial # fs) ?w"
    using wire_frames_like [of "frames m"] assms(4) frs by (simp add: msg_ok_def)
  then obtain g gs where g: "?w = g # gs" "frames_like fs gs" by (auto simp: list_all2_Cons1)
  have hd: "hasUnfragmentedMessageFlag (hd ?w)"
    using wire_frames_hd [of initial fs] assms(3,4) frs by (simp add: msg_ok_def)
  obtain outs c' where r: "receive toNumber now cs (newConnection i t) = Some (Inr (outs, c'))"
    "list_all2 fresh_message (fst (spec_receive toNumber (map wire_frames [frames m]) (\<lambda>_. None))) outs"
    using stream_delivery [of "[frames m]" cs toNumber now i t] assms(4,5) hd
    by (auto simp: enc_stream_def received_ok_def)
  then obtain m' where m': "outs = [m']" "fresh_message ?w m'"
    using hd by (auto simp: spec_dispatch_def list_all2_Cons1)
  have "at_frames (skip_frame m') (gs @ [])"
    using skip_at [of m' g gs] fresh_at [OF m'(2)] g(1) by simp
  then obtain m'' where "dec (skip_frame m') = Inr (v, m'')" "at_frames m'' []"
    using readsD [OF assms(2) g(2)] by blast
  moreover from this(2) have "\<not> hasNextFrame m''"
    by (auto simp: at_frames_def remaining_def hasNextFrame_def message_wf_def split: option.splits)
  ultimately show ?thesis using r(1) m'(1) by blast
qed

lemma initial_construction: "under_construction (addFrame initial createForEncode)"
proof -
  have "under_construction createForEncode"
    by (simp add: under_construction_def new_wf) (simp add: createForEncode_def newMessage_def)
  from adds_construction [OF addFrame_adds [OF this]] show ?thesis .
qed

text \<open>
  C9. Requests and responses, end to end. Let \<open>m\<close> be a message built from an unfragmented initial frame
  and values of the builtin and custom types, in any number and order. However the network cuts its bytes into
  chunks, the receiving connection delivers exactly one message, and reading this message with the
  codecs of the same types gives the same values, with no frame left over.
\<close>

theorem values_over_the_wire:
  assumes "list_all value_ok vs" and "hasUnfragmentedMessageFlag initial"
    and "encode_values junk vs (addFrame initial createForEncode) = Inr m" and "msg_ok (frames m)"
    and "concat cs = enc_frames (frames m)"
  shows "\<exists>m' c' m''. receive toNumber now cs (newConnection i t) = Some (Inr ([m'], c')) \<and>
    decode_values vs (skip_frame m') = Inr (vs, m'') \<and> \<not> hasNextFrame m''"
proof -
  obtain fs where "adds (addFrame initial createForEncode) fs m" "reads (decode_values vs) fs vs"
    using encode_values_ok [OF assms(1) initial_construction [of initial], of junk] assms(3) by auto
  from encoded_arrives [OF this assms(2,4,5)] show ?thesis .
qed

definition sample_values :: "proto_value list" where
  "sample_values = [PString [104, 105], PNullableData None]"

definition sample_initial :: frame where
  "sample_initial = newFrame [7] (Some UNFRAGMENTED_MESSAGE)"

definition sample_message :: client_message where
  "sample_message =
     addFrame (copyFrame NULL_FRAME) (addFrame (newFrame [104, 105] None) (addFrame sample_initial createForEncode))"

lemma sample_utf8: "utf8_encode [104, 105] = [104, 105]"
  by (simp add: utf8_encode_def unit_scalar_def utf8_scalar_def is_high_def is_low_def)

lemma sample_encoded:
  "encode_values (\<lambda>_. 0) sample_values (addFrame sample_initial createForEncode) = Inr sample_message"
  by (simp add: sample_values_def sample_message_def String_encode_def Data_encodeNullable_def sample_utf8)

lemma sample_frames:
  "frames sample_message = [newFrame [7] (Some 49152), newFrame [104, 105] (Some 0), newFrame [] (Some 1024)]"
  by (simp add: sample_message_def sample_initial_def addFrame_def createForEncode_def newMessage_def
      copyFrame_def NULL_FRAME_def newFrame_def)

lemma sample_not_final:
  "\<not> isFinalFrame \<lparr>content = [7], flags = 49152\<rparr>" "\<not> isFinalFrame \<lparr>content = [104, 105], flags = 0\<rparr>"
  by code_simp+

theorem values_over_the_wire_witness:
  "\<exists>m' c' m''. receive low 0 (map (\<lambda>b. [b]) (enc_frames (frames sample_message))) (newConnection 0 0) =
     Some (Inr ([m'], c')) \<and>
    decode_values sample_values (skip_frame m') = Inr (sample_values, m'') \<and> \<not> hasNextFrame m''"
proof (rule values_over_the_wire)
  show "list_all value_ok sample_values" by (simp add: sample_values_def is_high_def is_low_def)
  show "hasUnfragmentedMessageFlag sample_initial" by code_simp
  show "encode_values (\<lambda>_. 0) sample_values (addFrame sample_initial createForEncode) = Inr sample_message"
    by (rule sample_encoded)
  show "msg_ok (frames sample_message)"
    by (simp add: sample_frames msg_ok_def frame_ok_def in_uint_def newFrame_def sample_not_final)
  show "concat (map (\<lambda>b. [b]) (enc_frames (frames sample_message))) = enc_frames (frames sample_message)"
    by simp
qed

end
