(* ===== verification/ErrorFactory.thy ===== *)
theory ErrorFactory
  imports Protocol
begin

section \<open>Errors sent by the members (src/src/protocol/ErrorFactory.ts)\<close>

text \<open>
  An exception message carries a list of error holders: the error, then its cause, then the cause of the cause.
  The factory turns the code of each holder into an error class and nests the causes. Codes that no class is
  registered for become \<open>UndefinedErrorCodeError\<close>. \<open>createError\<close> takes the holders from its index on.
\<close>

subsection \<open>Error codes\<close>

text \<open>The codes that a class is registered for (src/src/protocol/ClientProtocolErrorCodes.ts).\<close>

abbreviation ARRAY_INDEX_OUT_OF_BOUNDS :: int where "ARRAY_INDEX_OUT_OF_BOUNDS \<equiv> 1"
abbreviation ARRAY_STORE :: int where "ARRAY_STORE \<equiv> 2"
abbreviation AUTHENTICATION :: int where "AUTHENTICATION \<equiv> 3"
abbreviation CALLER_NOT_MEMBER :: int where "CALLER_NOT_MEMBER \<equiv> 8"
abbreviation CANCELLATION :: int where "CANCELLATION \<equiv> 9"
abbreviation CLASS_CAST :: int where "CLASS_CAST \<equiv> 10"
abbreviation CLASS_NOT_FOUND :: int where "CLASS_NOT_FOUND \<equiv> 11"
abbreviation CONCURRENT_MODIFICATION :: int where "CONCURRENT_MODIFICATION \<equiv> 12"
abbreviation CONFIG_MISMATCH :: int where "CONFIG_MISMATCH \<equiv> 13"
abbreviation DISTRIBUTED_OBJECT_DESTROYED :: int where "DISTRIBUTED_OBJECT_DESTROYED \<equiv> 14"
abbreviation EOF :: int where "EOF \<equiv> 15"
abbreviation HAZELCAST :: int where "HAZELCAST \<equiv> 18"
abbreviation HAZELCAST_INSTANCE_NOT_ACTIVE :: int where "HAZELCAST_INSTANCE_NOT_ACTIVE \<equiv> 19"
abbreviation HAZELCAST_OVERLOAD :: int where "HAZELCAST_OVERLOAD \<equiv> 20"
abbreviation HAZELCAST_SERIALIZATION :: int where "HAZELCAST_SERIALIZATION \<equiv> 21"
abbreviation IO :: int where "IO \<equiv> 22"
abbreviation ILLEGAL_ARGUMENT :: int where "ILLEGAL_ARGUMENT \<equiv> 23"
abbreviation ILLEGAL_MONITOR_STATE :: int where "ILLEGAL_MONITOR_STATE \<equiv> 26"
abbreviation ILLEGAL_STATE :: int where "ILLEGAL_STATE \<equiv> 27"
abbreviation INDEX_OUT_OF_BOUNDS :: int where "INDEX_OUT_OF_BOUNDS \<equiv> 29"
abbreviation INTERRUPTED :: int where "INTERRUPTED \<equiv> 30"
abbreviation INVALID_ADDRESS :: int where "INVALID_ADDRESS \<equiv> 31"
abbreviation INVALID_CONFIGURATION :: int where "INVALID_CONFIGURATION \<equiv> 32"
abbreviation MEMBER_LEFT :: int where "MEMBER_LEFT \<equiv> 33"
abbreviation NEGATIVE_ARRAY_SIZE :: int where "NEGATIVE_ARRAY_SIZE \<equiv> 34"
abbreviation NO_SUCH_ELEMENT :: int where "NO_SUCH_ELEMENT \<equiv> 35"
abbreviation NOT_SERIALIZABLE :: int where "NOT_SERIALIZABLE \<equiv> 36"
abbreviation NULL_POINTER :: int where "NULL_POINTER \<equiv> 37"
abbreviation OPERATION_TIMEOUT :: int where "OPERATION_TIMEOUT \<equiv> 38"
abbreviation PARTITION_MIGRATING :: int where "PARTITION_MIGRATING \<equiv> 39"
abbreviation QUERY :: int where "QUERY \<equiv> 40"
abbreviation QUERY_RESULT_SIZE_EXCEEDED :: int where "QUERY_RESULT_SIZE_EXCEEDED \<equiv> 41"
abbreviation SPLIT_BRAIN_PROTECTION :: int where "SPLIT_BRAIN_PROTECTION \<equiv> 42"
abbreviation REACHED_MAX_SIZE :: int where "REACHED_MAX_SIZE \<equiv> 43"
abbreviation RETRYABLE_HAZELCAST :: int where "RETRYABLE_HAZELCAST \<equiv> 46"
abbreviation RETRYABLE_IO :: int where "RETRYABLE_IO \<equiv> 47"
abbreviation SOCKET :: int where "SOCKET \<equiv> 50"
abbreviation STALE_SEQUENCE :: int where "STALE_SEQUENCE \<equiv> 51"
abbreviation TARGET_DISCONNECTED :: int where "TARGET_DISCONNECTED \<equiv> 52"
abbreviation TARGET_NOT_MEMBER :: int where "TARGET_NOT_MEMBER \<equiv> 53"
abbreviation TOPIC_OVERLOAD :: int where "TOPIC_OVERLOAD \<equiv> 55"
abbreviation TRANSACTION :: int where "TRANSACTION \<equiv> 56"
abbreviation TRANSACTION_NOT_ACTIVE :: int where "TRANSACTION_NOT_ACTIVE \<equiv> 57"
abbreviation TRANSACTION_TIMED_OUT :: int where "TRANSACTION_TIMED_OUT \<equiv> 58"
abbreviation UNSUPPORTED_OPERATION :: int where "UNSUPPORTED_OPERATION \<equiv> 61"
abbreviation NO_DATA_MEMBER :: int where "NO_DATA_MEMBER \<equiv> 67"
abbreviation STALE_TASK_ID :: int where "STALE_TASK_ID \<equiv> 76"
abbreviation INDETERMINATE_OPERATION_STATE :: int where "INDETERMINATE_OPERATION_STATE \<equiv> 80"
abbreviation FLAKE_ID_NODE_ID_OUT_OF_RANGE_EXCEPTION :: int where "FLAKE_ID_NODE_ID_OUT_OF_RANGE_EXCEPTION \<equiv> 81"
abbreviation CONSISTENCY_LOST_EXCEPTION :: int where "CONSISTENCY_LOST_EXCEPTION \<equiv> 84"
abbreviation SESSION_EXPIRED_EXCEPTION :: int where "SESSION_EXPIRED_EXCEPTION \<equiv> 85"
abbreviation WAIT_KEY_CANCELLED_EXCEPTION :: int where "WAIT_KEY_CANCELLED_EXCEPTION \<equiv> 86"
abbreviation LOCK_OWNERSHIP_LOST_EXCEPTION :: int where "LOCK_OWNERSHIP_LOST_EXCEPTION \<equiv> 88"
abbreviation CP_GROUP_DESTROYED_EXCEPTION :: int where "CP_GROUP_DESTROYED_EXCEPTION \<equiv> 89"
abbreviation CANNOT_REPLICATE_EXCEPTION :: int where "CANNOT_REPLICATE_EXCEPTION \<equiv> 90"
abbreviation LEADER_DEMOTED_EXCEPTION :: int where "LEADER_DEMOTED_EXCEPTION \<equiv> 91"
abbreviation STALE_APPEND_REQUEST_EXCEPTION :: int where "STALE_APPEND_REQUEST_EXCEPTION \<equiv> 92"
abbreviation NOT_LEADER_EXCEPTION :: int where "NOT_LEADER_EXCEPTION \<equiv> 93"

definition codeToErrorConstructor :: "(int \<times> error_class) list" where
  "codeToErrorConstructor =
     [(ARRAY_INDEX_OUT_OF_BOUNDS, ArrayIndexOutOfBoundsError),
      (ARRAY_STORE, ArrayStoreError),
      (AUTHENTICATION, AuthenticationError),
      (CALLER_NOT_MEMBER, CallerNotMemberError),
      (CANCELLATION, CancellationError),
      (CLASS_CAST, ClassCastError),
      (CLASS_NOT_FOUND, ClassNotFoundError),
      (CONCURRENT_MODIFICATION, ConcurrentModificationError),
      (CONFIG_MISMATCH, ConfigMismatchError),
      (DISTRIBUTED_OBJECT_DESTROYED, DistributedObjectDestroyedError),
      (EOF, IOError),
      (HAZELCAST, HazelcastError),
      (HAZELCAST_INSTANCE_NOT_ACTIVE, HazelcastInstanceNotActiveError),
      (HAZELCAST_OVERLOAD, HazelcastError),
      (HAZELCAST_SERIALIZATION, HazelcastSerializationError),
      (INDETERMINATE_OPERATION_STATE, IndeterminateOperationStateError),
      (IO, IOError),
      (ILLEGAL_ARGUMENT, IllegalArgumentError),
      (ILLEGAL_STATE, IllegalStateError),
      (INDEX_OUT_OF_BOUNDS, IndexOutOfBoundsError),
      (INTERRUPTED, InterruptedError),
      (INVALID_ADDRESS, InvalidAddressError),
      (INVALID_CONFIGURATION, InvalidConfigurationError),
      (MEMBER_LEFT, MemberLeftError),
      (NEGATIVE_ARRAY_SIZE, NegativeArraySizeError),
      (NO_SUCH_ELEMENT, NoSuchElementError),
      (NOT_SERIALIZABLE, IOError),
      (NULL_POINTER, NullPointerError),
      (OPERATION_TIMEOUT, OperationTimeoutError),
      (PARTITION_MIGRATING, PartitionMigratingError),
      (QUERY, QueryError),
      (QUERY_RESULT_SIZE_EXCEEDED, QueryError),
      (SPLIT_BRAIN_PROTECTION, SplitBrainProtectionError),
      (REACHED_MAX_SIZE, ReachedMaxSizeError),
      (RETRYABLE_HAZELCAST, RetryableHazelcastError),
      (RETRYABLE_IO, RetryableIOError),
      (SOCKET, IOError),
      (STALE_SEQUENCE, StaleSequenceError),
      (TARGET_DISCONNECTED, TargetDisconnectedError),
      (TARGET_NOT_MEMBER, TargetNotMemberError),
      (TOPIC_OVERLOAD, TopicOverloadError),
      (TRANSACTION, TransactionError),
      (TRANSACTION_NOT_ACTIVE, TransactionNotActiveError),
      (TRANSACTION_TIMED_OUT, TransactionTimedOutError),
      (UNSUPPORTED_OPERATION, UnsupportedOperationError),
      (NO_DATA_MEMBER, NoDataMemberInClusterError),
      (STALE_TASK_ID, StaleTaskIdError),
      (FLAKE_ID_NODE_ID_OUT_OF_RANGE_EXCEPTION, NodeIdOutOfRangeError),
      (CONSISTENCY_LOST_EXCEPTION, ConsistencyLostError),
      (SESSION_EXPIRED_EXCEPTION, SessionExpiredError),
      (CP_GROUP_DESTROYED_EXCEPTION, CPGroupDestroyedError),
      (LOCK_OWNERSHIP_LOST_EXCEPTION, LockOwnershipLostError),
      (ILLEGAL_MONITOR_STATE, IllegalMonitorStateError),
      (WAIT_KEY_CANCELLED_EXCEPTION, WaitKeyCancelledError),
      (CANNOT_REPLICATE_EXCEPTION, CannotReplicateError),
      (LEADER_DEMOTED_EXCEPTION, LeaderDemotedError),
      (STALE_APPEND_REQUEST_EXCEPTION, StaleAppendRequestError),
      (NOT_LEADER_EXCEPTION, NotLeaderError)]"

subsection \<open>Building the error\<close>

datatype remote_error = RemoteError (re_class: error_class) (re_message: "js_string option")
  (re_cause: "remote_error option") (re_stack: "stack_trace_element list")

definition js_lit :: "string \<Rightarrow> js_string" where
  "js_lit s = map (\<lambda>c. word_of_nat (of_char c)) s"

text \<open>The message of an error whose code is unknown; a null message is printed as \<open>null\<close>.\<close>

definition undefined_message :: "error_holder \<Rightarrow> js_string" where
  "undefined_message h =
     js_lit ''Class name: '' @ eh_className h @ js_lit '', Message: '' @
       (case eh_message h of None \<Rightarrow> js_lit ''null'' | Some s \<Rightarrow> s)"

fun createError :: "error_holder list \<Rightarrow> remote_error option" where
  "createError [] = None"
| "createError (h # hs) =
     (case map_of codeToErrorConstructor (errorCode h) of
        Some c \<Rightarrow> Some (RemoteError c (eh_message h) (createError hs) (stackTraceElements h))
      | None \<Rightarrow> Some (RemoteError UndefinedErrorCodeError (Some (undefined_message h)) (createError hs)
                  (stackTraceElements h)))"

definition EXCEPTION_MESSAGE_TYPE :: int where "EXCEPTION_MESSAGE_TYPE = 0"

definition Errors_decode :: "error_holder list decoder" where
  "Errors_decode m = ListMultiFrame_decode ErrorHolder_decode (skip_frame m)"

definition createErrorFromClientMessage :: "client_message \<Rightarrow> remote_error option res" where
  "createErrorFromClientMessage m = bindR (Errors_decode m) (\<lambda>(hs, m). Inr (createError hs))"

subsection \<open>The chain of causes\<close>

fun causes :: "remote_error option \<Rightarrow> (error_class \<times> js_string option) list" where
  "causes None = []"
| "causes (Some (RemoteError c msg cause st)) = (c, msg) # causes cause"

definition class_of_code :: "int \<Rightarrow> error_class" where
  "class_of_code code = (case map_of codeToErrorConstructor code of Some c \<Rightarrow> c | None \<Rightarrow> UndefinedErrorCodeError)"

lemma causes_createError: "map fst (causes (createError hs)) = map (class_of_code \<circ> errorCode) hs"
  by (induction hs) (auto simp: class_of_code_def split: option.split)

lemma createError_known:
  "list_all (\<lambda>h. map_of codeToErrorConstructor (errorCode h) \<noteq> None) hs \<Longrightarrow>
     map snd (causes (createError hs)) = map eh_message hs"
  by (induction hs) (auto split: option.splits)


definition sample_holder :: error_holder where
  "sample_holder = \<lparr>errorCode = 53, eh_className = [84], eh_message = None, stackTraceElements = []\<rparr>"

definition sample_exception :: client_message where
  "sample_exception = addFrame (copyFrame END_FRAME) (addFrame (copyFrame END_FRAME) (addFrame (copyFrame END_FRAME)
     (addFrame (copyFrame BEGIN_FRAME) (addFrame (copyFrame NULL_FRAME) (addFrame (newFrame [84] None)
     (addFrame (newFrame [53, 0, 0, 0] (Some 0)) (addFrame (copyFrame BEGIN_FRAME) (addFrame (copyFrame BEGIN_FRAME)
     (addFrame sample_initial createForEncode)))))))))"

lemma sample_utf8_class: "utf8_encode [84] = [84]"
  by (simp add: utf8_encode_def unit_scalar_def utf8_scalar_def is_high_def is_low_def)

lemma sample_exception_encoded:
  "ListMultiFrame_encode (ErrorHolder_encode (\<lambda>_. 0)) [sample_holder] (addFrame sample_initial createForEncode) =
     Inr sample_exception"
proof -
  have "run_all [\<lambda>b. encodeInt b 0 53] [0, 0, 0, 0] = Inr [53, 0, 0, 0]" by code_simp
  then show ?thesis
    by (simp add: ListMultiFrame_encode_def ErrorHolder_encode_def encode_structure_def initial_frame_def
      createInitialFrame_def allocUnsafe_def sample_holder_def sample_exception_def String_encode_def sample_utf8_class
      encodeNullable_def newFrame_def numeral_eq_Suc)
qed

lemma sample_exception_frames:
  "frames sample_exception = [newFrame [7] (Some 49152), newFrame [] (Some 4096), newFrame [] (Some 4096),
     newFrame [53, 0, 0, 0] (Some 0), newFrame [84] (Some 0), newFrame [] (Some 1024), newFrame [] (Some 4096),
     newFrame [] (Some 2048), newFrame [] (Some 2048), newFrame [] (Some 2048)]"
  by (simp add: sample_exception_def sample_initial_def addFrame_def createForEncode_def newMessage_def
      copyFrame_def NULL_FRAME_def BEGIN_FRAME_def END_FRAME_def newFrame_def)

lemma sample_exception_ok: "msg_ok (frames sample_exception)"
proof -
  have "\<not> isFinalFrame \<lparr>content = b, flags = 49152\<rparr>" "\<not> isFinalFrame \<lparr>content = b, flags = 4096\<rparr>"
    "\<not> isFinalFrame \<lparr>content = b, flags = 0\<rparr>" "\<not> isFinalFrame \<lparr>content = b, flags = 1024\<rparr>"
    "\<not> isFinalFrame \<lparr>content = b, flags = 2048\<rparr>" for b
    by (simp_all add: frame_tests isFlagSet_def js_and_def)
  then show ?thesis
    by (simp add: sample_exception_frames msg_ok_def frame_ok_def in_uint_def newFrame_def)
qed


end
