(* ===== verification/Uuid.thy ===== *)
theory Uuid
  imports Js_Long Js_String
begin

section \<open>Numbers and UUIDs as strings (src/src/core/UUID.ts)\<close>

text \<open>
  Maps of the client that are keyed by a UUID use its string. The digits are those of \<open>Number.toString\<close>, in
  base 10 and 16; \<open>padStart\<close> fills up to a width with a character.
\<close>

definition digit_char :: "nat \<Rightarrow> js_char" where
  "digit_char d = word_of_nat (if d < 10 then 48 + d else 87 + d)"

function digits :: "nat \<Rightarrow> nat \<Rightarrow> nat list" where
  "digits b n = (if n < b \<or> b < 2 then [n] else digits b (n div b) @ [n mod b])"
  by pat_completeness auto
termination by (relation "measure snd") (auto intro!: div_less_dividend)

declare digits.simps [simp del]

definition number_toString :: "nat \<Rightarrow> int \<Rightarrow> js_string" where
  "number_toString radix n =
     (if n < 0 then [45] else []) @ map digit_char (digits radix (nat \<bar>n\<bar>))"

definition padStart :: "js_string \<Rightarrow> nat \<Rightarrow> js_char \<Rightarrow> js_string" where
  "padStart s width c = replicate (width - length s) c @ s"

definition uuid_toString :: "long_ops \<Rightarrow> uuid \<Rightarrow> js_string" where
  "uuid_toString L u =
     (let mostHigh = long_getHighBitsUnsigned L (mostSignificant u);
          mostLow = long_getLowBitsUnsigned L (mostSignificant u);
          leastHigh = long_getHighBitsUnsigned L (leastSignificant u);
          leastLow = long_getLowBitsUnsigned L (leastSignificant u);
          div1 = number_toString 16 mostHigh;
          div2 = number_toString 16 (js_ushr mostLow 16);
          div3 = number_toString 16 (js_and mostLow (2 ^ 16 - 1));
          div4 = number_toString 16 (js_ushr leastHigh 16);
          div5 = number_toString 16 (js_and leastHigh (2 ^ 16 - 1)) @ padStart (number_toString 16 leastLow) 8 48
      in padStart div1 8 48 @ [45] @ padStart div2 4 48 @ [45] @ padStart div3 4 48 @ [45] @
         padStart div4 4 48 @ [45] @ padStart div5 12 48)"

subsection \<open>Digits and their value\<close>

definition digit_val :: "js_char \<Rightarrow> nat" where
  "digit_val c = (if unat c < 58 then unat c - 48 else unat c - 87)"

definition hex_val :: "js_string \<Rightarrow> nat" where
  "hex_val s = foldl (\<lambda>a c. a * 16 + digit_val c) 0 s"

lemma digit_val_char: "d < 16 \<Longrightarrow> digit_val (digit_char d) = d"
proof -
  assume "d < 16"
  then have "d \<in> set [0..<16]" by simp
  moreover have "list_all (\<lambda>d. digit_val (digit_char d) = d) [0..<16]" by code_simp
  ultimately show ?thesis by (simp only: list_all_iff)
qed

lemma digits_less: "1 < b \<Longrightarrow> d \<in> set (digits b n) \<Longrightarrow> d < b"
proof (induction b n rule: digits.induct)
  case (1 b n)
  then show ?case using digits.simps [of b n] by (auto split: if_splits)
qed

lemma digits_value: "1 < b \<Longrightarrow> foldl (\<lambda>a d. a * b + d) 0 (digits b n) = n"
proof (induction b n rule: digits.induct)
  case (1 b n)
  then show ?case using digits.simps [of b n] by auto
qed

lemma digits_length: "1 < b \<Longrightarrow> n < b ^ w \<Longrightarrow> 0 < w \<Longrightarrow> length (digits b n) \<le> w"
proof (induction w arbitrary: n)
  case (Suc w)
  show ?case
  proof (cases "n < b")
    case False
    then have "w \<noteq> 0" using Suc.prems by (cases w) auto
    moreover have "n div b < b ^ w" using Suc.prems by (simp add: less_mult_imp_div_less mult.commute)
    ultimately show ?thesis using Suc.IH [of "n div b"] Suc.prems False by (subst digits.simps) auto
  qed (subst digits.simps, simp)
qed simp

lemma hex_val_map: "list_all (\<lambda>d. d < 16) ds \<Longrightarrow>
    foldl (\<lambda>a c. a * 16 + digit_val c) v (map digit_char ds) = foldl (\<lambda>a d. a * 16 + d) v ds"
  by (induction ds arbitrary: v) (simp_all add: digit_val_char)

lemma hex_val_zeros: "foldl (\<lambda>a c. a * 16 + digit_val c) 0 (replicate k 48 @ s) = hex_val s"
  by (induction k) (simp_all add: hex_val_def digit_val_def)

lemma hex_val_pad: "0 \<le> n \<Longrightarrow> hex_val (padStart (number_toString 16 n) w 48) = nat n"
  using hex_val_map [of "digits 16 (nat n)" 0] digits_value [of 16 "nat n"] digits_less [of 16 _ "nat n"]
  unfolding hex_val_def padStart_def number_toString_def
  by (subst hex_val_zeros) (auto simp: hex_val_def list_all_iff)

lemma length_hex: "0 \<le> n \<Longrightarrow> n < 16 ^ w \<Longrightarrow> 0 < w \<Longrightarrow> length (number_toString 16 n) \<le> w"
  using digits_length [of 16 "nat n" w] by (simp add: number_toString_def nat_less_iff)

lemma length_pad: "length s \<le> w \<Longrightarrow> length (padStart s w c) = w"
  by (simp add: padStart_def)

lemma pad_inj:
  "0 \<le> m \<Longrightarrow> 0 \<le> n \<Longrightarrow> padStart (number_toString 16 m) w 48 = padStart (number_toString 16 n) w 48 \<longleftrightarrow> m = n"
  using hex_val_pad [of m w] hex_val_pad [of n w] by auto

lemma pads_inj:
  assumes "length s = length t" and "0 \<le> m" and "0 \<le> n"
  shows "s @ padStart (number_toString 16 m) w 48 = t @ padStart (number_toString 16 n) w 48 \<longleftrightarrow> s = t \<and> m = n"
  using pad_inj [OF assms(2,3)] assms(1) by simp

subsection \<open>The string determines the UUID\<close>

lemma hex_split16:
  assumes "0 \<le> x" and "x < 2 ^ 32" and "0 \<le> y" and "y < 2 ^ 32"
    and "js_ushr x 16 = js_ushr y 16" and "js_and x (2 ^ 16 - 1) = js_and y (2 ^ 16 - 1)"
  shows "x = y"
proof -
  let ?x = "word_of_int x :: w32" and ?y = "word_of_int y :: w32"
  have m: "w AND word_of_int (2 ^ 16 - 1) = take_bit 16 w" for w :: w32
    by (simp add: take_bit_eq_mask mask_eq_exp_minus_1)
  have d: "drop_bit 16 ?x = drop_bit 16 ?y" using assms(5) by (simp only: js_ushr_def word_uint_eq_iff)
  have t: "take_bit 16 ?x = take_bit 16 ?y"
    using assms(6) unfolding js_and_def m by (rule signed_word_eqI)
  have "?x = push_bit 16 (drop_bit 16 ?x) + take_bit 16 ?x" by (simp only: bits_ident)
  also have "\<dots> = ?y" unfolding d t by (simp only: bits_ident)
  finally have "uint ?x = uint ?y" by (simp only:)
  then show ?thesis using assms(1-4) by (simp add: uint_word_of_int)
qed

lemma high16: "0 \<le> js_ushr x 16 \<and> js_ushr x 16 < 16 ^ 4"
proof -
  have "drop_bit 16 (uint (word_of_int x :: w32)) < 2 ^ 16"
    using uint_lt2p [of "word_of_int x :: w32"] by (simp add: drop_bit_eq_div)
  moreover have "take_bit 32 (uint (word_of_int x :: w32)) = uint (word_of_int x :: w32)"
    by (rule take_bit_int_eq_self) (use uint_lt2p [of "word_of_int x :: w32"] in simp_all)
  ultimately show ?thesis by (simp add: js_ushr_def unsigned_drop_bit_eq)
qed

lemma int32_mod_inj:
  assumes "in_sint 4 x" and "in_sint 4 y" and "x mod 2 ^ 32 = y mod 2 ^ 32"
  shows "x = y"
proof (rule ccontr)
  assume "x \<noteq> y"
  moreover have "2 ^ 32 dvd x - y" using assms(3) by (simp only: mod_eq_dvd_iff)
  ultimately have "2 ^ 32 \<le> \<bar>x - y\<bar>" using dvd_imp_le_int [of "x - y" "2 ^ 32"] by simp
  then show False using assms(1,2) by (simp add: in_sint_def) linarith
qed

lemma long_mod_inj:
  assumes "long_ok a" and "long_ok b" and "high a mod 2 ^ 32 = high b mod 2 ^ 32" and "low a mod 2 ^ 32 = low b mod 2 ^ 32"
  shows "a = b"
  using int32_mod_inj [OF _ _ assms(3)] int32_mod_inj [OF _ _ assms(4)] assms(1,2) by (simp add: long_ok_def)

lemma last_block:
  assumes "0 \<le> x" and "x < 16 ^ 4" and "0 \<le> y" and "y < 16 ^ 8"
  shows "padStart (number_toString 16 x @ padStart (number_toString 16 y) 8 48) 12 48 =
    padStart (number_toString 16 x) 4 48 @ padStart (number_toString 16 y) 8 48"
  using length_hex [OF assms(1,2)] length_pad [OF length_hex [OF assms(3,4)], of 48]
  by (simp add: padStart_def)

definition hex_block :: "nat \<Rightarrow> int \<Rightarrow> js_string" where
  "hex_block w n = padStart (number_toString 16 n) w 48"

lemma block_length: "0 \<le> n \<Longrightarrow> n < 16 ^ w \<Longrightarrow> 0 < w \<Longrightarrow> length (hex_block w n) = w"
  by (simp add: hex_block_def length_pad length_hex)

lemma block8: "0 \<le> n \<Longrightarrow> n < 2 ^ 32 \<Longrightarrow> length (hex_block 8 n) = 8"
  using block_length [of n 8] by simp

lemma block4: "0 \<le> n \<Longrightarrow> n < 16 ^ 4 \<Longrightarrow> length (hex_block 4 n) = 4"
  using block_length [of n 4] by simp

lemma low16: "0 \<le> js_and x (2 ^ 16 - 1)" "js_and x (2 ^ 16 - 1) < 16 ^ 4"
  using js_and_mask_bounds [of 16 x] by simp_all

lemma word_part: "0 \<le> x mod (2 :: int) ^ 32" "x mod (2 :: int) ^ 32 < 2 ^ 32"
  by simp_all

lemma block_lengths:
  "length (hex_block 8 (x mod 2 ^ 32)) = 8" "length (hex_block 4 (js_ushr x 16)) = 4"
  "length (hex_block 4 (js_and x (2 ^ 16 - 1))) = 4"
  using block8 [OF word_part] block4 [OF low16] block4 [of "js_ushr x 16"] high16 [of x] by simp_all

lemma block_eq:
  "hex_block 8 (x mod 2 ^ 32) = hex_block 8 (y mod 2 ^ 32) \<longleftrightarrow> x mod 2 ^ 32 = y mod 2 ^ 32"
  "hex_block 4 (js_ushr x 16) = hex_block 4 (js_ushr y 16) \<longleftrightarrow> js_ushr x 16 = js_ushr y 16"
  "hex_block 4 (js_and x (2 ^ 16 - 1)) = hex_block 4 (js_and y (2 ^ 16 - 1)) \<longleftrightarrow>
     js_and x (2 ^ 16 - 1) = js_and y (2 ^ 16 - 1)"
  unfolding hex_block_def using high16 [of x] high16 [of y] low16 by (simp_all only: pad_inj word_part)

lemma uuid_string_parts:
  assumes "long_laws L"
  shows "uuid_toString L u =
    hex_block 8 (high (mostSignificant u) mod 2 ^ 32) @ [45] @
    hex_block 4 (js_ushr (low (mostSignificant u) mod 2 ^ 32) 16) @ [45] @
    hex_block 4 (js_and (low (mostSignificant u) mod 2 ^ 32) (2 ^ 16 - 1)) @ [45] @
    hex_block 4 (js_ushr (high (leastSignificant u) mod 2 ^ 32) 16) @ [45] @
    hex_block 4 (js_and (high (leastSignificant u) mod 2 ^ 32) (2 ^ 16 - 1)) @
    hex_block 8 (low (leastSignificant u) mod 2 ^ 32)"
proof -
  have "low (leastSignificant u) mod 2 ^ 32 < 16 ^ 8" by simp
  then show ?thesis
    unfolding uuid_toString_def long_lawsD(11,12) [OF assms] hex_block_def Let_def
    by (subst last_block) (use low16 word_part in auto)
qed

lemma blocks_eq:
  "hex_block 8 (a mod 2 ^ 32) @ [45] @ hex_block 4 (js_ushr b 16) @ [45] @ hex_block 4 (js_and b (2 ^ 16 - 1)) @
     [45] @ hex_block 4 (js_ushr c 16) @ [45] @ hex_block 4 (js_and c (2 ^ 16 - 1)) @ hex_block 8 (d mod 2 ^ 32) =
   hex_block 8 (a' mod 2 ^ 32) @ [45] @ hex_block 4 (js_ushr b' 16) @ [45] @ hex_block 4 (js_and b' (2 ^ 16 - 1)) @
     [45] @ hex_block 4 (js_ushr c' 16) @ [45] @ hex_block 4 (js_and c' (2 ^ 16 - 1)) @ hex_block 8 (d' mod 2 ^ 32) \<longleftrightarrow>
   a mod 2 ^ 32 = a' mod 2 ^ 32 \<and> js_ushr b 16 = js_ushr b' 16 \<and> js_and b (2 ^ 16 - 1) = js_and b' (2 ^ 16 - 1) \<and>
   js_ushr c 16 = js_ushr c' 16 \<and> js_and c (2 ^ 16 - 1) = js_and c' (2 ^ 16 - 1) \<and> d mod 2 ^ 32 = d' mod 2 ^ 32"
  by (simp only: append_eq_append_conv block_lengths block_eq list.inject length_append list.size append.simps
      simp_thms)

text \<open>
  C34. The string of a UUID determines it: two UUIDs have the same string exactly if they are equal, so the maps
  that are keyed by UUID strings never confuse two members. The string always has 36 characters.
\<close>

theorem uuid_string_unique:
  assumes "long_laws L" and "uuid_ok (Some u)" and "uuid_ok (Some v)"
  shows "(uuid_toString L u = uuid_toString L v \<longleftrightarrow> u = v) \<and> length (uuid_toString L u) = 36"
proof -
  note p = uuid_string_parts [OF assms(1)]
  have "length (uuid_toString L u) = 36"
    unfolding p by (simp only: length_append block_lengths list.size)
  moreover have "u = v" if "uuid_toString L u = uuid_toString L v"
  proof -
    have "high (mostSignificant u) mod 2 ^ 32 = high (mostSignificant v) mod 2 ^ 32 \<and>
        low (mostSignificant u) mod 2 ^ 32 = low (mostSignificant v) mod 2 ^ 32 \<and>
        high (leastSignificant u) mod 2 ^ 32 = high (leastSignificant v) mod 2 ^ 32 \<and>
        low (leastSignificant u) mod 2 ^ 32 = low (leastSignificant v) mod 2 ^ 32"
      using that unfolding p blocks_eq by (blast intro: hex_split16 word_part)
    then have "mostSignificant u = mostSignificant v" "leastSignificant u = leastSignificant v"
      using assms(2,3) long_mod_inj by (simp_all add: uuid_ok_def)
    then show ?thesis by simp
  qed
  ultimately show ?thesis by blast
qed

theorem uuid_string_unique_witness:
  "uuid_toString word_longs \<lparr>mostSignificant = \<lparr>low = -1, high = 0\<rparr>, leastSignificant = \<lparr>low = 0, high = 1\<rparr>\<rparr> \<noteq>
   uuid_toString word_longs \<lparr>mostSignificant = \<lparr>low = -1, high = 0\<rparr>, leastSignificant = \<lparr>low = 1, high = 0\<rparr>\<rparr>"
  using uuid_string_unique [OF word_longs_laws,
      of "\<lparr>mostSignificant = \<lparr>low = -1, high = 0\<rparr>, leastSignificant = \<lparr>low = 0, high = 1\<rparr>\<rparr>"
         "\<lparr>mostSignificant = \<lparr>low = -1, high = 0\<rparr>, leastSignificant = \<lparr>low = 1, high = 0\<rparr>\<rparr>"]
  by (simp add: uuid_ok_def long_ok_def in_sint_def)

end
