(* ===== verification/ClusterService.thy ===== *)
theory ClusterService
  imports ErrorFactory Uuid "HOL-Library.AList"
begin

section \<open>Members of the cluster and load balancing\<close>

text \<open>
  The list of members the cluster publishes (src/src/invocation/ClusterService.ts), the events that tell
  listeners what changed, the load balancers (src/src/util/RoundRobinLB.ts, RandomLB.ts), which are such listeners, and the
  registry of connections (src/src/network/ConnectionManager.ts) that picks connections with their help.
  \<open>Map\<close> objects keyed by strings are association lists in insertion order. The object \<open>EMPTY_SNAPSHOT\<close>, which the
  code recognises by identity, is \<open>None\<close>. Connections are named by references.
\<close>

type_synonym member = member_info

subsection \<open>Member lists\<close>

record member_list_snapshot =
  ms_version :: int
  ms_members :: "(js_string \<times> member) list"
  ms_memberList :: "member list"

definition memberUuid_toString :: "long_ops \<Rightarrow> uuid option \<Rightarrow> js_string res" where
  "memberUuid_toString L u = (case u of None \<Rightarrow> Inl TypeError | Some u \<Rightarrow> Inr (uuid_toString L u))"

definition address_toString :: "address_impl \<Rightarrow> js_string" where
  "address_toString a = host a @ [58] @ number_toString 10 (port a)"

definition member_id :: "long_ops \<Rightarrow> member \<Rightarrow> js_string" where
  "member_id L m =
     address_toString (mi_address m) @ (case mi_uuid m of None \<Rightarrow> [] | Some u \<Rightarrow> uuid_toString L u)"

fun add_members :: "long_ops \<Rightarrow> member list \<Rightarrow> (js_string \<times> member) list \<Rightarrow> (js_string \<times> member) list res" where
  "add_members L [] newMembers = Inr newMembers"
| "add_members L (i # is) newMembers =
     bindR (memberUuid_toString L (mi_uuid i)) (\<lambda>u. add_members L is (AList.update u i newMembers))"

definition createSnapshot :: "long_ops \<Rightarrow> int \<Rightarrow> member list \<Rightarrow> member_list_snapshot res" where
  "createSnapshot L memberListVersion memberInfos =
     bindR (add_members L memberInfos []) (\<lambda>newMembers.
       Inr \<lparr>ms_version = memberListVersion, ms_members = newMembers, ms_memberList = memberInfos\<rparr>)"

datatype membership_event = MemberADDED member "member list" | MemberREMOVED member "member list"

fun remove_dead :: "long_ops \<Rightarrow> member list \<Rightarrow> (js_string \<times> member) list \<Rightarrow> member list \<times> (js_string \<times> member) list" where
  "remove_dead L [] deadMembers = ([], deadMembers)"
| "remove_dead L (m # ms) deadMembers =
     (let (newMembers, deadMembers') = remove_dead L ms (AList.delete (member_id L m) deadMembers)
      in (if member_id L m \<in> fst ` set deadMembers then newMembers else m # newMembers, deadMembers'))"

text \<open>
  The events, removals first, and the connections that are closed because their member has left.
\<close>

definition detectMembershipEvents :: "long_ops \<Rightarrow> (js_string \<times> nat) list \<Rightarrow> member list \<Rightarrow> member list \<Rightarrow>
    membership_event list \<times> nat list" where
  "detectMembershipEvents L connections prevMembers currentMembers =
     (let deadMembers = fold (\<lambda>m. AList.update (member_id L m) m) prevMembers [];
          (newMembers, deadMembers) = remove_dead L currentMembers deadMembers
      in (map (\<lambda>(_, m). MemberREMOVED m currentMembers) deadMembers @ map (\<lambda>m. MemberADDED m currentMembers) newMembers,
          concat (map (\<lambda>(_, m). case mi_uuid m of None \<Rightarrow> []
             | Some u \<Rightarrow> (case map_of connections (uuid_toString L u) of None \<Rightarrow> [] | Some c \<Rightarrow> [c])) deadMembers)))"

subsection \<open>ClusterService\<close>

text \<open>A listener has the methods it defines; the notifications an operation sends are its result.\<close>

record membership_listener =
  has_init :: bool
  has_memberAdded :: bool
  has_memberRemoved :: bool

datatype notification = NotifyInit js_string "member list" | NotifyEvent js_string membership_event

record cluster_service =
  listeners :: "(js_string \<times> membership_listener) list"
  initialListFetched :: bool
  memberListSnapshot :: "member_list_snapshot option"

definition newClusterService :: cluster_service where
  "newClusterService = \<lparr>listeners = [], initialListFetched = False, memberListSnapshot = None\<rparr>"

definition getMemberList :: "cluster_service \<Rightarrow> member list" where
  "getMemberList cs = (case memberListSnapshot cs of None \<Rightarrow> [] | Some s \<Rightarrow> ms_memberList s)"

definition getMember :: "js_string \<Rightarrow> cluster_service \<Rightarrow> member option" where
  "getMember u cs = (case memberListSnapshot cs of None \<Rightarrow> None | Some s \<Rightarrow> map_of (ms_members s) u)"

definition getMembers :: "(member \<Rightarrow> bool) option \<Rightarrow> cluster_service \<Rightarrow> member list" where
  "getMembers selector cs = (case selector of None \<Rightarrow> getMemberList cs | Some sel \<Rightarrow> filter sel (getMemberList cs))"

definition getSize :: "cluster_service \<Rightarrow> nat" where
  "getSize cs = (case memberListSnapshot cs of None \<Rightarrow> 0 | Some s \<Rightarrow> length (ms_members s))"

definition fireEvents :: "membership_event list \<Rightarrow> cluster_service \<Rightarrow> notification list" where
  "fireEvents events cs =
     concat (map (\<lambda>e. concat (map (\<lambda>(i, l).
       case e of MemberADDED _ _ \<Rightarrow> if has_memberAdded l then [NotifyEvent i e] else []
       | MemberREMOVED _ _ \<Rightarrow> if has_memberRemoved l then [NotifyEvent i e] else []) (listeners cs))) events)"

definition init_listeners :: "member list \<Rightarrow> cluster_service \<Rightarrow> notification list" where
  "init_listeners ms cs = concat (map (\<lambda>(i, l). if has_init l then [NotifyInit i ms] else []) (listeners cs))"

definition addMembershipListener :: "js_string \<Rightarrow> membership_listener \<Rightarrow> cluster_service \<Rightarrow>
    cluster_service \<times> notification list" where
  "addMembershipListener registrationId l cs =
     (cs\<lparr>listeners := AList.update registrationId l (listeners cs)\<rparr>,
      if has_init l \<and> getMemberList cs \<noteq> [] then [NotifyInit registrationId (getMemberList cs)] else [])"

definition removeMembershipListener :: "js_string \<Rightarrow> cluster_service \<Rightarrow> bool \<times> cluster_service" where
  "removeMembershipListener listenerId cs =
     (listenerId \<in> fst ` set (listeners cs), cs\<lparr>listeners := AList.delete listenerId (listeners cs)\<rparr>)"

definition reset_cluster :: "cluster_service \<Rightarrow> cluster_service" where
  "reset_cluster cs = cs\<lparr>initialListFetched := False, memberListSnapshot := None\<rparr>"

definition clearMemberListVersion :: "cluster_service \<Rightarrow> cluster_service" where
  "clearMemberListVersion cs =
     (case memberListSnapshot cs of None \<Rightarrow> cs
      | Some s \<Rightarrow> cs\<lparr>memberListSnapshot := Some (s\<lparr>ms_version := 0\<rparr>)\<rparr>)"

definition clearMemberList :: "long_ops \<Rightarrow> (js_string \<times> nat) list \<Rightarrow> cluster_service \<Rightarrow>
    cluster_service \<times> notification list \<times> nat list" where
  "clearMemberList L connections cs =
     (case memberListSnapshot cs of None \<Rightarrow> (cs, [], [])
      | Some s \<Rightarrow>
          let cs' = cs\<lparr>memberListSnapshot := Some \<lparr>ms_version = 0, ms_members = [], ms_memberList = []\<rparr>\<rparr>;
              (events, closed) = detectMembershipEvents L connections (ms_memberList s) []
          in (cs', fireEvents events cs', closed))"

text \<open>The first member list of a cluster; that the initial list is fetched is announced once the addresses are refreshed.\<close>

definition applyInitialState :: "long_ops \<Rightarrow> int \<Rightarrow> member list \<Rightarrow> cluster_service \<Rightarrow>
    (cluster_service \<times> notification list) res" where
  "applyInitialState L memberListVersion memberInfos cs =
     bindR (createSnapshot L memberListVersion memberInfos) (\<lambda>s.
       let cs' = cs\<lparr>memberListSnapshot := Some s\<rparr> in Inr (cs', init_listeners (ms_memberList s) cs'))"

definition handleMembersViewEvent :: "long_ops \<Rightarrow> (js_string \<times> nat) list \<Rightarrow> int \<Rightarrow> member list \<Rightarrow> cluster_service \<Rightarrow>
    (cluster_service \<times> notification list \<times> nat list) res" where
  "handleMembersViewEvent L connections memberListVersion memberInfos cs =
     (case memberListSnapshot cs of
        None \<Rightarrow> bindR (applyInitialState L memberListVersion memberInfos cs) (\<lambda>(cs, ns). Inr (cs, ns, []))
      | Some prev \<Rightarrow>
          if memberListVersion \<ge> ms_version prev then
            bindR (createSnapshot L memberListVersion memberInfos) (\<lambda>s.
              let cs' = cs\<lparr>memberListSnapshot := Some s\<rparr>;
                  (events, closed) = detectMembershipEvents L connections (ms_memberList prev) (ms_memberList s)
              in Inr (cs', fireEvents events cs', closed))
          else Inr (cs, [], []))"

subsection \<open>Load balancers\<close>

text \<open>\<open>randomInt\<close> draws a number below its bound; the draw is an argument.\<close>

datatype lb_kind = RoundRobinLB | RandomLB

record load_balancer =
  lb_kind :: lb_kind
  lb_index :: nat
  lb_members :: "member list option"
  lb_dataMembers :: "member list option"

definition newRoundRobinLB :: "nat \<Rightarrow> load_balancer" where
  "newRoundRobinLB seed = \<lparr>lb_kind = RoundRobinLB, lb_index = seed, lb_members = None, lb_dataMembers = None\<rparr>"

definition newRandomLB :: load_balancer where
  "newRandomLB = \<lparr>lb_kind = RandomLB, lb_index = 0, lb_members = None, lb_dataMembers = None\<rparr>"

definition setMembers :: "cluster_service \<Rightarrow> load_balancer \<Rightarrow> load_balancer" where
  "setMembers cs lb =
     (let ms = getMembers None cs in
      lb\<lparr>lb_members := Some ms, lb_dataMembers := Some (filter (\<lambda>m. \<not> mi_liteMember m) ms)\<rparr>)"

definition lb_next :: "nat \<Rightarrow> bool \<Rightarrow> load_balancer \<Rightarrow> member option \<times> load_balancer" where
  "lb_next random dataMember lb =
     (case (if dataMember then lb_dataMembers lb else lb_members lb) of
        None \<Rightarrow> (None, lb)
      | Some ms \<Rightarrow>
          if ms = [] then (None, lb)
          else case lb_kind lb of
            RoundRobinLB \<Rightarrow> (Some (ms ! (lb_index lb mod length ms)), lb\<lparr>lb_index := lb_index lb + 1\<rparr>)
          | RandomLB \<Rightarrow> (if random < length ms then Some (ms ! random) else None, lb))"

subsection \<open>ConnectionRegistryImpl\<close>

datatype connection_state = ConnINITIAL | CONNECTED_TO_CLUSTER | INITIALIZED_ON_CLUSTER

datatype reconnect_mode = ReconnectON | ReconnectOFF | ReconnectASYNC

record connection_registry =
  reg_active :: bool
  activeConnections :: "(js_string \<times> nat) list"
  loadBalancer :: load_balancer
  connectionState :: connection_state
  smartRoutingEnabled :: bool
  asyncStart :: bool
  reconnectMode :: reconnect_mode

definition newConnectionRegistry :: "bool \<Rightarrow> reconnect_mode \<Rightarrow> bool \<Rightarrow> load_balancer \<Rightarrow> connection_registry" where
  "newConnectionRegistry async reconnect smart lb =
     \<lparr>reg_active = False, activeConnections = [], loadBalancer = lb, connectionState = ConnINITIAL,
      smartRoutingEnabled = smart, asyncStart = async, reconnectMode = reconnect\<rparr>"

definition getConnection :: "long_ops \<Rightarrow> uuid \<Rightarrow> connection_registry \<Rightarrow> nat option" where
  "getConnection L u r = map_of (activeConnections r) (uuid_toString L u)"

definition getConnections :: "connection_registry \<Rightarrow> nat list" where
  "getConnections r = map snd (activeConnections r)"

fun first_connection :: "cluster_service \<Rightarrow> bool \<Rightarrow> (js_string \<times> nat) list \<Rightarrow> nat option" where
  "first_connection cs dataMember [] = None"
| "first_connection cs dataMember ((u, c) # es) =
     (if dataMember \<and> (case getMember u cs of None \<Rightarrow> True | Some m \<Rightarrow> mi_liteMember m)
      then first_connection cs dataMember es else Some c)"

definition getRandomConnection :: "long_ops \<Rightarrow> nat \<Rightarrow> cluster_service \<Rightarrow> bool \<Rightarrow> connection_registry \<Rightarrow>
    nat option \<times> connection_registry" where
  "getRandomConnection L random cs dataMember r =
     (let (chosen, lb) = (if smartRoutingEnabled r then lb_next random dataMember (loadBalancer r)
                          else (None, loadBalancer r));
          found = (case chosen of None \<Rightarrow> None
                   | Some m \<Rightarrow> (case mi_uuid m of None \<Rightarrow> None | Some u \<Rightarrow> getConnection L u r))
      in (case found of Some c \<Rightarrow> Some c | None \<Rightarrow> first_connection cs dataMember (activeConnections r),
          r\<lparr>loadBalancer := lb\<rparr>))"

definition checkIfInvocationAllowed :: "connection_registry \<Rightarrow> error_class option" where
  "checkIfInvocationAllowed r =
     (if connectionState r = INITIALIZED_ON_CLUSTER \<and> activeConnections r \<noteq> [] then None
      else if connectionState r = ConnINITIAL then
        (if asyncStart r then Some ClientOfflineError else Some IOError)
      else if reconnectMode r = ReconnectASYNC then Some ClientOfflineError
      else Some IOError)"

definition deleteConnection :: "long_ops \<Rightarrow> uuid \<Rightarrow> connection_registry \<Rightarrow> connection_registry" where
  "deleteConnection L u r = r\<lparr>activeConnections := AList.delete (uuid_toString L u) (activeConnections r)\<rparr>"

definition registry_setConnection :: "long_ops \<Rightarrow> uuid \<Rightarrow> nat \<Rightarrow> connection_registry \<Rightarrow> connection_registry" where
  "registry_setConnection L u c r = r\<lparr>activeConnections := AList.update (uuid_toString L u) c (activeConnections r)\<rparr>"

definition setConnectionState :: "connection_state \<Rightarrow> connection_registry \<Rightarrow> connection_registry" where
  "setConnectionState s r = r\<lparr>connectionState := s\<rparr>"

definition activate :: "connection_registry \<Rightarrow> connection_registry" where
  "activate r = r\<lparr>reg_active := True\<rparr>"

definition deactivate :: "connection_registry \<Rightarrow> connection_registry" where
  "deactivate r = r\<lparr>reg_active := False\<rparr>"

subsection \<open>What the events tell a listener\<close>

abbreviation ids :: "long_ops \<Rightarrow> member list \<Rightarrow> js_string set" where
  "ids L ms \<equiv> member_id L ` set ms"

fun apply_event :: "long_ops \<Rightarrow> membership_event \<Rightarrow> js_string set \<Rightarrow> js_string set" where
  "apply_event L (MemberADDED m _) S = insert (member_id L m) S"
| "apply_event L (MemberREMOVED m _) S = S - {member_id L m}"

lemma apply_removed:
  "fold (apply_event L) (map (\<lambda>(k, m). MemberREMOVED m cur) es) S = S - ids L (map snd es)"
  by (induction es arbitrary: S) (auto simp: image_image)

lemma apply_added: "fold (apply_event L) (map (\<lambda>m. MemberADDED m cur) ms) S = S \<union> ids L ms"
  by (induction ms arbitrary: S) auto

definition keyed :: "long_ops \<Rightarrow> (js_string \<times> member) list \<Rightarrow> bool" where
  "keyed L es \<longleftrightarrow> (\<forall>(k, m) \<in> set es. k = member_id L m)"

lemma keyed_ids: "keyed L es \<Longrightarrow> ids L (map snd es) = fst ` set es"
  by (force simp: keyed_def image_image)

lemma set_update: "set (AList.update k v es) \<subseteq> insert (k, v) (set es)"
  by (induction es) auto

lemma dead_members:
  "keyed L es \<Longrightarrow> keyed L (fold (\<lambda>m. AList.update (member_id L m) m) prev es) \<and>
     fst ` set (fold (\<lambda>m. AList.update (member_id L m) m) prev es) = fst ` set es \<union> ids L prev"
proof (induction prev arbitrary: es)
  case (Cons m prev)
  have "keyed L (AList.update (member_id L m) m es)"
    using Cons.prems set_update [of "member_id L m" m es] by (fastforce simp: keyed_def)
  from Cons.IH [OF this] show ?case by (auto simp: dom_update)
qed simp

lemma keys_delete: "fst ` set (AList.delete k es) = fst ` set es - {k}"
  by (auto simp: AList.delete_eq)

lemma remove_dead_spec:
  "keyed L es \<Longrightarrow> remove_dead L cur es = (new, dead) \<Longrightarrow>
     keyed L dead \<and> fst ` set dead = fst ` set es - ids L cur \<and> set new \<subseteq> set cur \<and> ids L cur - fst ` set es \<subseteq> ids L new"
proof (induction cur arbitrary: es new dead)
  case (Cons m cur)
  let ?es = "AList.delete (member_id L m) es"
  obtain new' where r: "remove_dead L cur ?es = (new', dead)"
    and new: "new = (if member_id L m \<in> fst ` set es then new' else m # new')"
    using Cons.prems(2) by (auto simp: Let_def split: prod.splits)
  have k: "keyed L ?es" using Cons.prems(1) by (auto simp: keyed_def AList.delete_eq)
  note IH = Cons.IH [OF k r, unfolded keys_delete]
  have "ids L (m # cur) - fst ` set es \<subseteq> ids L new" using IH new by auto
  moreover have "set new \<subseteq> set (m # cur)" using IH new by auto
  ultimately show ?case using IH by auto
qed simp

lemma detected_events_track:
  "fold (apply_event L) (fst (detectMembershipEvents L cn prev cur)) (ids L prev) = ids L cur"
proof -
  let ?d = "fold (\<lambda>m. AList.update (member_id L m) m) prev []"
  obtain new dead where r: "remove_dead L cur ?d = (new, dead)" by fastforce
  have d: "keyed L ?d" "fst ` set ?d = ids L prev"
    using dead_members [of L "[]" prev] by (simp_all add: keyed_def)
  note spec = remove_dead_spec [OF d(1) r]
  have "fold (apply_event L) (fst (detectMembershipEvents L cn prev cur)) (ids L prev) =
      ids L prev - ids L (map snd dead) \<union> ids L new"
    by (simp add: detectMembershipEvents_def r apply_removed apply_added case_prod_beta' [symmetric])
  also have "\<dots> = ids L cur" using spec d(2) keyed_ids [of L dead] by auto
  finally show ?thesis .
qed

text \<open>
  A listener that defines all three methods and keeps a set of members: it replaces the set when it is
  initialised, and adds or removes a member on an event.
\<close>

fun see :: "long_ops \<Rightarrow> js_string \<Rightarrow> notification \<Rightarrow> js_string set \<Rightarrow> js_string set" where
  "see L i (NotifyInit j ms) V = (if i = j then ids L ms else V)"
| "see L i (NotifyEvent j e) V = (if i = j then apply_event L e V else V)"

definition full_listener :: membership_listener where
  "full_listener = \<lparr>has_init = True, has_memberAdded = True, has_memberRemoved = True\<rparr>"

inductive cluster_run :: "long_ops \<Rightarrow> js_string \<Rightarrow> cluster_service \<Rightarrow> js_string set \<Rightarrow> bool"
  for L :: long_ops and i :: js_string where
  registered: "cluster_run L i (fst (addMembershipListener i full_listener newClusterService)) {}"
| view: "cluster_run L i cs V \<Longrightarrow> handleMembersViewEvent L cn version infos cs = Inr (cs', ns, closed) \<Longrightarrow>
    cluster_run L i cs' (fold (see L i) ns V)"
| clear: "cluster_run L i cs V \<Longrightarrow> clearMemberList L cn cs = (cs', ns, closed) \<Longrightarrow>
    cluster_run L i cs' (fold (see L i) ns V)"
| clearVersion: "cluster_run L i cs V \<Longrightarrow> cluster_run L i (clearMemberListVersion cs) V"
| reset: "cluster_run L i cs V \<Longrightarrow> cluster_run L i (reset_cluster cs) V"
| addOther: "cluster_run L i cs V \<Longrightarrow> j \<noteq> i \<Longrightarrow> addMembershipListener j l cs = (cs', ns) \<Longrightarrow>
    cluster_run L i cs' (fold (see L i) ns V)"
| removeOther: "cluster_run L i cs V \<Longrightarrow> j \<noteq> i \<Longrightarrow> removeMembershipListener j cs = (b, cs') \<Longrightarrow> cluster_run L i cs' V"

definition listens :: "js_string \<Rightarrow> cluster_service \<Rightarrow> bool" where
  "listens i cs \<longleftrightarrow> distinct (map fst (listeners cs)) \<and> map_of (listeners cs) i = Some full_listener"

lemma see_others:
  assumes "i \<notin> fst ` set ls" and "\<And>j V. j \<noteq> i \<Longrightarrow> see L i (f j) V = V"
  shows "fold (see L i) (concat (map (\<lambda>(j, l). if P l then [f j] else []) ls)) V = V"
  using assms
proof (induction ls arbitrary: V)
  case (Cons x ls)
  then have "fst x \<noteq> i" by auto
  then show ?case using Cons by (cases x) simp
qed simp

lemma see_one:
  assumes "distinct (map fst ls)" and "map_of ls i = Some l" and "P l"
    and "\<And>j V. j \<noteq> i \<Longrightarrow> see L i (f j) V = V"
  shows "fold (see L i) (concat (map (\<lambda>(j, l). if P l then [f j] else []) ls)) V = see L i (f i) V"
  using assms
proof (induction ls arbitrary: V)
  case (Cons x ls)
  show ?case
  proof (cases "fst x = i")
    case True
    then have "i \<notin> fst ` set ls" "snd x = l" using Cons.prems(1,2) by (cases x; auto)+
    then show ?thesis using True Cons.prems(3) see_others [of i ls L f P] Cons.prems(4) by (cases x) auto
  next
    case False
    then show ?thesis using Cons by (cases x) (auto split: if_splits)
  qed
qed simp

lemma fired_events:
  assumes "listens i cs"
  shows "fold (see L i) (fireEvents es cs) V = fold (apply_event L) es V"
proof (induction es arbitrary: V)
  case (Cons e es)
  have "fold (see L i) (fireEvents [e] cs) V = apply_event L e V" for V
  proof (cases e)
    case (MemberADDED m ms)
    then show ?thesis
      using assms see_one [of "listeners cs" i full_listener has_memberAdded L "\<lambda>j. NotifyEvent j (MemberADDED m ms)"]
      by (simp add: fireEvents_def listens_def full_listener_def)
  next
    case (MemberREMOVED m ms)
    then show ?thesis
      using assms see_one [of "listeners cs" i full_listener has_memberRemoved L "\<lambda>j. NotifyEvent j (MemberREMOVED m ms)"]
      by (simp add: fireEvents_def listens_def full_listener_def)
  qed
  then show ?case using Cons.IH by (simp add: fireEvents_def)
qed (simp add: fireEvents_def)

lemma seen_init: "listens i cs \<Longrightarrow> fold (see L i) (init_listeners ms cs) V = ids L ms"
  using see_one [of "listeners cs" i full_listener has_init L "\<lambda>j. NotifyInit j ms"]
  by (simp add: init_listeners_def listens_def full_listener_def)

definition tracks :: "long_ops \<Rightarrow> js_string \<Rightarrow> cluster_service \<Rightarrow> js_string set \<Rightarrow> bool" where
  "tracks L i cs V \<longleftrightarrow> listens i cs \<and> (memberListSnapshot cs \<noteq> None \<longrightarrow> V = ids L (getMemberList cs))"

lemma createSnapshot_list: "createSnapshot L v infos = Inr s \<Longrightarrow> ms_memberList s = infos"
  by (auto simp: createSnapshot_def res_simps)

lemma tracks_view:
  assumes t: "tracks L i cs V" and h: "handleMembersViewEvent L cn version infos cs = Inr (cs', ns, closed)"
  shows "tracks L i cs' (fold (see L i) ns V)"
proof (cases "memberListSnapshot cs")
  case None
  then obtain s where s: "createSnapshot L version infos = Inr s" "cs' = cs\<lparr>memberListSnapshot := Some s\<rparr>"
    "ns = init_listeners (ms_memberList s) cs'"
    using h by (auto simp: handleMembersViewEvent_def applyInitialState_def Let_def res_simps)
  then show ?thesis
    using t seen_init [of i cs' L "ms_memberList s" V] by (simp add: tracks_def listens_def getMemberList_def)
next
  case (Some prev)
  show ?thesis
  proof (cases "version \<ge> ms_version prev")
    case True
    then obtain s events where s: "createSnapshot L version infos = Inr s" "cs' = cs\<lparr>memberListSnapshot := Some s\<rparr>"
      "events = fst (detectMembershipEvents L cn (ms_memberList prev) (ms_memberList s))" "ns = fireEvents events cs'"
      using h Some by (auto simp: handleMembersViewEvent_def Let_def res_simps case_prod_beta)
    moreover have "V = ids L (ms_memberList prev)" using t Some by (simp add: tracks_def getMemberList_def)
    ultimately show ?thesis
      using t fired_events [of i cs' L events V] detected_events_track [of L cn "ms_memberList prev" "ms_memberList s"]
      by (simp add: tracks_def listens_def getMemberList_def)
  qed (use t h Some in \<open>simp add: handleMembersViewEvent_def\<close>)
qed

lemma tracks_clear:
  assumes t: "tracks L i cs V" and c: "clearMemberList L cn cs = (cs', ns, closed)"
  shows "tracks L i cs' (fold (see L i) ns V)"
proof (cases "memberListSnapshot cs")
  case (Some prev)
  then obtain events where "cs' = cs\<lparr>memberListSnapshot := Some \<lparr>ms_version = 0, ms_members = [], ms_memberList = []\<rparr>\<rparr>"
    "events = fst (detectMembershipEvents L cn (ms_memberList prev) [])" "ns = fireEvents events cs'"
    using c by (auto simp: clearMemberList_def Let_def case_prod_beta)
  moreover have "V = ids L (ms_memberList prev)" using t Some by (simp add: tracks_def getMemberList_def)
  ultimately show ?thesis
    using t fired_events [of i cs' L events V] detected_events_track [of L cn "ms_memberList prev" "[]"]
    by (simp add: tracks_def listens_def getMemberList_def)
qed (use t c in \<open>simp add: clearMemberList_def\<close>)

lemma tracks_run: "cluster_run L i cs V \<Longrightarrow> tracks L i cs V"
proof (induction rule: cluster_run.induct)
  case registered
  then show ?case
    by (simp add: tracks_def listens_def addMembershipListener_def newClusterService_def getMemberList_def)
next
  case (view cs V cn version infos cs' ns closed)
  then show ?case using tracks_view by blast
next
  case (clear cs V cn cs' ns closed)
  then show ?case using tracks_clear by blast
next
  case (clearVersion cs V)
  then show ?case
    by (auto simp: clearMemberListVersion_def tracks_def listens_def getMemberList_def split: option.splits)
next
  case (reset cs V)
  then show ?case by (simp add: reset_cluster_def tracks_def listens_def)
next
  case (addOther cs V j l cs' ns)
  then have "fold (see L i) ns V = V" by (auto simp: addMembershipListener_def split: if_splits)
  then show ?case
    using addOther by (auto simp: addMembershipListener_def tracks_def listens_def getMemberList_def update_conv distinct_update)
next
  case (removeOther cs V j b cs')
  then show ?case
    by (auto simp: removeMembershipListener_def tracks_def listens_def getMemberList_def delete_conv
        AList.distinct_delete)
qed

text \<open>
  C14. Listeners always know the members. A listener that was registered before the first member list and
  that starts from the list it is initialised with, adding and removing members as the events say, has
  exactly the members of the current list whenever there is one: whatever member lists arrived, in which order of
  versions, however often the list was cleared or reset in between, and whatever other listeners came and went.
\<close>

theorem listener_knows_members:
  assumes "cluster_run L i cs V" and "memberListSnapshot cs = Some s"
  shows "V = member_id L ` set (ms_memberList s)"
  using tracks_run [OF assms(1)] assms(2) by (simp add: tracks_def getMemberList_def)

definition sample_member :: "bool \<Rightarrow> member" where
  "sample_member lite = \<lparr>mi_address = \<lparr>host = [104], port = 5701\<rparr>,
     mi_uuid = Some \<lparr>mostSignificant = \<lparr>low = 1, high = 0\<rparr>, leastSignificant = \<lparr>low = 2, high = 0\<rparr>\<rparr>,
     mi_attributes = [], mi_liteMember = lite, mi_version = \<lparr>major = 5, minor = 0, patch = 0\<rparr>, mi_addressMap = []\<rparr>"

theorem listener_knows_members_witness:
  "\<exists>cs V s. cluster_run word_longs [1] cs V \<and> memberListSnapshot cs = Some s \<and>
     V = member_id word_longs ` set (ms_memberList s) \<and> ms_memberList s = [sample_member True]"
proof -
  let ?cs = "fst (addMembershipListener [1] full_listener newClusterService)"
  obtain s where s: "createSnapshot word_longs 1 [sample_member True] = Inr s" "ms_memberList s = [sample_member True]"
    by (simp add: createSnapshot_def memberUuid_toString_def sample_member_def)
  let ?cs' = "?cs\<lparr>memberListSnapshot := Some s\<rparr>"
  have "handleMembersViewEvent word_longs [] 1 [sample_member True] ?cs =
      Inr (?cs', init_listeners [sample_member True] ?cs', [])"
    using s by (simp add: handleMembersViewEvent_def applyInitialState_def addMembershipListener_def newClusterService_def Let_def)
  from view [OF registered this] listener_knows_members [OF view [OF registered this], of s] show ?thesis
    using s(2) by (intro exI [of _ ?cs'] exI [of _ "{member_id word_longs (sample_member True)}"] exI [of _ s]) simp
qed

lemma remove_same:
  assumes "keyed L es" and "fst ` set es = ids L cur" and "distinct (map (member_id L) cur)"
  shows "remove_dead L cur es = ([], [])"
  using assms
proof (induction cur arbitrary: es)
  case (Cons m cur)
  have "keyed L (AList.delete (member_id L m) es)" using Cons.prems(1) by (auto simp: keyed_def AList.delete_eq)
  moreover have "fst ` set (AList.delete (member_id L m) es) = ids L cur"
    using Cons.prems(2,3) by (auto simp: keys_delete)
  ultimately show ?case using Cons.IH Cons.prems by (simp add: Let_def)
qed simp

lemma no_events:
  assumes "ids L cur = ids L prev" and "distinct (map (member_id L) cur)"
  shows "detectMembershipEvents L cn prev cur = ([], [])"
proof -
  let ?d = "fold (\<lambda>m. AList.update (member_id L m) m) prev []"
  have "keyed L ?d" "fst ` set ?d = ids L cur"
    using dead_members [of L "[]" prev] assms(1) by (simp_all add: keyed_def)
  from remove_same [OF this assms(2)] show ?thesis by (simp add: detectMembershipEvents_def)
qed

text \<open>
  C32. A change the listeners are not told about. When a new member list has the same members as the
  current one, nobody is notified, even if the members differ in other ways: a lite member that was promoted to
  a data member stays a lite member for the load balancers, which only look at the list again
  when they are notified.
\<close>

theorem silent_member_change:
  assumes "memberListSnapshot cs = Some prev" and "ms_version prev \<le> version"
    and "createSnapshot L version infos = Inr s"
    and "member_id L ` set infos = member_id L ` set (ms_memberList prev)" and "distinct (map (member_id L) infos)"
  shows "handleMembersViewEvent L cn version infos cs = Inr (cs\<lparr>memberListSnapshot := Some s\<rparr>, [], [])"
  using assms no_events [of L infos "ms_memberList prev" cn]
  by (simp add: handleMembersViewEvent_def createSnapshot_list fireEvents_def Let_def)

definition sample_cluster :: "bool \<Rightarrow> int \<Rightarrow> cluster_service" where
  "sample_cluster lite v = newClusterService\<lparr>memberListSnapshot := Some \<lparr>ms_version = v,
     ms_members = [(uuid_toString word_longs (the (mi_uuid (sample_member lite))), sample_member lite)],
     ms_memberList = [sample_member lite]\<rparr>\<rparr>"

theorem silent_member_change_witness:
  "handleMembersViewEvent word_longs [] 2 [sample_member False] (sample_cluster True 1) =
     Inr (sample_cluster False 2, [], []) \<and>
   fst (lb_next 0 True (setMembers (sample_cluster True 1) (newRoundRobinLB 0))) = None \<and>
   fst (lb_next 0 True (setMembers (sample_cluster False 2) (newRoundRobinLB 0))) = Some (sample_member False)"
proof -
  have "createSnapshot word_longs 2 [sample_member False] = Inr (the (memberListSnapshot (sample_cluster False 2)))"
    by (simp add: createSnapshot_def memberUuid_toString_def sample_cluster_def) (simp add: sample_member_def)
  moreover have "member_id word_longs (sample_member False) = member_id word_longs (sample_member True)"
    by (simp add: member_id_def sample_member_def)
  ultimately have "handleMembersViewEvent word_longs [] 2 [sample_member False] (sample_cluster True 1) =
     Inr ((sample_cluster True 1)\<lparr>memberListSnapshot := memberListSnapshot (sample_cluster False 2)\<rparr>, [], [])"
    using silent_member_change [of "sample_cluster True 1" "the (memberListSnapshot (sample_cluster True 1))" 2
        word_longs "[sample_member False]" "the (memberListSnapshot (sample_cluster False 2))" "[]"]
    by (simp add: sample_cluster_def)
  then show ?thesis
    by (simp add: sample_cluster_def setMembers_def getMembers_def getMemberList_def lb_next_def newRoundRobinLB_def
        Let_def) (simp add: sample_member_def)
qed

subsection \<open>Load balancing\<close>

fun lb_calls :: "nat \<Rightarrow> bool \<Rightarrow> load_balancer \<Rightarrow> member option list \<times> load_balancer" where
  "lb_calls 0 dataMember lb = ([], lb)"
| "lb_calls (Suc n) dataMember lb =
     (let (m, lb) = lb_next 0 dataMember lb; (ms, lb) = lb_calls n dataMember lb in (m # ms, lb))"

lemma lb_calls_nth:
  assumes "lb_kind lb = RoundRobinLB" and "(if dataMember then lb_dataMembers lb else lb_members lb) = Some ms" and "ms \<noteq> []"
  shows "fst (lb_calls n dataMember lb) = map (\<lambda>j. Some (ms ! ((lb_index lb + j) mod length ms))) [0..<n]"
  using assms
proof (induction n arbitrary: lb)
  case (Suc n)
  have "fst (lb_calls n dataMember (lb\<lparr>lb_index := lb_index lb + 1\<rparr>)) =
      map (\<lambda>j. Some (ms ! ((lb_index lb + Suc j) mod length ms))) [0..<n]"
    using Suc.IH [of "lb\<lparr>lb_index := lb_index lb + 1\<rparr>"] Suc.prems by (cases dataMember) simp_all
  then show ?case
    using Suc.prems unfolding upt_conv_Cons [OF zero_less_Suc] list.map map_Suc_upt [symmetric] map_map comp_def
    by (simp add: lb_next_def case_prod_beta Let_def)
qed simp

text \<open>
  C33. The round-robin balancer is fair: as long as the members do not change, any \<open>length ms\<close> consecutive calls
  give each of the members \<open>ms\<close> (the data members if asked for these) exactly once, in the order of
  the list, starting anywhere.
\<close>

theorem round_robin_fair:
  assumes "lb_kind lb = RoundRobinLB" and "ms = (if dataMember then filter (\<lambda>m. \<not> mi_liteMember m) else id) (getMembers None cs)"
    and "ms \<noteq> []"
  shows "fst (lb_calls (length ms) dataMember (setMembers cs lb)) = map Some (rotate (lb_index lb) ms)"
proof -
  have "fst (lb_calls (length ms) dataMember (setMembers cs lb)) =
      map (\<lambda>j. Some (ms ! ((lb_index lb + j) mod length ms))) [0..<length ms]"
    using lb_calls_nth [of "setMembers cs lb" dataMember ms "length ms"] assms
    by (simp add: setMembers_def Let_def)
  also have "\<dots> = map Some (rotate (lb_index lb) ms)"
    using assms(3) by (intro nth_equalityI) (simp_all add: nth_rotate)
  finally show ?thesis .
qed

theorem round_robin_fair_witness:
  "fst (lb_calls 1 True (setMembers (sample_cluster False 2) (newRoundRobinLB 7))) = [Some (sample_member False)]"
proof -
  have "\<not> mi_liteMember (sample_member False)" by (simp add: sample_member_def)
  then show ?thesis
    using round_robin_fair [of "newRoundRobinLB 7" "[sample_member False]" True "sample_cluster False 2"]
    by (simp add: newRoundRobinLB_def getMembers_def getMemberList_def sample_cluster_def del: lb_calls.simps)
qed

subsection \<open>The registry\<close>

lemma first_connection_some: "es \<noteq> [] \<Longrightarrow> first_connection cs False es = Some (snd (hd es))"
  by (cases es) auto

lemma first_connection_mem: "first_connection cs d es = Some c \<Longrightarrow> c \<in> snd ` set es"
  by (induction cs d es rule: first_connection.induct) (auto split: if_splits)

lemma random_connection_mem:
  "fst (getRandomConnection L rnd cs d r) = Some c \<Longrightarrow> c \<in> set (getConnections r)"
  by (auto simp: getRandomConnection_def getConnection_def getConnections_def case_prod_beta Let_def
      dest!: first_connection_mem map_of_SomeD split: option.splits if_splits intro: rev_image_eqI)

lemma allowed_has_connection:
  "checkIfInvocationAllowed r = None \<Longrightarrow> \<exists>c. fst (getRandomConnection L rnd cs False r) = Some c"
  by (auto simp: checkIfInvocationAllowed_def getRandomConnection_def case_prod_beta Let_def first_connection_some
      split: option.splits if_splits)

lemma registry_lookup:
  "getConnection L u (registry_setConnection L u c r) = Some c"
  "uuid_toString L v \<noteq> uuid_toString L u \<Longrightarrow> getConnection L v (registry_setConnection L u c r) = getConnection L v r"
  by (simp_all add: getConnection_def registry_setConnection_def update_conv)

end
