(* ===== verification/InvocationService.thy ===== *)
theory InvocationService
  imports ClusterService PartitionService
begin

section \<open>Invocations (src/src/invocation/InvocationService.ts)\<close>

text \<open>
  The service that sends requests to members and settles the promises the callers wait for. Its state holds the
  objects the code shares: the invocations by reference, the maps of pending invocations and event handlers, the
  connections, the registry, the member list, the partition table, the clock and the lifecycle state. What the
  event loop still has to run is in the state too: \<open>timers\<close> are the scheduled retries, and \<open>jobs\<close> the promises of
  \<open>send\<close> that are not settled yet or whose rejection handlers have not run. \<open>written\<close> lists the requests handed to the
  connections.

  A request is its header fields (\<open>ClientMessage\<close> shows that setting and reading them agrees); a response its
  header, the error holders of an exception message and its other frames.
\<close>

subsection \<open>State\<close>

record request =
  rq_correlationId :: int
  rq_partitionId :: int
  rq_retryable :: bool
  rq_backupAware :: bool

record response =
  rs_correlationId :: int
  rs_eventFlag :: bool
  rs_backupEventFlag :: bool
  rs_messageType :: int
  rs_backupAcks :: int
  rs_errors :: "error_holder list"
  rs_frames :: "frame list"

text \<open>An error that reaches the service: an instance of a class of the client, \<open>null\<close>, or any other error.\<close>

datatype failure = HzFailure error_class | NullFailure | OtherFailure

definition failure_instanceof :: "failure \<Rightarrow> error_class \<Rightarrow> bool" where
  "failure_instanceof f c = (case f of HzFailure d \<Rightarrow> instance_of d c | _ \<Rightarrow> False)"

datatype outcome = Unsettled | Resolved response | Rejected failure

text \<open>Fields of the class that only exist once they are assigned are optional. \<open>deferred\<close> is \<open>None\<close> until \<open>invoke\<close>.\<close>

record invocation =
  inv_request :: request
  inv_partitionId :: "int option"
  inv_uuid :: "uuid option"
  deadline :: int
  inv_connection :: "nat option"
  sendConnection :: "nat option"
  deferred :: "outcome option"
  pendingResponseMessage :: "response option"
  backupsAcksReceived :: int
  backupsAcksExpected :: int
  pendingResponseReceivedMillis :: int
  invokeCount :: nat
  has_handler :: bool
  urgent :: bool

definition MAX_FAST_INVOCATION_COUNT :: nat where "MAX_FAST_INVOCATION_COUNT = 5"

record inv_config =
  smartRouting :: bool
  invocationTimeoutMillis :: int
  operationBackupTimeoutMillis :: int
  shouldFailOnIndeterminateState :: bool
  backupAckToClientEnabled :: bool
  redoOperation :: bool

datatype stage = FirstTry | LastTry

datatype job = Writing nat nat stage | Failing nat failure stage

record inv_service =
  invs :: "nat \<Rightarrow> invocation"
  pending :: "(int \<times> nat) list"
  eventHandlers :: "(int \<times> nat) list"
  correlationCounter :: int
  isShutdown :: bool
  timers :: "nat list"
  jobs :: "job list"
  written :: "(nat \<times> nat) list"
  conns :: "nat \<Rightarrow> conn"
  registry :: connection_registry
  cluster :: cluster_service
  partition_svc :: partition_service
  now :: int
  isRunning :: bool
  draw :: nat

definition upd_inv :: "nat \<Rightarrow> (invocation \<Rightarrow> invocation) \<Rightarrow> inv_service \<Rightarrow> inv_service" where
  "upd_inv i f s = s\<lparr>invs := (invs s)(i := f (invs s i))\<rparr>"

abbreviation correlation_of :: "inv_service \<Rightarrow> nat \<Rightarrow> int" where
  "correlation_of s i \<equiv> rq_correlationId (inv_request (invs s i))"

subsection \<open>Invocation\<close>

definition newInvocation :: "inv_config \<Rightarrow> request \<Rightarrow> int option \<Rightarrow> int \<Rightarrow> invocation" where
  "newInvocation cfg rq timeoutMillis t =
     \<lparr>inv_request = rq, inv_partitionId = None, inv_uuid = None,
      deadline = t + (case timeoutMillis of None \<Rightarrow> invocationTimeoutMillis cfg | Some tm \<Rightarrow> tm),
      inv_connection = None, sendConnection = None, deferred = None, pendingResponseMessage = None,
      backupsAcksReceived = 0, backupsAcksExpected = -1, pendingResponseReceivedMillis = -1, invokeCount = 0,
      has_handler = False, urgent = False\<rparr>"

definition hasPartitionId :: "invocation \<Rightarrow> bool" where
  "hasPartitionId v = (case inv_partitionId v of None \<Rightarrow> False | Some p \<Rightarrow> p \<ge> 0)"

definition shouldRetry :: "inv_config \<Rightarrow> invocation \<Rightarrow> failure \<Rightarrow> bool" where
  "shouldRetry cfg v err =
     (if inv_connection v \<noteq> None \<and>
         (failure_instanceof err IOError \<or> failure_instanceof err TargetDisconnectedError) then False
      else if inv_uuid v \<noteq> None \<and> failure_instanceof err TargetNotMemberError then False
      else if failure_instanceof err IOError \<or> failure_instanceof err HazelcastInstanceNotActiveError \<or>
              failure_instanceof err RetryableHazelcastError then True
      else if failure_instanceof err TargetDisconnectedError then
        rq_retryable (inv_request v) \<or> redoOperation cfg
      else False)"

text \<open>A promise is settled once: later calls of \<open>resolve\<close> and \<open>reject\<close> do nothing.\<close>

definition settle :: "nat \<Rightarrow> outcome \<Rightarrow> inv_service \<Rightarrow> inv_service" where
  "settle i res = upd_inv i (\<lambda>v. if deferred v = Some Unsettled then v\<lparr>deferred := Some res\<rparr> else v)"

definition deregisterInvocation :: "int \<Rightarrow> inv_service \<Rightarrow> inv_service" where
  "deregisterInvocation cid s = s\<lparr>pending := AList.delete cid (pending s)\<rparr>"

definition complete_inv :: "nat \<Rightarrow> response \<Rightarrow> inv_service \<Rightarrow> inv_service" where
  "complete_inv i r s = deregisterInvocation (correlation_of s i) (settle i (Resolved r) s)"

definition completeWithError :: "nat \<Rightarrow> failure \<Rightarrow> inv_service \<Rightarrow> inv_service" where
  "completeWithError i f s = deregisterInvocation (correlation_of s i) (settle i (Rejected f) s)"

definition notify_inv :: "nat \<Rightarrow> response \<Rightarrow> inv_service \<Rightarrow> inv_service" where
  "notify_inv i r s =
     (if rs_backupAcks r > backupsAcksReceived (invs s i) then
        upd_inv i (\<lambda>v. v\<lparr>pendingResponseReceivedMillis := now s, backupsAcksExpected := rs_backupAcks r,
                          pendingResponseMessage := Some r\<rparr>) s
      else complete_inv i r s)"

definition notifyBackupComplete :: "nat \<Rightarrow> inv_service \<Rightarrow> inv_service" where
  "notifyBackupComplete i s =
     (let s = upd_inv i (\<lambda>v. v\<lparr>backupsAcksReceived := backupsAcksReceived v + 1\<rparr>) s; v = invs s i in
      case pendingResponseMessage v of
        None \<Rightarrow> s
      | Some r \<Rightarrow> if backupsAcksExpected v \<noteq> backupsAcksReceived v then s else complete_inv i r s)"

definition detectAndHandleBackupTimeout :: "inv_config \<Rightarrow> int \<Rightarrow> nat \<Rightarrow> inv_service \<Rightarrow> inv_service" where
  "detectAndHandleBackupTimeout cfg timeoutMillis i s =
     (let v = invs s i in
      case pendingResponseMessage v of
        None \<Rightarrow> s
      | Some r \<Rightarrow>
          if backupsAcksExpected v = backupsAcksReceived v then s
          else
            let expirationTime = pendingResponseReceivedMillis v + timeoutMillis in
            if \<not> (expirationTime > 0 \<and> expirationTime < now s) then s
            else if shouldFailOnIndeterminateState cfg then
              completeWithError i (HzFailure IndeterminateOperationStateError) s
            else complete_inv i r s)"

subsection \<open>Sending\<close>

definition registerInvocation :: "nat \<Rightarrow> inv_service \<Rightarrow> inv_service" where
  "registerInvocation i s =
     (let v = invs s i; cid = correlation_of s i;
          p = (if hasPartitionId v then the (inv_partitionId v) else -1);
          s = upd_inv i (\<lambda>v. v\<lparr>inv_request := (inv_request v)\<lparr>rq_partitionId := p\<rparr>\<rparr>) s;
          s = (if has_handler v then s\<lparr>eventHandlers := AList.update cid i (eventHandlers s)\<rparr> else s)
      in s\<lparr>pending := AList.update cid i (pending s)\<rparr>)"

definition send :: "inv_config \<Rightarrow> nat \<Rightarrow> nat \<Rightarrow> stage \<Rightarrow> inv_service \<Rightarrow> inv_service" where
  "send cfg i c st s =
     (if isShutdown s then s\<lparr>jobs := jobs s @ [Failing i (HzFailure ClientNotActiveError) st]\<rparr>
      else
        let s = (if backupAckToClientEnabled cfg
                 then upd_inv i (\<lambda>v. v\<lparr>inv_request := (inv_request v)\<lparr>rq_backupAware := True\<rparr>\<rparr>) s else s);
            s = registerInvocation i s
        in s\<lparr>jobs := jobs s @ [Writing i c st], written := written s @ [(i, c)]\<rparr>)"

definition no_connection :: "nat \<Rightarrow> stage \<Rightarrow> inv_service \<Rightarrow> inv_service" where
  "no_connection i st s = s\<lparr>jobs := jobs s @ [Failing i (HzFailure IOError) st]\<rparr>"

definition invokeOnRandomConnection :: "inv_config \<Rightarrow> long_ops \<Rightarrow> nat \<Rightarrow> stage \<Rightarrow> inv_service \<Rightarrow> inv_service" where
  "invokeOnRandomConnection cfg L i st s =
     (let (c, r) = getRandomConnection L (draw s) (cluster s) False (registry s); s = s\<lparr>registry := r\<rparr> in
      case c of None \<Rightarrow> no_connection i st s | Some c \<Rightarrow> send cfg i c st s)"

definition invokeOnUuid :: "inv_config \<Rightarrow> long_ops \<Rightarrow> nat \<Rightarrow> uuid \<Rightarrow> stage \<Rightarrow> inv_service \<Rightarrow> inv_service" where
  "invokeOnUuid cfg L i target st s =
     (case getConnection L target (registry s) of None \<Rightarrow> no_connection i st s | Some c \<Rightarrow> send cfg i c st s)"

definition invokeOnPartitionOwner :: "inv_config \<Rightarrow> long_ops \<Rightarrow> nat \<Rightarrow> int \<Rightarrow> stage \<Rightarrow> inv_service \<Rightarrow> inv_service" where
  "invokeOnPartitionOwner cfg L i p st s =
     (case getPartitionOwner p (partition_svc s) of
        None \<Rightarrow> no_connection i st s
      | Some u \<Rightarrow> invokeOnUuid cfg L i u st s)"

text \<open>The part of \<open>invokeSmart\<close> and \<open>invokeNonSmart\<close> after their check that invocations are allowed.\<close>

definition invokeSmart_send :: "inv_config \<Rightarrow> long_ops \<Rightarrow> nat \<Rightarrow> inv_service \<Rightarrow> inv_service" where
  "invokeSmart_send cfg L i s =
     (let v = invs s i in
      case inv_connection v of
        Some c \<Rightarrow> send cfg i c LastTry s
      | None \<Rightarrow>
          if hasPartitionId v then invokeOnPartitionOwner cfg L i (the (inv_partitionId v)) FirstTry s
          else case inv_uuid v of
            Some u \<Rightarrow> invokeOnUuid cfg L i u FirstTry s
          | None \<Rightarrow> invokeOnRandomConnection cfg L i FirstTry s)"

definition invokeNonSmart_send :: "inv_config \<Rightarrow> long_ops \<Rightarrow> nat \<Rightarrow> inv_service \<Rightarrow> inv_service" where
  "invokeNonSmart_send cfg L i s =
     (case inv_connection (invs s i) of
        Some c \<Rightarrow> send cfg i c LastTry s
      | None \<Rightarrow> invokeOnRandomConnection cfg L i LastTry s)"

subsection \<open>Errors and retries\<close>

text \<open>The error the promise is rejected with, or \<open>None\<close> if the invocation is to be retried.\<close>

definition rejectIfNotRetryable :: "inv_config \<Rightarrow> nat \<Rightarrow> failure \<Rightarrow> inv_service \<Rightarrow> failure option" where
  "rejectIfNotRetryable cfg i err s =
     (if \<not> isRunning s then Some (HzFailure ClientNotActiveError)
      else if \<not> shouldRetry cfg (invs s i) err then Some err
      else if deadline (invs s i) < now s then Some (HzFailure OperationTimeoutError)
      else None)"

text \<open>\<open>notifyError\<close>, which calls back into \<open>doInvoke\<close> for a fast retry.\<close>

definition on_error :: "inv_config \<Rightarrow> nat \<Rightarrow> failure \<Rightarrow> (inv_service \<Rightarrow> inv_service) \<Rightarrow> inv_service \<Rightarrow> inv_service" where
  "on_error cfg i err retry s =
     (case rejectIfNotRetryable cfg i err s of
        Some e \<Rightarrow> deregisterInvocation (correlation_of s i) (settle i (Rejected e) s)
      | None \<Rightarrow>
          if invokeCount (invs s i) < MAX_FAST_INVOCATION_COUNT then retry s
          else s\<lparr>timers := timers s @ [i]\<rparr>)"

lemma on_error_cong [fundef_cong]:
  assumes "s = s'" and "invokeCount (invs s' i) < MAX_FAST_INVOCATION_COUNT \<Longrightarrow> retry s' = retry' s'"
  shows "on_error cfg i err retry s = on_error cfg i err retry' s'"
  using assms by (auto simp: on_error_def split: option.split)

definition count_invoke :: "nat \<Rightarrow> inv_service \<Rightarrow> inv_service" where
  "count_invoke i = upd_inv i (\<lambda>v. v\<lparr>invokeCount := invokeCount v + 1\<rparr>)"

function doInvoke :: "inv_config \<Rightarrow> long_ops \<Rightarrow> nat \<Rightarrow> inv_service \<Rightarrow> inv_service" where
  "doInvoke cfg L i s =
     (case (if urgent (invs s i) then None else checkIfInvocationAllowed (registry s)) of
        Some e \<Rightarrow> on_error cfg i (HzFailure e) (doInvoke cfg L i) (count_invoke i s)
      | None \<Rightarrow> if smartRouting cfg then invokeSmart_send cfg L i (count_invoke i s)
                else invokeNonSmart_send cfg L i (count_invoke i s))"
  by pat_completeness auto
termination
  by (relation "measure (\<lambda>(cfg, L, i, s). MAX_FAST_INVOCATION_COUNT - invokeCount (invs s i))")
    (auto simp: count_invoke_def upd_inv_def)

declare doInvoke.simps [simp del]

definition notifyError :: "inv_config \<Rightarrow> long_ops \<Rightarrow> nat \<Rightarrow> failure \<Rightarrow> inv_service \<Rightarrow> inv_service" where
  "notifyError cfg L i err s = on_error cfg i err (doInvoke cfg L i) s"

text \<open>The \<open>catch\<close> handlers of the promise of \<open>send\<close>: a first failure tries a random connection, a second is an error.\<close>

definition send_rejected :: "inv_config \<Rightarrow> long_ops \<Rightarrow> nat \<Rightarrow> failure \<Rightarrow> stage \<Rightarrow> inv_service \<Rightarrow> inv_service" where
  "send_rejected cfg L i err st s =
     (case st of FirstTry \<Rightarrow> invokeOnRandomConnection cfg L i LastTry s
      | LastTry \<Rightarrow> notifyError cfg L i err s)"

subsection \<open>The service\<close>

definition invoke :: "inv_config \<Rightarrow> long_ops \<Rightarrow> nat \<Rightarrow> inv_service \<Rightarrow> inv_service" where
  "invoke cfg L i s =
     (let cid = correlationCounter s;
          s = upd_inv i (\<lambda>v. v\<lparr>deferred := Some Unsettled, inv_request := (inv_request v)\<lparr>rq_correlationId := cid\<rparr>\<rparr>)
                (s\<lparr>correlationCounter := cid + 1\<rparr>)
      in doInvoke cfg L i s)"

definition invokeUrgent :: "inv_config \<Rightarrow> long_ops \<Rightarrow> nat \<Rightarrow> inv_service \<Rightarrow> inv_service" where
  "invokeUrgent cfg L i s = invoke cfg L i (upd_inv i (\<lambda>v. v\<lparr>urgent := True\<rparr>) s)"

definition invokeOnConnection :: "inv_config \<Rightarrow> long_ops \<Rightarrow> nat \<Rightarrow> nat \<Rightarrow> request \<Rightarrow> bool \<Rightarrow> inv_service \<Rightarrow> inv_service" where
  "invokeOnConnection cfg L i c rq withHandler s =
     invoke cfg L i (upd_inv i (\<lambda>_. (newInvocation cfg rq None (now s))
       \<lparr>inv_connection := Some c, has_handler := withHandler\<rparr>) s)"

definition invokeOnPartition :: "inv_config \<Rightarrow> long_ops \<Rightarrow> nat \<Rightarrow> request \<Rightarrow> int \<Rightarrow> int option \<Rightarrow> inv_service \<Rightarrow> inv_service" where
  "invokeOnPartition cfg L i rq p timeoutMillis s =
     invoke cfg L i (upd_inv i (\<lambda>_. (newInvocation cfg rq timeoutMillis (now s))\<lparr>inv_partitionId := Some p\<rparr>) s)"

definition invokeOnTarget :: "inv_config \<Rightarrow> long_ops \<Rightarrow> nat \<Rightarrow> request \<Rightarrow> uuid \<Rightarrow> inv_service \<Rightarrow> inv_service" where
  "invokeOnTarget cfg L i rq target s =
     invoke cfg L i (upd_inv i (\<lambda>_. (newInvocation cfg rq None (now s))\<lparr>inv_uuid := Some target\<rparr>) s)"

definition invokeOnRandomTarget :: "inv_config \<Rightarrow> long_ops \<Rightarrow> nat \<Rightarrow> request \<Rightarrow> inv_service \<Rightarrow> inv_service" where
  "invokeOnRandomTarget cfg L i rq s = invoke cfg L i (upd_inv i (\<lambda>_. newInvocation cfg rq None (now s)) s)"

definition removeEventHandler :: "int \<Rightarrow> inv_service \<Rightarrow> inv_service" where
  "removeEventHandler cid s = s\<lparr>eventHandlers := AList.delete cid (eventHandlers s)\<rparr>"

text \<open>A backup event names the invocation that was backed up.\<close>

definition backupEventHandler :: "int \<Rightarrow> inv_service \<Rightarrow> inv_service" where
  "backupEventHandler cid s =
     (case map_of (pending s) cid of None \<Rightarrow> s | Some i \<Rightarrow> notifyBackupComplete i s)"

definition remote_failure :: "response \<Rightarrow> failure" where
  "remote_failure r = (case createError (rs_errors r) of None \<Rightarrow> NullFailure | Some e \<Rightarrow> HzFailure (re_class e))"

text \<open>
  The result is the invocation whose handler is to be called with an event on the next tick, if the message is one.
\<close>

definition processResponse :: "inv_config \<Rightarrow> long_ops \<Rightarrow> response \<Rightarrow> inv_service \<Rightarrow> nat option \<times> inv_service" where
  "processResponse cfg L r s =
     (if rs_eventFlag r \<or> rs_backupEventFlag r then (map_of (eventHandlers s) (rs_correlationId r), s)
      else case map_of (pending s) (rs_correlationId r) of
        None \<Rightarrow> (None, s)
      | Some i \<Rightarrow>
          if rs_messageType r = EXCEPTION_MESSAGE_TYPE then (None, notifyError cfg L i (remote_failure r) s)
          else (None, notify_inv i r s))"

text \<open>
  The clean-up task visits the invocations that are pending when it starts: handling one of them removes at most
  its own entry, and a new attempt to send it keeps the entry in its place.
\<close>

definition clean_one :: "inv_config \<Rightarrow> long_ops \<Rightarrow> nat \<Rightarrow> inv_service \<Rightarrow> inv_service" where
  "clean_one cfg L i s =
     (case sendConnection (invs s i) of
        None \<Rightarrow> s
      | Some c \<Rightarrow>
          if \<not> isAlive (conns s c) then notifyError cfg L i (HzFailure TargetDisconnectedError) s
          else if backupAckToClientEnabled cfg
          then detectAndHandleBackupTimeout cfg (operationBackupTimeoutMillis cfg) i s
          else s)"

definition cleanResourcesTask :: "inv_config \<Rightarrow> long_ops \<Rightarrow> inv_service \<Rightarrow> inv_service" where
  "cleanResourcesTask cfg L s = fold (clean_one cfg L) (map snd (pending s)) s"

definition shutdown :: "inv_config \<Rightarrow> long_ops \<Rightarrow> inv_service \<Rightarrow> inv_service" where
  "shutdown cfg L s =
     (if isShutdown s then s
      else fold (\<lambda>i. notifyError cfg L i (HzFailure ClientNotActiveError)) (map snd (pending s))
             (s\<lparr>isShutdown := True\<rparr>))"

end
