(* ===== verification/InvocationProofs.thy ===== *)
theory InvocationProofs
  imports InvocationService
begin

section \<open>Invocations: the steps of the service and what they preserve\<close>

text \<open>
  \<open>svc_step\<close> is one turn of the event loop: a caller invokes, a write to a connection succeeds or fails, a retry timer
  fires, a response or a backup event arrives, the clean-up task runs, the client shuts down, or the world
  around the service changes (clock, connections, members, partitions, lifecycle). The invariants are about
  any interleaving of these steps.
\<close>

definition fresh_invocation :: "inv_config \<Rightarrow> request \<Rightarrow> int option \<Rightarrow> int \<Rightarrow> nat option \<Rightarrow> int option \<Rightarrow> uuid option \<Rightarrow>
    bool \<Rightarrow> bool \<Rightarrow> invocation" where
  "fresh_invocation cfg rq tm t c p u h ur =
     (newInvocation cfg rq tm t)\<lparr>inv_connection := c, inv_partitionId := p, inv_uuid := u, has_handler := h, urgent := ur\<rparr>"

inductive svc_step :: "inv_config \<Rightarrow> long_ops \<Rightarrow> inv_service \<Rightarrow> inv_service \<Rightarrow> bool" for cfg L where
  invoke: "deferred (invs s i) = None \<Longrightarrow>
    svc_step cfg L s (invoke cfg L i (upd_inv i (\<lambda>_. fresh_invocation cfg rq tm (now s) c p u h ur) s))"
| write_done: "Writing i c st \<in> set (jobs s) \<Longrightarrow>
    svc_step cfg L s (upd_inv i (\<lambda>v. v\<lparr>sendConnection := Some c\<rparr>) (s\<lparr>jobs := remove1 (Writing i c st) (jobs s)\<rparr>))"
| write_failed: "Writing i c st \<in> set (jobs s) \<Longrightarrow>
    svc_step cfg L s (send_rejected cfg L i err st (s\<lparr>jobs := remove1 (Writing i c st) (jobs s)\<rparr>))"
| send_failed: "Failing i err st \<in> set (jobs s) \<Longrightarrow>
    svc_step cfg L s (send_rejected cfg L i err st (s\<lparr>jobs := remove1 (Failing i err st) (jobs s)\<rparr>))"
| timer: "i \<in> set (timers s) \<Longrightarrow> svc_step cfg L s (doInvoke cfg L i (s\<lparr>timers := remove1 i (timers s)\<rparr>))"
| response: "svc_step cfg L s (snd (processResponse cfg L r s))"
| backup_event: "svc_step cfg L s (backupEventHandler cid s)"
| remove_handler: "svc_step cfg L s (removeEventHandler cid s)"
| clean: "\<not> isShutdown s \<Longrightarrow> svc_step cfg L s (cleanResourcesTask cfg L s)"
| shut: "svc_step cfg L s (shutdown cfg L s)"
| world: "now s \<le> t \<Longrightarrow> running \<longrightarrow> isRunning s \<Longrightarrow>
    svc_step cfg L s (s\<lparr>now := t, isRunning := running, conns := cn, registry := r, cluster := cl, partition_svc := p,
      draw := d\<rparr>)"

definition no_invocations :: "inv_service \<Rightarrow> bool" where
  "no_invocations s \<longleftrightarrow> (\<forall>i. deferred (invs s i) = None \<and> pendingResponseMessage (invs s i) = None) \<and>
     pending s = [] \<and> timers s = [] \<and> jobs s = []"

inductive svc_reach :: "inv_config \<Rightarrow> long_ops \<Rightarrow> inv_service \<Rightarrow> bool" for cfg L where
  start: "no_invocations s \<Longrightarrow> svc_reach cfg L s"
| step: "svc_reach cfg L s \<Longrightarrow> svc_step cfg L s s' \<Longrightarrow> svc_reach cfg L s'"

text \<open>The public ways to invoke are such steps.\<close>

lemma upd_upd: "upd_inv i f (upd_inv i g s) = upd_inv i (\<lambda>v. f (g v)) s"
  by (simp add: upd_inv_def)

lemma invoke_variants:
  "invokeOnConnection cfg L i c rq h s = invoke cfg L i (upd_inv i (\<lambda>_. fresh_invocation cfg rq None (now s) (Some c) None None h False) s)"
  "invokeOnPartition cfg L i rq p tm s = invoke cfg L i (upd_inv i (\<lambda>_. fresh_invocation cfg rq tm (now s) None (Some p) None False False) s)"
  "invokeOnTarget cfg L i rq u s = invoke cfg L i (upd_inv i (\<lambda>_. fresh_invocation cfg rq None (now s) None None (Some u) False False) s)"
  "invokeOnRandomTarget cfg L i rq s = invoke cfg L i (upd_inv i (\<lambda>_. fresh_invocation cfg rq None (now s) None None None False False) s)"
  by (simp_all add: invokeOnConnection_def invokeOnPartition_def invokeOnTarget_def invokeOnRandomTarget_def
      fresh_invocation_def newInvocation_def)

subsection \<open>Invariants\<close>

definition ids_ok :: "inv_service \<Rightarrow> bool" where
  "ids_ok s \<longleftrightarrow>
     distinct (map fst (pending s)) \<and>
     (\<forall>k i. (k, i) \<in> set (pending s) \<longrightarrow> correlation_of s i = k \<and> deferred (invs s i) \<noteq> None) \<and>
     (\<forall>i. deferred (invs s i) \<noteq> None \<longrightarrow> correlation_of s i < correlationCounter s) \<and>
     (\<forall>i j. deferred (invs s i) \<noteq> None \<longrightarrow> deferred (invs s j) \<noteq> None \<longrightarrow> correlation_of s i = correlation_of s j \<longrightarrow> i = j) \<and>
     (\<forall>i r. deferred (invs s i) = Some (Resolved r) \<longrightarrow> rs_correlationId r = correlation_of s i) \<and>
     (\<forall>i r. pendingResponseMessage (invs s i) = Some r \<longrightarrow>
        deferred (invs s i) \<noteq> None \<and> rs_correlationId r = correlation_of s i \<and> backupsAcksExpected (invs s i) = rs_backupAcks r)"

text \<open>No invocation is lost; those in \<open>X\<close> are being handled.\<close>

definition live_ok :: "nat set \<Rightarrow> inv_service \<Rightarrow> bool" where
  "live_ok X s \<longleftrightarrow>
     (\<forall>i. i \<notin> X \<longrightarrow> deferred (invs s i) = Some Unsettled \<longrightarrow>
        i \<in> snd ` set (pending s) \<or> i \<in> set (timers s) \<or> (\<exists>f st. Failing i f st \<in> set (jobs s))) \<and>
     (\<forall>i c st. Writing i c st \<in> set (jobs s) \<longrightarrow> deferred (invs s i) \<noteq> None \<and>
        (deferred (invs s i) = Some Unsettled \<longrightarrow> i \<in> snd ` set (pending s))) \<and>
     (\<forall>i f st. Failing i f st \<in> set (jobs s) \<longrightarrow> deferred (invs s i) \<noteq> None) \<and>
     (\<forall>i. i \<in> set (timers s) \<longrightarrow> deferred (invs s i) \<noteq> None)"

definition inert :: "(invocation \<Rightarrow> invocation) \<Rightarrow> bool" where
  "inert f \<longleftrightarrow> (\<forall>v. deferred (f v) = deferred v \<and> rq_correlationId (inv_request (f v)) = rq_correlationId (inv_request v) \<and>
     pendingResponseMessage (f v) = pendingResponseMessage v \<and> backupsAcksExpected (f v) = backupsAcksExpected v)"

lemma inertD:
  assumes "inert f"
  shows "deferred (f v) = deferred v" "rq_correlationId (inv_request (f v)) = rq_correlationId (inv_request v)"
    "pendingResponseMessage (f v) = pendingResponseMessage v" "backupsAcksExpected (f v) = backupsAcksExpected v"
  using assms by (simp_all add: inert_def)

lemma inert_fields [simp]:
  "inert (\<lambda>v. v\<lparr>sendConnection := c\<rparr>)" "inert (\<lambda>v. v\<lparr>invokeCount := n v\<rparr>)" "inert (\<lambda>v. v\<lparr>backupsAcksReceived := a v\<rparr>)"
  "inert (\<lambda>v. v\<lparr>inv_request := (inv_request v)\<lparr>rq_partitionId := p\<rparr>\<rparr>)"
  "inert (\<lambda>v. v\<lparr>inv_request := (inv_request v)\<lparr>rq_backupAware := b\<rparr>\<rparr>)"
  by (simp_all add: inert_def)

lemma inert_view:
  assumes "inert f"
  shows "deferred (invs (upd_inv i f s) j) = deferred (invs s j)" "correlation_of (upd_inv i f s) j = correlation_of s j"
    "pendingResponseMessage (invs (upd_inv i f s) j) = pendingResponseMessage (invs s j)"
    "backupsAcksExpected (invs (upd_inv i f s) j) = backupsAcksExpected (invs s j)"
  using inertD [OF assms] by (simp_all add: upd_inv_def)

lemma upd_inv_fields [simp]:
  "pending (upd_inv i f s) = pending s" "timers (upd_inv i f s) = timers s" "jobs (upd_inv i f s) = jobs s"
  "correlationCounter (upd_inv i f s) = correlationCounter s" "isShutdown (upd_inv i f s) = isShutdown s"
  "isRunning (upd_inv i f s) = isRunning s" "written (upd_inv i f s) = written s" "registry (upd_inv i f s) = registry s"
  "now (upd_inv i f s) = now s" "conns (upd_inv i f s) = conns s" "cluster (upd_inv i f s) = cluster s"
  "partition_svc (upd_inv i f s) = partition_svc s" "draw (upd_inv i f s) = draw s" "eventHandlers (upd_inv i f s) = eventHandlers s"
  by (simp_all add: upd_inv_def)

lemma ids_inert [simp]: "inert f \<Longrightarrow> ids_ok (upd_inv i f s) = ids_ok s"
  by (simp add: ids_ok_def inert_view)

lemma live_inert [simp]: "inert f \<Longrightarrow> live_ok X (upd_inv i f s) = live_ok X s"
  by (simp add: live_ok_def inert_view)

lemma ids_fields [simp]:
  "ids_ok (s\<lparr>timers := ts\<rparr>) = ids_ok s" "ids_ok (s\<lparr>jobs := js\<rparr>) = ids_ok s" "ids_ok (s\<lparr>written := w\<rparr>) = ids_ok s"
  "ids_ok (s\<lparr>registry := r\<rparr>) = ids_ok s" "ids_ok (s\<lparr>eventHandlers := e\<rparr>) = ids_ok s" "ids_ok (s\<lparr>isShutdown := b\<rparr>) = ids_ok s"
  by (simp_all add: ids_ok_def)

lemma live_fields [simp]:
  "live_ok X (s\<lparr>written := w\<rparr>) = live_ok X s" "live_ok X (s\<lparr>registry := r\<rparr>) = live_ok X s"
  "live_ok X (s\<lparr>eventHandlers := e\<rparr>) = live_ok X s" "live_ok X (s\<lparr>isShutdown := b\<rparr>) = live_ok X s"
  by (simp_all add: live_ok_def)

lemma ids_okD:
  assumes "ids_ok s"
  shows "distinct (map fst (pending s))"
    and "(k, i) \<in> set (pending s) \<Longrightarrow> correlation_of s i = k"
    and "(k, i) \<in> set (pending s) \<Longrightarrow> deferred (invs s i) \<noteq> None"
    and "deferred (invs s i) \<noteq> None \<Longrightarrow> correlation_of s i < correlationCounter s"
    and "deferred (invs s i) \<noteq> None \<Longrightarrow> deferred (invs s j) \<noteq> None \<Longrightarrow> correlation_of s i = correlation_of s j \<Longrightarrow> i = j"
    and "deferred (invs s i) = Some (Resolved r) \<Longrightarrow> rs_correlationId r = correlation_of s i"
    and "pendingResponseMessage (invs s i) = Some r \<Longrightarrow> rs_correlationId r = correlation_of s i"
    and "pendingResponseMessage (invs s i) = Some r \<Longrightarrow> backupsAcksExpected (invs s i) = rs_backupAcks r"
    and "pendingResponseMessage (invs s i) = Some r \<Longrightarrow> deferred (invs s i) \<noteq> None"
  using assms unfolding ids_ok_def by blast+

lemma live_okI:
  assumes "\<And>i. i \<notin> X \<Longrightarrow> deferred (invs s i) = Some Unsettled \<Longrightarrow>
      i \<in> snd ` set (pending s) \<or> i \<in> set (timers s) \<or> (\<exists>f st. Failing i f st \<in> set (jobs s))"
    and "\<And>i c st. Writing i c st \<in> set (jobs s) \<Longrightarrow> deferred (invs s i) \<noteq> None"
    and "\<And>i c st. Writing i c st \<in> set (jobs s) \<Longrightarrow> deferred (invs s i) = Some Unsettled \<Longrightarrow> i \<in> snd ` set (pending s)"
    and "\<And>i f st. Failing i f st \<in> set (jobs s) \<Longrightarrow> deferred (invs s i) \<noteq> None"
    and "\<And>i. i \<in> set (timers s) \<Longrightarrow> deferred (invs s i) \<noteq> None"
  shows "live_ok X s"
  using assms unfolding live_ok_def by blast

lemma live_okD:
  assumes "live_ok X s"
  shows "i \<notin> X \<Longrightarrow> deferred (invs s i) = Some Unsettled \<Longrightarrow>
      i \<in> snd ` set (pending s) \<or> i \<in> set (timers s) \<or> (\<exists>f st. Failing i f st \<in> set (jobs s))"
    and "Writing i c st \<in> set (jobs s) \<Longrightarrow> deferred (invs s i) \<noteq> None"
    and "Writing i c st \<in> set (jobs s) \<Longrightarrow> deferred (invs s i) = Some Unsettled \<Longrightarrow> i \<in> snd ` set (pending s)"
    and "Failing i f st \<in> set (jobs s) \<Longrightarrow> deferred (invs s i) \<noteq> None"
    and "i \<in> set (timers s) \<Longrightarrow> deferred (invs s i) \<noteq> None"
  using assms unfolding live_ok_def by blast+

lemma live_mono: "live_ok X s \<Longrightarrow> X \<subseteq> Y \<Longrightarrow> live_ok Y s"
  unfolding live_ok_def by blast

subsection \<open>Settling\<close>

definition finish :: "nat \<Rightarrow> outcome \<Rightarrow> inv_service \<Rightarrow> inv_service" where
  "finish i res s = deregisterInvocation (correlation_of s i) (settle i res s)"

lemma finish_folds:
  "complete_inv i r s = finish i (Resolved r) s" "completeWithError i f s = finish i (Rejected f) s"
  "deregisterInvocation (correlation_of s i) (settle i res s) = finish i res s"
  by (simp_all add: finish_def complete_inv_def completeWithError_def)

lemma finish_view:
  "deferred (invs (finish i res s) j) =
     (if j = i \<and> deferred (invs s i) = Some Unsettled then Some res else deferred (invs s j))"
  "correlation_of (finish i res s) j = correlation_of s j"
  "pendingResponseMessage (invs (finish i res s) j) = pendingResponseMessage (invs s j)"
  "backupsAcksExpected (invs (finish i res s) j) = backupsAcksExpected (invs s j)"
  "backupsAcksReceived (invs (finish i res s) j) = backupsAcksReceived (invs s j)"
  "pending (finish i res s) = AList.delete (correlation_of s i) (pending s)"
  "timers (finish i res s) = timers s" "jobs (finish i res s) = jobs s" "written (finish i res s) = written s"
  "correlationCounter (finish i res s) = correlationCounter s" "isShutdown (finish i res s) = isShutdown s"
  "isRunning (finish i res s) = isRunning s" "now (finish i res s) = now s"
  by (simp_all add: finish_def deregisterInvocation_def settle_def upd_inv_def)

lemma set_delete: "set (AList.delete k es) = {e \<in> set es. fst e \<noteq> k}"
  by (auto simp: AList.delete_eq)

lemma ids_finish:
  assumes "ids_ok s" and "\<And>r. res = Resolved r \<Longrightarrow> rs_correlationId r = correlation_of s i"
  shows "ids_ok (finish i res s)"
proof -
  have "distinct (map fst (AList.delete (correlation_of s i) (pending s)))"
    using assms(1) by (simp add: ids_ok_def AList.distinct_delete)
  then show ?thesis
    using assms unfolding ids_ok_def finish_view by (auto simp: set_delete split: if_splits)
qed

lemma pending_kept:
  assumes ids: "ids_ok s" and d: "deferred (invs s i) \<noteq> None" and "j \<in> snd ` set (pending s)" and "j \<noteq> i"
  shows "j \<in> snd ` set (pending (finish i res s))"
proof -
  obtain k where k: "(k, j) \<in> set (pending s)" using assms(3) by (metis imageE prod.collapse)
  then have "k \<noteq> correlation_of s i"
    using ids_okD(2,3) [OF ids k] ids_okD(5) [OF ids, of j i] d assms(4) by auto
  then have "(k, j) \<in> set (AList.delete (correlation_of s i) (pending s))" using k by (simp add: set_delete)
  from imageI [OF this, of snd] show ?thesis by (simp add: finish_view)
qed

lemma finish_unsettled:
  "deferred (invs (finish i res s) j) = Some Unsettled \<Longrightarrow> res \<noteq> Unsettled \<Longrightarrow> j \<noteq> i \<and> deferred (invs s j) = Some Unsettled"
  by (auto simp: finish_view split: if_splits)

lemma finish_some: "deferred (invs s j) \<noteq> None \<Longrightarrow> deferred (invs (finish i res s) j) \<noteq> None"
  by (simp add: finish_view)

lemma live_finish:
  assumes ids: "ids_ok s" and live: "live_ok (insert i X) s" and res: "res \<noteq> Unsettled" and d: "deferred (invs s i) \<noteq> None"
  shows "live_ok X (finish i res s)"
proof (rule live_okI)
  fix j assume j: "j \<notin> X" "deferred (invs (finish i res s) j) = Some Unsettled"
  note j' = finish_unsettled [OF j(2) res]
  have "j \<in> snd ` set (pending s) \<or> j \<in> set (timers s) \<or> (\<exists>f st. Failing j f st \<in> set (jobs s))"
    using live_okD(1) [OF live, of j] j(1) j' by simp
  then show "j \<in> snd ` set (pending (finish i res s)) \<or> j \<in> set (timers (finish i res s)) \<or>
      (\<exists>f st. Failing j f st \<in> set (jobs (finish i res s)))"
    using pending_kept [OF ids d, of j res] j' unfolding finish_view(7,8) by blast
next
  fix j c st
  assume j: "Writing j c st \<in> set (jobs (finish i res s))"
  show "deferred (invs (finish i res s) j) \<noteq> None"
    using live_okD(2) [OF live] j finish_some unfolding finish_view(8) by blast
  assume "deferred (invs (finish i res s) j) = Some Unsettled"
  from finish_unsettled [OF this res] show "j \<in> snd ` set (pending (finish i res s))"
    using live_okD(3) [OF live] j pending_kept [OF ids d, of j res] unfolding finish_view(8) by blast
next
  fix j f st assume "Failing j f st \<in> set (jobs (finish i res s))"
  then show "deferred (invs (finish i res s) j) \<noteq> None"
    using live_okD(4) [OF live] finish_some unfolding finish_view(8) by blast
next
  fix j assume "j \<in> set (timers (finish i res s))"
  then show "deferred (invs (finish i res s) j) \<noteq> None"
    using live_okD(5) [OF live] finish_some unfolding finish_view(7) by blast
qed

subsection \<open>Sending\<close>

lemma register_view:
  "deferred (invs (registerInvocation i s) j) = deferred (invs s j)" "correlation_of (registerInvocation i s) j = correlation_of s j"
  "pendingResponseMessage (invs (registerInvocation i s) j) = pendingResponseMessage (invs s j)"
  "backupsAcksExpected (invs (registerInvocation i s) j) = backupsAcksExpected (invs s j)"
  "backupsAcksReceived (invs (registerInvocation i s) j) = backupsAcksReceived (invs s j)"
  "pending (registerInvocation i s) = AList.update (correlation_of s i) i (pending s)"
  "timers (registerInvocation i s) = timers s" "jobs (registerInvocation i s) = jobs s" "written (registerInvocation i s) = written s"
  "correlationCounter (registerInvocation i s) = correlationCounter s" "isShutdown (registerInvocation i s) = isShutdown s"
  "isRunning (registerInvocation i s) = isRunning s" "now (registerInvocation i s) = now s"
  by (simp_all add: registerInvocation_def upd_inv_def Let_def)

lemma mem_snd: "j \<in> snd ` set es \<longleftrightarrow> (\<exists>k. (k, j) \<in> set es)"
  by (auto intro: rev_image_eqI)

lemma update_mem: "distinct (map fst es) \<Longrightarrow> (k', j) \<in> set (AList.update k i es) \<longleftrightarrow> (if k' = k then j = i else (k', j) \<in> set es)"
  by (induction es) (auto intro: rev_image_eqI)

lemma ids_register:
  assumes ids: "ids_ok s" and d: "deferred (invs s i) \<noteq> None"
  shows "ids_ok (registerInvocation i s)"
proof -
  have "distinct (map fst (pending s))" using ids by (simp add: ids_ok_def)
  then show ?thesis
    using ids d unfolding ids_ok_def register_view by (auto simp: distinct_update update_mem split: if_splits)
qed

lemma register_pending:
  assumes ids: "ids_ok s" and d: "deferred (invs s i) \<noteq> None"
  shows "snd ` set (pending (registerInvocation i s)) = insert i (snd ` set (pending s))"
proof -
  have dist: "distinct (map fst (pending s))" using ids by (simp add: ids_ok_def)
  have "j = i" if "(correlation_of s i, j) \<in> set (pending s)" for j
    using that ids d unfolding ids_ok_def by blast
  then have "j \<in> snd ` set (pending (registerInvocation i s)) \<longleftrightarrow> j = i \<or> j \<in> snd ` set (pending s)" for j
    unfolding register_view mem_snd update_mem [OF dist] by metis
  then show ?thesis by blast
qed

lemma live_register:
  assumes "ids_ok s" and "deferred (invs s i) \<noteq> None" and "live_ok (insert i X) s"
  shows "live_ok X (registerInvocation i s)"
  by (rule live_okI)
    (use live_okD [OF assms(3)] register_pending [OF assms(1,2)] in \<open>auto simp: register_view simp del: register_view(6)\<close>)

text \<open>Adding a job or a timer for an invocation takes care of it.\<close>

lemma live_failing:
  "live_ok (insert i X) s \<Longrightarrow> deferred (invs s i) \<noteq> None \<Longrightarrow> live_ok X (s\<lparr>jobs := jobs s @ [Failing i f st]\<rparr>)"
  by (rule live_okI) (auto dest: live_okD)

lemma live_timer:
  "live_ok (insert i X) s \<Longrightarrow> deferred (invs s i) \<noteq> None \<Longrightarrow> live_ok X (s\<lparr>timers := timers s @ [i]\<rparr>)"
  by (rule live_okI) (auto dest: live_okD)

lemma live_writing:
  "live_ok X s \<Longrightarrow> deferred (invs s i) \<noteq> None \<Longrightarrow> i \<in> snd ` set (pending s) \<Longrightarrow>
     live_ok X (s\<lparr>jobs := jobs s @ [Writing i c st]\<rparr>)"
  by (rule live_okI) (auto dest: live_okD)

text \<open>
  How outcomes may change: what is settled stays as it is, and the correlation id of an invocation stays. The operations
  that send, retry or reject never resolve a promise.
\<close>

definition keeps_outcomes :: "inv_service \<Rightarrow> inv_service \<Rightarrow> bool" where
  "keeps_outcomes s s' \<longleftrightarrow> (\<forall>j. deferred (invs s j) \<noteq> None \<longrightarrow> deferred (invs s' j) \<noteq> None \<and>
     (deferred (invs s j) \<noteq> Some Unsettled \<longrightarrow> deferred (invs s' j) = deferred (invs s j)) \<and>
     correlation_of s' j = correlation_of s j)"

definition resolves_nothing :: "inv_service \<Rightarrow> inv_service \<Rightarrow> bool" where
  "resolves_nothing s s' \<longleftrightarrow> (\<forall>j r. deferred (invs s' j) = Some (Resolved r) \<longrightarrow> deferred (invs s j) = Some (Resolved r)) \<and>
     (\<forall>j. deferred (invs s j) = None \<longrightarrow> deferred (invs s' j) = None)"

lemma keeps_trans: "keeps_outcomes s t \<Longrightarrow> keeps_outcomes t u \<Longrightarrow> keeps_outcomes s u"
  unfolding keeps_outcomes_def by metis

lemma resolves_trans: "resolves_nothing s t \<Longrightarrow> resolves_nothing t u \<Longrightarrow> resolves_nothing s u"
  unfolding resolves_nothing_def by blast

lemma same_outcomes:
  assumes "\<And>j. deferred (invs s' j) = deferred (invs s j)" and "\<And>j. correlation_of s' j = correlation_of s j"
  shows "keeps_outcomes s s'" "resolves_nothing s s'"
  using assms by (simp_all add: keeps_outcomes_def resolves_nothing_def)

definition handles :: "nat \<Rightarrow> (inv_service \<Rightarrow> inv_service) \<Rightarrow> bool" where
  "handles i f \<longleftrightarrow> (\<forall>s X. ids_ok s \<longrightarrow> live_ok (insert i X) s \<longrightarrow> deferred (invs s i) \<noteq> None \<longrightarrow>
     ids_ok (f s) \<and> live_ok X (f s) \<and> keeps_outcomes s (f s) \<and> resolves_nothing s (f s))"

lemma handlesI:
  assumes "\<And>s X. ids_ok s \<Longrightarrow> live_ok (insert i X) s \<Longrightarrow> deferred (invs s i) \<noteq> None \<Longrightarrow> ids_ok (f s)"
    and "\<And>s X. ids_ok s \<Longrightarrow> live_ok (insert i X) s \<Longrightarrow> deferred (invs s i) \<noteq> None \<Longrightarrow> live_ok X (f s)"
    and "\<And>s X. ids_ok s \<Longrightarrow> live_ok (insert i X) s \<Longrightarrow> deferred (invs s i) \<noteq> None \<Longrightarrow> keeps_outcomes s (f s)"
    and "\<And>s X. ids_ok s \<Longrightarrow> live_ok (insert i X) s \<Longrightarrow> deferred (invs s i) \<noteq> None \<Longrightarrow> resolves_nothing s (f s)"
  shows "handles i f"
  using assms unfolding handles_def by blast

lemma handlesD:
  assumes "handles i f" and "ids_ok s" and "live_ok (insert i X) s" and "deferred (invs s i) \<noteq> None"
  shows "ids_ok (f s)" "live_ok X (f s)" "keeps_outcomes s (f s)" "resolves_nothing s (f s)"
  using assms unfolding handles_def by blast+

lemma handles_reject: "handles i (finish i (Rejected e))"
proof (rule handlesI)
  fix s X assume s: "ids_ok s" "live_ok (insert i X) s" "deferred (invs s i) \<noteq> None"
  show "ids_ok (finish i (Rejected e) s)" by (rule ids_finish [OF s(1)]) simp
  show "live_ok X (finish i (Rejected e) s)" using live_finish [OF s(1,2) _ s(3)] by simp
  show "keeps_outcomes s (finish i (Rejected e) s)" "resolves_nothing s (finish i (Rejected e) s)"
    by (auto simp: keeps_outcomes_def resolves_nothing_def finish_view)
qed

lemma handles_failing: "handles i (\<lambda>s. s\<lparr>jobs := jobs s @ [Failing i f st]\<rparr>)"
  by (rule handlesI) (simp_all add: live_failing same_outcomes)

lemma handles_timer: "handles i (\<lambda>s. s\<lparr>timers := timers s @ [i]\<rparr>)"
  by (rule handlesI) (simp_all add: live_timer same_outcomes)

lemma handles_after:
  assumes "handles i f" and "\<And>s X. ids_ok (g s) = ids_ok s" "\<And>s X. live_ok X (g s) = live_ok X s"
    and "\<And>s j. deferred (invs (g s) j) = deferred (invs s j)" "\<And>s j. correlation_of (g s) j = correlation_of s j"
  shows "handles i (\<lambda>s. f (g s))"
proof (rule handlesI)
  fix s X assume s: "ids_ok s" "live_ok (insert i X) s" "deferred (invs s i) \<noteq> None"
  note g = handlesD [OF assms(1), of "g s" X]
  have g': "ids_ok (g s)" "live_ok (insert i X) (g s)" "deferred (invs (g s) i) \<noteq> None" using s assms(2-4) by simp_all
  note same = same_outcomes [of "g s" s, OF assms(4,5)]
  show "ids_ok (f (g s))" "live_ok X (f (g s))" using g [OF g'] by simp_all
  show "keeps_outcomes s (f (g s))" "resolves_nothing s (f (g s))"
    using keeps_trans [OF same(1)] resolves_trans [OF same(2)] g [OF g'] by simp_all
qed

lemma handles_write:
  "handles i (\<lambda>s. let s = registerInvocation i s in s\<lparr>jobs := jobs s @ [Writing i c st], written := w s\<rparr>)"
proof (rule handlesI)
  fix s X assume s: "ids_ok s" "live_ok (insert i X) s" "deferred (invs s i) \<noteq> None"
  let ?r = "registerInvocation i s"
  have "live_ok X (?r\<lparr>jobs := jobs ?r @ [Writing i c st]\<rparr>)"
    using live_writing [OF live_register [OF s(1,3,2)], of i c st] register_pending [OF s(1,3)] s(3)
    by (simp add: register_view(1))
  then show "live_ok X (let s = registerInvocation i s in s\<lparr>jobs := jobs s @ [Writing i c st], written := w s\<rparr>)"
    by (simp add: Let_def)
  show "ids_ok (let s = registerInvocation i s in s\<lparr>jobs := jobs s @ [Writing i c st], written := w s\<rparr>)"
    using ids_register [OF s(1,3)] by (simp add: Let_def)
qed (simp_all add: Let_def register_view same_outcomes)

lemma handles_send: "handles i (send cfg i c st)"
proof -
  let ?b = "upd_inv i (\<lambda>v. v\<lparr>inv_request := (inv_request v)\<lparr>rq_backupAware := True\<rparr>\<rparr>)"
  let ?w = "\<lambda>s. let s = registerInvocation i s in s\<lparr>jobs := jobs s @ [Writing i c st], written := written s @ [(i, c)]\<rparr>"
  have "handles i (\<lambda>s. ?w (?b s))"
    by (rule handles_after [OF handles_write]) (simp_all add: inert_view)
  then have w: "handles i (\<lambda>s. ?w (if backupAckToClientEnabled cfg then ?b s else s))"
    using handles_write [of i "\<lambda>s. written s @ [(i, c)]" c st] by (cases "backupAckToClientEnabled cfg") simp_all
  show ?thesis
    using handlesD [OF w] handlesD [OF handles_failing [of i "HzFailure ClientNotActiveError" st]]
    by (intro handlesI) (simp_all add: send_def Let_def)
qed

lemma handles_no_connection: "handles i (no_connection i st)"
  unfolding no_connection_def [abs_def] by (rule handles_failing)

definition handled :: "nat \<Rightarrow> inv_service \<Rightarrow> inv_service \<Rightarrow> bool" where
  "handled i s t \<longleftrightarrow> (\<forall>X. ids_ok s \<longrightarrow> live_ok (insert i X) s \<longrightarrow> deferred (invs s i) \<noteq> None \<longrightarrow>
     ids_ok t \<and> live_ok X t \<and> keeps_outcomes s t \<and> resolves_nothing s t)"

lemma handled_by: "handles i f \<Longrightarrow> handled i s (f s)"
  by (simp add: handles_def handled_def)

lemma handles_pointwise: "(\<And>s. handled i s (f s)) \<Longrightarrow> handles i f"
  by (simp add: handles_def handled_def)

lemma handles_random: "handles i (invokeOnRandomConnection cfg L i st)"
proof (rule handles_pointwise)
  fix s :: inv_service
  let ?r = "getRandomConnection L (draw s) (cluster s) False (registry s)"
  have "handles i (\<lambda>s. f (s\<lparr>registry := snd ?r\<rparr>))" if "handles i f" for f
    by (rule handles_after [OF that]) simp_all
  then have "handled i s (no_connection i st (s\<lparr>registry := snd ?r\<rparr>))" "handled i s (send cfg i c st (s\<lparr>registry := snd ?r\<rparr>))" for c
    using handled_by handles_no_connection handles_send by blast+
  then show "handled i s (invokeOnRandomConnection cfg L i st s)"
    by (simp add: invokeOnRandomConnection_def case_prod_beta Let_def split: option.split)
qed

lemma handles_uuid: "handles i (invokeOnUuid cfg L i u st)"
  by (rule handles_pointwise)
    (simp add: invokeOnUuid_def handles_send [THEN handled_by] handles_no_connection [THEN handled_by] split: option.split)

lemma handles_partition: "handles i (invokeOnPartitionOwner cfg L i p st)"
  by (rule handles_pointwise)
    (simp add: invokeOnPartitionOwner_def handles_uuid [THEN handled_by] handles_no_connection [THEN handled_by]
      split: option.split)

lemma handles_smart: "handles i (invokeSmart_send cfg L i)"
  by (rule handles_pointwise)
    (simp add: invokeSmart_send_def Let_def handles_uuid [THEN handled_by] handles_send [THEN handled_by]
      handles_random [THEN handled_by] handles_partition [THEN handled_by] split: option.split)

lemma handles_nonsmart: "handles i (invokeNonSmart_send cfg L i)"
  by (rule handles_pointwise)
    (simp add: invokeNonSmart_send_def handles_send [THEN handled_by] handles_random [THEN handled_by] split: option.split)

lemma handled_on_error:
  "(invokeCount (invs s i) < MAX_FAST_INVOCATION_COUNT \<Longrightarrow> handled i s (retry s)) \<Longrightarrow> handled i s (on_error cfg i err retry s)"
  by (simp add: on_error_def finish_folds handles_reject [THEN handled_by] handles_timer [THEN handled_by] split: option.split)

lemma handled_count: "handled i (count_invoke i s) t \<Longrightarrow> handled i s t"
proof -
  have i: "inert (\<lambda>v. v\<lparr>invokeCount := invokeCount v + 1\<rparr>)" by simp
  note v = inert_view [OF i, folded count_invoke_def]
  note o = same_outcomes [of "count_invoke i s" s, OF v(1,2)]
  show "handled i (count_invoke i s) t \<Longrightarrow> handled i s t"
    using keeps_trans [OF o(1)] resolves_trans [OF o(2)]
    by (simp add: handled_def v) (simp add: count_invoke_def)
qed

lemma handles_doInvoke: "handles i (doInvoke cfg L i)"
proof (rule handles_pointwise)
  fix s show "handled i s (doInvoke cfg L i s)"
  proof (induction cfg L i s rule: doInvoke.induct)
    case (1 cfg L i s)
    have "handled i (count_invoke i s) (on_error cfg i (HzFailure e) (doInvoke cfg L i) (count_invoke i s))"
      if "(if urgent (invs s i) then None else checkIfInvocationAllowed (registry s)) = Some e" for e
      by (rule handled_on_error) (rule 1 [OF that])
    then have "handled i (count_invoke i s) (doInvoke cfg L i s)"
      unfolding doInvoke.simps [of cfg L i s]
      by (simp add: handles_smart [THEN handled_by] handles_nonsmart [THEN handled_by] split: option.split)
    then show ?case by (rule handled_count)
  qed
qed

lemma handles_notifyError: "handles i (notifyError cfg L i err)"
  by (rule handles_pointwise) (simp add: notifyError_def handled_on_error handles_doInvoke [THEN handled_by])

lemma handles_send_rejected: "handles i (send_rejected cfg L i err st)"
  by (rule handles_pointwise)
    (simp add: send_rejected_def handles_notifyError [THEN handled_by] handles_random [THEN handled_by] split: stage.split)

subsection \<open>What an operation on one invocation leaves alone\<close>

definition touches :: "nat \<Rightarrow> inv_service \<Rightarrow> inv_service \<Rightarrow> bool" where
  "touches i s t \<longleftrightarrow> (\<forall>j. j \<noteq> i \<longrightarrow> invs t j = invs s j) \<and> now t = now s \<and> isRunning t = isRunning s \<and>
     isShutdown t = isShutdown s \<and> conns t = conns s \<and> draw t = draw s \<and>
     backupsAcksReceived (invs t i) = backupsAcksReceived (invs s i) \<and>
     pendingResponseReceivedMillis (invs t i) = pendingResponseReceivedMillis (invs s i) \<and>
     sendConnection (invs t i) = sendConnection (invs s i) \<and>
     deadline (invs t i) = deadline (invs s i) \<and> inv_connection (invs t i) = inv_connection (invs s i) \<and>
     inv_uuid (invs t i) = inv_uuid (invs s i) \<and>
     rq_retryable (inv_request (invs t i)) = rq_retryable (inv_request (invs s i))"

lemma touches_refl [simp]: "touches i s s"
  by (simp add: touches_def)

lemma touches_trans: "touches i s t \<Longrightarrow> touches i t u \<Longrightarrow> touches i s u"
  unfolding touches_def by metis

lemma touches_fields [simp]:
  "touches i s (t\<lparr>jobs := js\<rparr>) = touches i s t" "touches i s (t\<lparr>timers := ts\<rparr>) = touches i s t"
  "touches i s (t\<lparr>registry := r\<rparr>) = touches i s t" "touches i s (t\<lparr>written := w\<rparr>) = touches i s t"
  "touches i s (t\<lparr>pending := p\<rparr>) = touches i s t" "touches i s (t\<lparr>eventHandlers := e\<rparr>) = touches i s t"
  by (simp_all add: touches_def)

lemma touches_parts:
  "touches i s (finish i res s)" "touches i s (registerInvocation i s)" "touches i s (count_invoke i s)"
  "touches i s (upd_inv i (\<lambda>v. v\<lparr>inv_request := (inv_request v)\<lparr>rq_backupAware := b\<rparr>\<rparr>) s)"
  by (simp_all add: touches_def finish_def deregisterInvocation_def settle_def registerInvocation_def count_invoke_def
      upd_inv_def Let_def)

lemma touches_send: "touches i s (send cfg i c st s)"
proof -
  let ?b = "upd_inv i (\<lambda>v. v\<lparr>inv_request := (inv_request v)\<lparr>rq_backupAware := True\<rparr>\<rparr>) s"
  have "touches i s (registerInvocation i ?b)"
    by (rule touches_trans [OF touches_parts(4) touches_parts(2)])
  then show ?thesis using touches_parts(2) [of i s] by (simp add: send_def Let_def)
qed

lemma touches_random: "touches i s (invokeOnRandomConnection cfg L i st s)"
proof -
  have "touches i s (send cfg i c st (s\<lparr>registry := r\<rparr>))" for c r
    using touches_trans [OF _ touches_send, of i s "s\<lparr>registry := r\<rparr>"] by simp
  then show ?thesis
    by (simp add: invokeOnRandomConnection_def no_connection_def case_prod_beta Let_def split: option.split)
qed

lemma touches_uuid: "touches i s (invokeOnUuid cfg L i u st s)"
  by (simp add: invokeOnUuid_def no_connection_def touches_send split: option.split)

lemma touches_partition: "touches i s (invokeOnPartitionOwner cfg L i p st s)"
  by (simp add: invokeOnPartitionOwner_def no_connection_def touches_uuid split: option.split)

lemma touches_sends: "touches i s (invokeSmart_send cfg L i s)" "touches i s (invokeNonSmart_send cfg L i s)"
  by (simp_all add: invokeSmart_send_def invokeNonSmart_send_def Let_def touches_send touches_random touches_uuid
      touches_partition split: option.split)

lemma touches_on_error:
  "(invokeCount (invs s i) < MAX_FAST_INVOCATION_COUNT \<Longrightarrow> touches i s (retry s)) \<Longrightarrow> touches i s (on_error cfg i err retry s)"
  by (simp add: on_error_def finish_folds touches_parts split: option.split)

lemma touches_doInvoke: "touches i s (doInvoke cfg L i s)"
proof (induction cfg L i s rule: doInvoke.induct)
  case (1 cfg L i s)
  have "touches i (count_invoke i s) (on_error cfg i (HzFailure e) (doInvoke cfg L i) (count_invoke i s))"
    if "(if urgent (invs s i) then None else checkIfInvocationAllowed (registry s)) = Some e" for e
    by (rule touches_on_error) (rule 1 [OF that])
  then have "touches i (count_invoke i s) (doInvoke cfg L i s)"
    unfolding doInvoke.simps [of cfg L i s] by (simp add: touches_sends split: option.split)
  then show ?case by (rule touches_trans [OF touches_parts(3)])
qed

lemma touches_notifyError: "touches i s (notifyError cfg L i err s)"
  by (simp add: notifyError_def touches_on_error touches_doInvoke)

lemma touches_send_rejected: "touches i s (send_rejected cfg L i err st s)"
  by (simp add: send_rejected_def touches_notifyError touches_random split: stage.split)

subsection \<open>Every step keeps the invariants\<close>

definition sound :: "inv_service \<Rightarrow> inv_service \<Rightarrow> bool" where
  "sound s t \<longleftrightarrow> (ids_ok s \<longrightarrow> live_ok {} s \<longrightarrow> ids_ok t \<and> live_ok {} t \<and> keeps_outcomes s t)"

lemma soundD:
  "sound s t \<Longrightarrow> ids_ok s \<Longrightarrow> live_ok {} s \<Longrightarrow> ids_ok t"
  "sound s t \<Longrightarrow> ids_ok s \<Longrightarrow> live_ok {} s \<Longrightarrow> live_ok {} t"
  "sound s t \<Longrightarrow> ids_ok s \<Longrightarrow> live_ok {} s \<Longrightarrow> keeps_outcomes s t"
  by (simp_all add: sound_def)

lemma sound_trans: "sound s t \<Longrightarrow> sound t u \<Longrightarrow> sound s u"
  unfolding sound_def using keeps_trans by blast

lemma keeps_refl [simp]: "keeps_outcomes s s"
  by (simp add: keeps_outcomes_def)

lemma sound_refl [simp]: "sound s s"
  by (simp add: sound_def)

lemma sound_handled: "handled i s t \<Longrightarrow> deferred (invs s i) \<noteq> None \<Longrightarrow> sound s t"
  unfolding sound_def handled_def using live_mono [of "{}" s "{i}"] by blast

lemma sound_finish:
  assumes "deferred (invs s i) \<noteq> None" and "res \<noteq> Unsettled" and "\<And>r. res = Resolved r \<Longrightarrow> rs_correlationId r = correlation_of s i"
  shows "sound s (finish i res s)"
  unfolding sound_def
proof (intro impI conjI)
  assume s: "ids_ok s" "live_ok {} s"
  show "ids_ok (finish i res s)" by (rule ids_finish [OF s(1) assms(3)])
  show "live_ok {} (finish i res s)" by (rule live_finish [OF s(1) live_mono [OF s(2)] assms(2,1)]) simp
  show "keeps_outcomes s (finish i res s)" by (auto simp: keeps_outcomes_def finish_view)
qed

lemma sound_notify:
  assumes "deferred (invs s i) \<noteq> None" and "rs_correlationId r = correlation_of s i"
  shows "sound s (notify_inv i r s)"
proof -
  let ?t = "upd_inv i (\<lambda>v. v\<lparr>pendingResponseReceivedMillis := now s, backupsAcksExpected := rs_backupAcks r,
                          pendingResponseMessage := Some r\<rparr>) s"
  have "ids_ok s \<Longrightarrow> ids_ok ?t" using assms unfolding ids_ok_def by (auto simp: upd_inv_def)
  moreover have "live_ok {} s \<Longrightarrow> live_ok {} ?t" unfolding live_ok_def by (auto simp: upd_inv_def)
  moreover have "keeps_outcomes s ?t" by (auto simp: keeps_outcomes_def upd_inv_def)
  ultimately have "sound s ?t" by (simp add: sound_def)
  then show ?thesis
    using sound_finish [OF assms(1), of "Resolved r"] assms(2) by (simp add: notify_inv_def finish_folds)
qed

lemma sound_backup: "deferred (invs s i) \<noteq> None \<Longrightarrow> ids_ok s \<Longrightarrow> sound s (notifyBackupComplete i s)"
proof -
  assume d: "deferred (invs s i) \<noteq> None" and ids: "ids_ok s"
  let ?t = "upd_inv i (\<lambda>v. v\<lparr>backupsAcksReceived := backupsAcksReceived v + 1\<rparr>) s"
  have i: "inert (\<lambda>v. v\<lparr>backupsAcksReceived := backupsAcksReceived v + 1\<rparr>)" by simp
  have t: "sound s ?t" using same_outcomes(1) [of ?t s] by (simp add: sound_def inert_view [OF i])
  have "sound ?t (finish i (Resolved r) ?t)" if "pendingResponseMessage (invs ?t i) = Some r" for r
    by (rule sound_finish) (use d ids_okD(7) [OF ids, of i r] that in \<open>simp_all add: inert_view [OF i]\<close>)
  then show ?thesis
    using t sound_trans [OF t] unfolding notifyBackupComplete_def Let_def finish_folds
    by (auto split: option.split)
qed

lemma sound_timeout: "deferred (invs s i) \<noteq> None \<Longrightarrow> ids_ok s \<Longrightarrow> sound s (detectAndHandleBackupTimeout cfg tm i s)"
proof -
  assume d: "deferred (invs s i) \<noteq> None" and ids: "ids_ok s"
  have "sound s (finish i (Resolved r) s)" if "pendingResponseMessage (invs s i) = Some r" for r
    by (rule sound_finish) (use d ids_okD(7) [OF ids, of i r] that in simp_all)
  moreover have "sound s (finish i (Rejected f) s)" for f by (rule sound_finish) (use d in simp_all)
  ultimately show ?thesis
    unfolding detectAndHandleBackupTimeout_def Let_def finish_folds by (auto split: option.split)
qed

lemma sound_clean_one: "deferred (invs s i) \<noteq> None \<Longrightarrow> ids_ok s \<Longrightarrow> sound s (clean_one cfg L i s)"
  using sound_handled [OF handles_notifyError [THEN handled_by]] sound_timeout
  unfolding clean_one_def by (auto split: option.split)

lemma sound_fold:
  assumes "\<And>s i. deferred (invs s i) \<noteq> None \<Longrightarrow> ids_ok s \<Longrightarrow> sound s (f i s)"
    and "\<And>i. i \<in> set is \<Longrightarrow> deferred (invs s i) \<noteq> None" and "ids_ok s" and "live_ok {} s"
  shows "sound s (fold f is s)"
  using assms(2-4)
proof (induction "is" arbitrary: s)
  case (Cons i "is")
  have st: "sound s (f i s)" using assms(1) Cons.prems by simp
  note t = soundD [OF st Cons.prems(2,3)]
  have "deferred (invs (f i s) j) \<noteq> None" if "j \<in> set is" for j
    using t(3) Cons.prems(1) [of j] that by (simp add: keeps_outcomes_def)
  from sound_trans [OF st Cons.IH [OF this t(1,2)]] show ?case by simp
qed simp

definition enter :: "nat \<Rightarrow> invocation \<Rightarrow> inv_service \<Rightarrow> inv_service" where
  "enter i w s = upd_inv i (\<lambda>_. w) (s\<lparr>correlationCounter := correlationCounter s + 1\<rparr>)"

lemma invoke_enter:
  "invoke cfg L i (upd_inv i (\<lambda>_. v) s) = doInvoke cfg L i (enter i
     (v\<lparr>deferred := Some Unsettled, inv_request := (inv_request v)\<lparr>rq_correlationId := correlationCounter s\<rparr>\<rparr>) s)"
  by (simp add: invoke_def enter_def upd_inv_def Let_def)

lemma enter_view:
  "invs (enter i w s) j = (if j = i then w else invs s j)" "pending (enter i w s) = pending s" "timers (enter i w s) = timers s"
  "jobs (enter i w s) = jobs s" "correlationCounter (enter i w s) = correlationCounter s + 1"
  by (simp_all add: enter_def upd_inv_def)

lemma enter_ok:
  assumes new: "deferred (invs s i) = None" and w: "deferred w = Some Unsettled" "pendingResponseMessage w = None"
    "rq_correlationId (inv_request w) = correlationCounter s" and ids: "ids_ok s" and live: "live_ok {} s"
  shows "ids_ok (enter i w s)" "live_ok {i} (enter i w s)" "keeps_outcomes s (enter i w s)"
proof -
  have lt: "rq_correlationId (inv_request (invs s j)) < correlationCounter s" if "deferred (invs s j) \<noteq> None" for j
    using ids_okD(4) [OF ids that] .
  have np: "(k, i) \<notin> set (pending s)" for k using ids_okD(3) [OF ids, of k i] new by auto
  show "ids_ok (enter i w s)"
    using ids w lt np unfolding ids_ok_def enter_view by (auto split: if_splits) force+
  have nw: "Writing i c st \<notin> set (jobs s)" for c st using live_okD(2) [OF live, of i c st] new by auto
  show "live_ok {i} (enter i w s)"
    by (rule live_okI) (use live_okD [OF live] w new nw in \<open>auto simp: enter_view split: if_splits\<close>)
  show "keeps_outcomes s (enter i w s)" using new by (auto simp: keeps_outcomes_def enter_view)
qed

lemma sound_invoke:
  assumes "deferred (invs s i) = None"
  shows "sound s (invoke cfg L i (upd_inv i (\<lambda>_. fresh_invocation cfg rq tm t c p u h ur) s))"
  unfolding sound_def invoke_enter
proof (intro impI)
  assume s: "ids_ok s" "live_ok {} s"
  let ?v = "fresh_invocation cfg rq tm t c p u h ur"
  let ?w = "?v\<lparr>deferred := Some Unsettled, inv_request := (inv_request ?v)\<lparr>rq_correlationId := correlationCounter s\<rparr>\<rparr>"
  have w: "deferred ?w = Some Unsettled" "pendingResponseMessage ?w = None" "rq_correlationId (inv_request ?w) = correlationCounter s"
    by (simp_all add: fresh_invocation_def newInvocation_def)
  note e = enter_ok [OF assms w s]
  have d: "deferred (invs (enter i ?w s) i) \<noteq> None" by (simp add: enter_view)
  note h = handlesD [OF handles_doInvoke e(1,2) d, of cfg L]
  show "ids_ok (doInvoke cfg L i (enter i ?w s)) \<and> live_ok {} (doInvoke cfg L i (enter i ?w s)) \<and>
      keeps_outcomes s (doInvoke cfg L i (enter i ?w s))"
    using h keeps_trans [OF e(3)] by blast
qed

lemma in_set_remove1_imp: "x \<in> set (remove1 y xs) \<Longrightarrow> x \<in> set xs"
  using set_remove1_subset by fast

lemma removed_eq: "x \<in> set xs \<Longrightarrow> x \<notin> set (remove1 y xs) \<Longrightarrow> x = y"
  by (metis in_set_remove1)

text \<open>A job or a timer that is taken out leaves its invocation to be handled.\<close>

lemma live_less:
  assumes "live_ok Y s" and "pending s' = pending s" and "invs s' = invs s" and "set (jobs s') \<subseteq> set (jobs s)"
    and "set (timers s') \<subseteq> set (timers s)"
    and "\<And>j. j \<notin> X \<Longrightarrow> j \<notin> Y" and "\<And>j. j \<notin> X \<Longrightarrow> j \<in> set (timers s) \<Longrightarrow> j \<in> set (timers s')"
    and "\<And>j f st. j \<notin> X \<Longrightarrow> Failing j f st \<in> set (jobs s) \<Longrightarrow> Failing j f st \<in> set (jobs s')"
  shows "live_ok X s'"
proof (rule live_okI)
  fix j assume "j \<notin> X" "deferred (invs s' j) = Some Unsettled"
  then show "j \<in> snd ` set (pending s') \<or> j \<in> set (timers s') \<or> (\<exists>f st. Failing j f st \<in> set (jobs s'))"
    using live_okD(1) [OF assms(1), of j] assms(2,3,6-8) by metis
qed (use assms(2-5) live_okD(2-5) [OF assms(1)] in \<open>auto dest!: subsetD\<close>)

lemma take_writing:
  assumes "Writing i c st \<in> set (jobs s)" and "live_ok {} s"
  shows "live_ok {} (s\<lparr>jobs := remove1 (Writing i c st) (jobs s)\<rparr>)" "deferred (invs s i) \<noteq> None"
  using live_okD(2) [OF assms(2,1)]
  by (auto intro!: live_less [OF assms(2)] simp: in_set_remove1 dest: in_set_remove1_imp removed_eq)

lemma take_failing:
  assumes "Failing i f st \<in> set (jobs s)" and "live_ok {} s"
  shows "live_ok {i} (s\<lparr>jobs := remove1 (Failing i f st) (jobs s)\<rparr>)" "deferred (invs s i) \<noteq> None"
  using live_okD(4) [OF assms(2,1)]
  by (auto intro!: live_less [OF assms(2)] simp: in_set_remove1 dest: in_set_remove1_imp removed_eq)

lemma take_timer:
  assumes "i \<in> set (timers s)" and "live_ok {} s"
  shows "live_ok {i} (s\<lparr>timers := remove1 i (timers s)\<rparr>)" "deferred (invs s i) \<noteq> None"
  using live_okD(5) [OF assms(2,1)]
  by (auto intro!: live_less [OF assms(2)] simp: in_set_remove1 dest: in_set_remove1_imp removed_eq)

lemma sound_response: "ids_ok s \<Longrightarrow> sound s (snd (processResponse cfg L r s))"
proof -
  assume ids: "ids_ok s"
  have "sound s (notify_inv i r s) \<and> sound s (notifyError cfg L i f s)" if "map_of (pending s) (rs_correlationId r) = Some i" for i f
    using sound_notify [of s i r] sound_handled [OF handles_notifyError [THEN handled_by], of s i cfg L f]
      ids_okD(2,3) [OF ids map_of_SomeD [OF that]] by simp
  then show ?thesis by (simp add: processResponse_def split: option.split)
qed

lemma step_sound:
  assumes "svc_step cfg L s t" and ids: "ids_ok s" and live: "live_ok {} s"
  shows "sound s t"
  using assms
proof (cases rule: svc_step.cases)
  case (invoke i rq tm c p u h ur)
  then show ?thesis using sound_invoke by simp
next
  case (write_done i c st)
  then show ?thesis
    using take_writing [of i c st s] live same_outcomes(1) [of t s] by (simp add: sound_def inert_view)
next
  case (write_failed i c st err)
  let ?s = "s\<lparr>jobs := remove1 (Writing i c st) (jobs s)\<rparr>"
  have "sound ?s t" using sound_handled [OF handles_send_rejected [THEN handled_by]] write_failed take_writing(2) live by simp
  then show ?thesis using take_writing(1) [of i c st s] write_failed(2) live same_outcomes(1) [of ?s s] keeps_trans [of s ?s t] ids
    by (simp add: sound_def)
next
  case (send_failed i err st)
  let ?s = "s\<lparr>jobs := remove1 (Failing i err st) (jobs s)\<rparr>"
  have "ids_ok ?s" "deferred (invs ?s i) \<noteq> None" using ids take_failing(2) send_failed(2) live by simp_all
  from handlesD [OF handles_send_rejected this(1) take_failing(1) [OF send_failed(2) live] this(2), of cfg L err st]
  show ?thesis using send_failed(1) same_outcomes(1) [of ?s s] keeps_trans [of s ?s t] by (simp add: sound_def)
next
  case (timer i)
  let ?s = "s\<lparr>timers := remove1 i (timers s)\<rparr>"
  have "ids_ok ?s" "deferred (invs ?s i) \<noteq> None" using ids take_timer(2) timer(2) live by simp_all
  from handlesD [OF handles_doInvoke this(1) take_timer(1) [OF timer(2) live] this(2), of cfg L]
  show ?thesis using timer(1) same_outcomes(1) [of ?s s] keeps_trans [of s ?s t] by (simp add: sound_def)
next
  case (response r)
  then show ?thesis using sound_response ids by simp
next
  case (backup_event cid)
  then show ?thesis
    using sound_backup ids ids_okD(3) [OF ids map_of_SomeD] by (auto simp: backupEventHandler_def split: option.split)
next
  case (remove_handler cid)
  then show ?thesis by (simp add: removeEventHandler_def sound_def same_outcomes)
next
  case clean
  have "sound s (fold (clean_one cfg L) (map snd (pending s)) s)"
    by (rule sound_fold) (use sound_clean_one ids_okD(3) [OF ids] ids live in auto)
  then show ?thesis using clean by (simp add: cleanResourcesTask_def)
next
  case shut
  have "sound s (s\<lparr>isShutdown := True\<rparr>)" by (simp add: sound_def same_outcomes)
  moreover have "sound (s\<lparr>isShutdown := True\<rparr>) (fold (\<lambda>i. notifyError cfg L i (HzFailure ClientNotActiveError))
      (map snd (pending s)) (s\<lparr>isShutdown := True\<rparr>))"
    by (rule sound_fold) (use sound_handled [OF handles_notifyError [THEN handled_by]] ids_okD(3) [OF ids] ids live in auto)
  ultimately show ?thesis using shut sound_trans by (simp add: shutdown_def)
next
  case (world tm running cn r cl p d)
  have "ids_ok t = ids_ok s" "live_ok {} t = live_ok {} s" unfolding world(1) ids_ok_def live_ok_def by simp_all
  then show ?thesis using world(1) same_outcomes(1) [of t s] by (simp add: sound_def)
qed

lemma reach_inv: "svc_reach cfg L s \<Longrightarrow> ids_ok s \<and> live_ok {} s"
proof (induction rule: svc_reach.induct)
  case (start s)
  then show ?case by (simp add: no_invocations_def ids_ok_def live_ok_def)
next
  case (step s s')
  then show ?case using step_sound [OF step(2)] soundD by blast
qed

subsection \<open>When promises are resolved\<close>

text \<open>
  The response has as many backups as were acknowledged, or the acknowledgements have been missing for longer than the
  timeout and the client is configured to accept that.
\<close>

definition backed_up :: "inv_config \<Rightarrow> inv_service \<Rightarrow> nat \<Rightarrow> response \<Rightarrow> bool" where
  "backed_up cfg s i r \<longleftrightarrow> rs_backupAcks r \<le> backupsAcksReceived (invs s i) \<or>
     (\<not> shouldFailOnIndeterminateState cfg \<and>
      pendingResponseReceivedMillis (invs s i) + operationBackupTimeoutMillis cfg < now s)"

definition resolves_backed_up :: "inv_config \<Rightarrow> inv_service \<Rightarrow> inv_service \<Rightarrow> bool" where
  "resolves_backed_up cfg s t \<longleftrightarrow> (\<forall>i r. deferred (invs s i) = Some Unsettled \<longrightarrow> deferred (invs t i) = Some (Resolved r) \<longrightarrow>
     backed_up cfg t i r)"

lemma nothing_backed_up: "resolves_nothing s t \<Longrightarrow> resolves_backed_up cfg s t"
  unfolding resolves_nothing_def resolves_backed_up_def by force

definition quiet :: "inv_config \<Rightarrow> inv_service \<Rightarrow> inv_service \<Rightarrow> bool" where
  "quiet cfg s t \<longleftrightarrow> resolves_backed_up cfg s t \<and> keeps_outcomes s t \<and> now t = now s \<and>
     (\<forall>i. backupsAcksReceived (invs t i) = backupsAcksReceived (invs s i) \<and>
        pendingResponseReceivedMillis (invs t i) = pendingResponseReceivedMillis (invs s i))"

lemma quiet_refl [simp]: "quiet cfg s s"
  by (simp add: quiet_def resolves_backed_up_def)

lemma quiet_trans:
  assumes st: "quiet cfg s t" and tu: "quiet cfg t u"
  shows "quiet cfg s u"
proof -
  have "backed_up cfg u i r" if s: "deferred (invs s i) = Some Unsettled" and u: "deferred (invs u i) = Some (Resolved r)" for i r
  proof (cases "deferred (invs t i) = Some Unsettled")
    case True
    then show ?thesis using tu u by (simp add: quiet_def resolves_backed_up_def)
  next
    case False
    have "deferred (invs t i) = Some (Resolved r)"
      using st tu s u False unfolding quiet_def keeps_outcomes_def by (metis option.distinct(1))
    then have "backed_up cfg t i r" using st s by (simp add: quiet_def resolves_backed_up_def)
    then show ?thesis using tu by (simp add: quiet_def backed_up_def)
  qed
  moreover have "keeps_outcomes s u" using st tu keeps_trans unfolding quiet_def by blast
  ultimately show ?thesis using st tu unfolding quiet_def resolves_backed_up_def by simp
qed

lemma touches_same:
  "touches i s t \<Longrightarrow> now t = now s \<and> (\<forall>j. backupsAcksReceived (invs t j) = backupsAcksReceived (invs s j) \<and>
     pendingResponseReceivedMillis (invs t j) = pendingResponseReceivedMillis (invs s j))"
  unfolding touches_def by metis

lemma quiet_handled:
  assumes "handled i s t" and "touches i s t" and "ids_ok s" and "live_ok {} s" and "deferred (invs s i) \<noteq> None"
  shows "quiet cfg s t"
proof -
  have "keeps_outcomes s t" "resolves_nothing s t"
    using assms(1,3,5) live_mono [OF assms(4), of "{i}"] unfolding handled_def by blast+
  then show ?thesis using nothing_backed_up touches_same [OF assms(2)] by (simp add: quiet_def)
qed

lemma quiet_finish:
  assumes "\<And>r. res = Resolved r \<Longrightarrow> backed_up cfg s i r"
  shows "quiet cfg s (finish i res s)"
proof -
  have "backed_up cfg (finish i res s) j r = backed_up cfg s j r" for j r
    using touches_same [OF touches_parts(1) [of i s res]] by (simp add: backed_up_def)
  then show ?thesis
    using assms touches_same [OF touches_parts(1) [of i s res]]
    by (auto simp: quiet_def resolves_backed_up_def keeps_outcomes_def finish_view split: if_splits)
qed

lemma quiet_clean_one:
  assumes "ids_ok s" and "live_ok {} s" and "deferred (invs s i) \<noteq> None"
  shows "quiet cfg s (clean_one cfg L i s)"
proof -
  have "quiet cfg s (notifyError cfg L i f s)" for f
    by (rule quiet_handled [OF handles_notifyError [THEN handled_by] touches_notifyError assms])
  moreover have "quiet cfg s (detectAndHandleBackupTimeout cfg (operationBackupTimeoutMillis cfg) i s)"
    using quiet_finish [of "Resolved _" cfg s i] quiet_finish [of "Rejected _" cfg s i]
    by (auto simp: detectAndHandleBackupTimeout_def Let_def finish_folds backed_up_def split: option.split)
  ultimately show ?thesis by (auto simp: clean_one_def split: option.split)
qed

lemma quiet_fold:
  assumes "\<And>s i. ids_ok s \<Longrightarrow> live_ok {} s \<Longrightarrow> deferred (invs s i) \<noteq> None \<Longrightarrow> quiet cfg s (f i s) \<and> sound s (f i s)"
    and "\<And>i. i \<in> set is \<Longrightarrow> deferred (invs s i) \<noteq> None" and "ids_ok s" and "live_ok {} s"
  shows "quiet cfg s (fold f is s)"
  using assms(2-4)
proof (induction "is" arbitrary: s)
  case (Cons i "is")
  have st: "quiet cfg s (f i s)" "sound s (f i s)" using assms(1) Cons.prems by simp_all
  note t = soundD [OF st(2) Cons.prems(2,3)]
  have "deferred (invs (f i s) j) \<noteq> None" if "j \<in> set is" for j
    using t(3) Cons.prems(1) [of j] that by (simp add: keeps_outcomes_def)
  from quiet_trans [OF st(1) Cons.IH [OF this t(1,2)]] show ?case by simp
qed simp

end
