(* ===== verification/InvocationRuns.thy ===== *)
theory InvocationRuns
  imports InvocationProofs
begin

section \<open>Invocations: properties of every run\<close>

text \<open>
  What callers can rely on, whatever the order in which requests are made, answered, retried and given up: the
  properties below hold for every sequence of steps of the service.
\<close>

subsection \<open>Responses and outcomes\<close>

text \<open>
  C2. Responses reach the right caller. In every reachable state, correlation ids identify the invocations, the entries of
  the pending map are under the id of their own invocation, and a promise that is resolved is resolved with a
  response that carries the id of its invocation: no caller ever gets the response to another request.
\<close>

theorem responses_reach_their_caller:
  assumes "svc_reach cfg L s" and "deferred (invs s i) \<noteq> None"
  shows "(\<forall>r. deferred (invs s i) = Some (Resolved r) \<longrightarrow> rs_correlationId r = correlation_of s i) \<and>
    (\<forall>k. (k, i) \<in> set (pending s) \<longrightarrow> k = correlation_of s i) \<and>
    (\<forall>j. deferred (invs s j) \<noteq> None \<longrightarrow> correlation_of s j = correlation_of s i \<longrightarrow> j = i)"
proof -
  have ids: "ids_ok s" using reach_inv [OF assms(1)] by simp
  show ?thesis using ids_okD(2,6) [OF ids] ids_okD(5) [OF ids _ assms(2)] by auto
qed

text \<open>
  C7. Outcomes are final: a promise that is resolved or rejected keeps its outcome in every later state, and an
  invocation keeps its correlation id through all its retries.
\<close>

theorem outcomes_are_final:
  assumes "svc_reach cfg L s" and "(svc_step cfg L)\<^sup>*\<^sup>* s t" and "deferred (invs s i) = Some res"
  shows "correlation_of t i = correlation_of s i \<and> (res \<noteq> Unsettled \<longrightarrow> deferred (invs t i) = Some res)"
proof -
  have "svc_reach cfg L t \<and> keeps_outcomes s t"
    using assms(2)
  proof (induction rule: rtranclp_induct)
    case (step u t)
    then have "keeps_outcomes u t" using step_sound reach_inv soundD(3) by blast
    then show ?case using step svc_reach.step keeps_trans by blast
  qed (use assms(1) in simp)
  then show ?thesis using assms(3) by (simp add: keeps_outcomes_def)
qed

subsection \<open>Backups\<close>

lemma resolves_self: "resolves_backed_up cfg s s"
  by (simp add: resolves_backed_up_def)

lemma resolves_invoke:
  assumes "deferred (invs s i) = None" and ids: "ids_ok s" and live: "live_ok {} s"
  shows "resolves_backed_up cfg s (invoke cfg L i (upd_inv i (\<lambda>_. fresh_invocation cfg rq tm t c p u h ur) s))"
proof -
  let ?v = "fresh_invocation cfg rq tm t c p u h ur"
  let ?w = "?v\<lparr>deferred := Some Unsettled, inv_request := (inv_request ?v)\<lparr>rq_correlationId := correlationCounter s\<rparr>\<rparr>"
  have w: "deferred ?w = Some Unsettled" "pendingResponseMessage ?w = None" "rq_correlationId (inv_request ?w) = correlationCounter s"
    by (simp_all add: fresh_invocation_def newInvocation_def)
  note e = enter_ok [OF assms(1) w ids live]
  have "deferred (invs (enter i ?w s) i) \<noteq> None" by (simp add: enter_view)
  note r = handlesD(4) [OF handles_doInvoke e(1,2) this, of cfg L]
  have "resolves_backed_up cfg s (doInvoke cfg L i (enter i ?w s))"
    unfolding resolves_backed_up_def
  proof (intro allI impI)
    fix j r' assume j: "deferred (invs s j) = Some Unsettled" "deferred (invs (doInvoke cfg L i (enter i ?w s)) j) = Some (Resolved r')"
    have "deferred (invs (enter i ?w s) j) = Some (Resolved r')" using r j(2) unfolding resolves_nothing_def by blast
    then show "backed_up cfg (doInvoke cfg L i (enter i ?w s)) j r'"
      using j(1) by (simp add: enter_view split: if_splits)
  qed
  then show ?thesis by (simp add: invoke_enter)
qed

lemma resolves_backup_event: "ids_ok s \<Longrightarrow> resolves_backed_up cfg s (notifyBackupComplete i s)"
proof -
  assume ids: "ids_ok s"
  let ?u = "upd_inv i (\<lambda>v. v\<lparr>backupsAcksReceived := backupsAcksReceived v + 1\<rparr>) s"
  have u: "deferred (invs ?u j) = deferred (invs s j)" for j by (simp add: upd_inv_def)
  have "backed_up cfg ?u i r"
    if "pendingResponseMessage (invs ?u i) = Some r" "backupsAcksExpected (invs ?u i) = backupsAcksReceived (invs ?u i)" for r
    using ids_okD(8) [OF ids, of i r] that by (simp add: backed_up_def upd_inv_def)
  then have "quiet cfg ?u (notifyBackupComplete i s)"
    using quiet_finish [of "Resolved _" cfg ?u i] quiet_refl [of cfg ?u]
    unfolding notifyBackupComplete_def Let_def finish_folds by (auto split: option.split)
  then show ?thesis using u by (simp add: quiet_def resolves_backed_up_def)
qed

lemma resolves_response:
  assumes ids: "ids_ok s" and live: "live_ok {} s"
  shows "resolves_backed_up cfg s (snd (processResponse cfg L r s))"
proof -
  have e: "quiet cfg s (notifyError cfg L i f s)" if "map_of (pending s) (rs_correlationId r) = Some i" for i f
    by (rule quiet_handled [OF handles_notifyError [THEN handled_by] touches_notifyError ids live])
      (use ids_okD(3) [OF ids map_of_SomeD [OF that]] in simp)
  have p: "resolves_backed_up cfg s (upd_inv i (\<lambda>v. v\<lparr>pendingResponseReceivedMillis := now s,
      backupsAcksExpected := rs_backupAcks r, pendingResponseMessage := Some r\<rparr>) s)" for i
    by (rule nothing_backed_up) (simp add: resolves_nothing_def upd_inv_def)
  have "resolves_backed_up cfg s (notify_inv i r s)" for i
    using quiet_finish [of "Resolved r" cfg s i] p [of i]
    by (auto simp: notify_inv_def finish_folds backed_up_def quiet_def)
  then show ?thesis using e by (simp add: processResponse_def quiet_def resolves_self split: option.split)
qed

text \<open>A step that takes a job or a timer out of the state and handles its invocation.\<close>

lemma resolves_taken:
  assumes "handles i f" and "ids_ok u" and "live_ok {i} u" and "invs u = invs s" and "deferred (invs s i) \<noteq> None"
  shows "resolves_backed_up cfg s (f u)"
proof -
  have "resolves_nothing u (f u)" using handlesD(4) [OF assms(1-3)] assms(4,5) by simp
  then show ?thesis using assms(4) by (intro nothing_backed_up) (simp add: resolves_nothing_def)
qed

lemma step_backed_up:
  assumes "svc_step cfg L s t" and ids: "ids_ok s" and live: "live_ok {} s"
  shows "resolves_backed_up cfg s t"
  using assms(1)
proof (cases rule: svc_step.cases)
  case (invoke i rq tm c p u h ur)
  then show ?thesis using resolves_invoke [OF _ ids live] by simp
next
  case (write_done i c st)
  then show ?thesis by (intro nothing_backed_up same_outcomes) (simp_all add: inert_view)
next
  case (write_failed i c st err)
  then show ?thesis
    using resolves_taken [OF handles_send_rejected, of "s\<lparr>jobs := remove1 (Writing i c st) (jobs s)\<rparr>" i s]
      take_writing [of i c st s] live_mono [of "{}" _ "{i}"] live ids by simp
next
  case (send_failed i err st)
  then show ?thesis
    using resolves_taken [OF handles_send_rejected, of "s\<lparr>jobs := remove1 (Failing i err st) (jobs s)\<rparr>" i s]
      take_failing [of i err st s] live ids by simp
next
  case (timer i)
  then show ?thesis
    using resolves_taken [OF handles_doInvoke, of "s\<lparr>timers := remove1 i (timers s)\<rparr>" i s] take_timer [of i s] live ids
    by simp
next
  case (response r)
  then show ?thesis using resolves_response [OF ids live] by simp
next
  case (backup_event cid)
  then show ?thesis
    using resolves_backup_event [OF ids] by (simp add: backupEventHandler_def resolves_self split: option.split)
next
  case clean
  have "quiet cfg s (fold (clean_one cfg L) (map snd (pending s)) s)"
    by (rule quiet_fold) (use quiet_clean_one sound_clean_one ids_okD(3) [OF ids] ids live in auto)
  then show ?thesis using clean by (simp add: cleanResourcesTask_def quiet_def)
next
  case shut
  have "quiet cfg (s\<lparr>isShutdown := True\<rparr>) (fold (\<lambda>i. notifyError cfg L i (HzFailure ClientNotActiveError))
      (map snd (pending s)) (s\<lparr>isShutdown := True\<rparr>))"
    by (rule quiet_fold) (use quiet_handled [OF handles_notifyError [THEN handled_by] touches_notifyError]
      sound_handled [OF handles_notifyError [THEN handled_by]] ids_okD(3) [OF ids] ids live in auto)
  then show ?thesis using shut by (simp add: shutdown_def quiet_def resolves_backed_up_def)
qed (simp_all add: removeEventHandler_def resolves_backed_up_def)

text \<open>
  C4. A caller is told that its request succeeded only when the backups are in place: whenever a step resolves a promise
  with a response, as many backup acknowledgements have arrived as the response asks for, or the client is
  configured to go on without them and they have been missing for longer than the backup timeout.
\<close>

theorem resolved_when_backed_up:
  assumes "svc_reach cfg L s" and "svc_step cfg L s t" and "deferred (invs s i) = Some Unsettled"
    and "deferred (invs t i) = Some (Resolved r)"
  shows "rs_backupAcks r \<le> backupsAcksReceived (invs t i) \<or>
    \<not> shouldFailOnIndeterminateState cfg \<and>
      pendingResponseReceivedMillis (invs t i) + operationBackupTimeoutMillis cfg < now t"
  using step_backed_up [OF assms(2)] reach_inv [OF assms(1)] assms(3,4)
  by (simp add: resolves_backed_up_def backed_up_def)

subsection \<open>Retries\<close>

lemma instance_of_leaf:
  "instance_of c IOError \<longleftrightarrow> c = IOError"
  "instance_of c TargetDisconnectedError \<longleftrightarrow> c = TargetDisconnectedError"
  "instance_of c TargetNotMemberError \<longleftrightarrow> c = TargetNotMemberError"
  "instance_of c HazelcastInstanceNotActiveError \<longleftrightarrow> c = HazelcastInstanceNotActiveError"
  by (cases c; simp add: instance_of_def ancestors_def parent_class_def intermediate_parents_def)+

definition retryable_classes :: "error_class list" where
  "retryable_classes = [RetryableHazelcastError, TargetNotMemberError, CallerNotMemberError, MemberLeftError,
     PartitionMigratingError, RetryableIOError, CannotReplicateError]"

lemma instance_of_retryable: "instance_of c RetryableHazelcastError \<longleftrightarrow> c \<in> set retryable_classes"
  by (cases c; simp add: instance_of_def ancestors_def parent_class_def intermediate_parents_def retryable_classes_def)


definition sample_inv_config :: inv_config where
  "sample_inv_config = \<lparr>smartRouting = True, invocationTimeoutMillis = 120000, operationBackupTimeoutMillis = 5000,
     shouldFailOnIndeterminateState = False, backupAckToClientEnabled = True, redoOperation = True\<rparr>"

definition sample_request :: request where
  "sample_request = \<lparr>rq_correlationId = 0, rq_partitionId = -1, rq_retryable = False, rq_backupAware = False\<rparr>"


text \<open>
  The clean-up task and the retry timers. Each run of the task counts an invocation that waits for its retry as failed
  once more.
\<close>

definition waits_for_retry :: "inv_config \<Rightarrow> nat \<Rightarrow> inv_service \<Rightarrow> bool" where
  "waits_for_retry cfg i s \<longleftrightarrow> map snd (pending s) = [i] \<and>
     (\<exists>c. sendConnection (invs s i) = Some c \<and> \<not> isAlive (conns s c)) \<and> isRunning s \<and>
     shouldRetry cfg (invs s i) (HzFailure TargetDisconnectedError) \<and> now s \<le> deadline (invs s i) \<and>
     MAX_FAST_INVOCATION_COUNT \<le> invokeCount (invs s i)"

lemma clean_waiting: "waits_for_retry cfg i s \<Longrightarrow> cleanResourcesTask cfg L s = s\<lparr>timers := timers s @ [i]\<rparr>"
  by (auto simp: waits_for_retry_def cleanResourcesTask_def clean_one_def notifyError_def on_error_def
      rejectIfNotRetryable_def)

lemma clean_waiting_times:
  "waits_for_retry cfg i s \<Longrightarrow> (cleanResourcesTask cfg L ^^ n) s = s\<lparr>timers := timers s @ replicate n i\<rparr>"
proof (induction n)
  case (Suc n)
  have "waits_for_retry cfg i (s\<lparr>timers := timers s @ replicate n i\<rparr>)"
    using Suc.prems by (simp add: waits_for_retry_def)
  from clean_waiting [OF this, of L] show ?case
    using Suc by (simp add: replicate_append_same)
qed simp

definition fire :: "inv_config \<Rightarrow> long_ops \<Rightarrow> nat \<Rightarrow> inv_service \<Rightarrow> inv_service" where
  "fire cfg L i s = doInvoke cfg L i (s\<lparr>timers := remove1 i (timers s)\<rparr>)"

definition can_send :: "nat \<Rightarrow> inv_service \<Rightarrow> bool" where
  "can_send i s \<longleftrightarrow> checkIfInvocationAllowed (registry s) = None \<and> \<not> isShutdown s \<and> inv_connection (invs s i) = None \<and>
     \<not> hasPartitionId (invs s i) \<and> inv_uuid (invs s i) = None"

lemma random_keeps_allowed:
  "checkIfInvocationAllowed (snd (getRandomConnection L d cs b r)) = checkIfInvocationAllowed r"
  by (simp add: getRandomConnection_def checkIfInvocationAllowed_def case_prod_beta Let_def)

lemma send_again:
  "\<not> isShutdown s \<Longrightarrow> written (send cfg i c st s) = written s @ [(i, c)] \<and> registry (send cfg i c st s) = registry s \<and>
     isShutdown (send cfg i c st s) = isShutdown s \<and> inv_connection (invs (send cfg i c st s) i) = inv_connection (invs s i) \<and>
     inv_partitionId (invs (send cfg i c st s) i) = inv_partitionId (invs s i) \<and> inv_uuid (invs (send cfg i c st s) i) = inv_uuid (invs s i)"
  by (simp add: send_def registerInvocation_def upd_inv_def Let_def)

lemma fire_sends:
  assumes "can_send i s"
  shows "can_send i (fire cfg L i s) \<and> (\<exists>c. written (fire cfg L i s) = written s @ [(i, c)])"
proof -
  let ?s = "count_invoke i (s\<lparr>timers := remove1 i (timers s)\<rparr>)"
  let ?r = "getRandomConnection L (draw ?s) (cluster ?s) False (registry ?s)"
  have s: "registry ?s = registry s" "\<not> isShutdown ?s" "written ?s = written s" "inv_connection (invs ?s i) = None"
    "inv_partitionId (invs ?s i) = inv_partitionId (invs s i)" "inv_uuid (invs ?s i) = None"
    using assms by (simp_all add: can_send_def count_invoke_def upd_inv_def)
  obtain c where c: "fst ?r = Some c"
    using allowed_has_connection [of "registry ?s" L "draw ?s" "cluster ?s"] assms s(1) by (auto simp: can_send_def)
  have "\<exists>st. fire cfg L i s = send cfg i c st (?s\<lparr>registry := snd ?r\<rparr>)"
    using assms s c unfolding fire_def doInvoke.simps [of cfg L i "s\<lparr>timers := remove1 i (timers s)\<rparr>"]
    by (auto simp: can_send_def invokeSmart_send_def invokeNonSmart_send_def invokeOnRandomConnection_def hasPartitionId_def
        case_prod_beta Let_def)
  then obtain st where st: "fire cfg L i s = send cfg i c st (?s\<lparr>registry := snd ?r\<rparr>)" by blast
  show ?thesis
    using send_again [of "?s\<lparr>registry := snd ?r\<rparr>" cfg i c st] s assms random_keeps_allowed [of L "draw ?s" "cluster ?s" False "registry ?s"]
    unfolding st by (simp add: can_send_def hasPartitionId_def)
qed

lemma fires_send: "can_send i s \<Longrightarrow> can_send i ((fire cfg L i ^^ n) s) \<and>
    length (written ((fire cfg L i ^^ n) s)) = length (written s) + n"
proof (induction n)
  case (Suc n)
  then show ?case using fire_sends [of i "(fire cfg L i ^^ n) s" cfg L] by auto
qed simp

text \<open>
  C31. Retries pile up. An invocation whose connection is lost and that waits for a retry stays in the pending map with the
  dead connection, so every run of the clean-up task schedules another retry: \<open>n\<close> runs schedule \<open>n\<close> retries. Each of them
  writes the request again once a connection is available, so that the same request is sent \<open>n\<close> times.
\<close>

theorem retries_pile_up:
  assumes "waits_for_retry cfg i s" and "\<not> isShutdown s" and "inv_connection (invs s i) = None"
    and "inv_partitionId (invs s i) = None" and "inv_uuid (invs s i) = None" and "checkIfInvocationAllowed r = None"
  shows "timers ((cleanResourcesTask cfg L ^^ n) s) = timers s @ replicate n i \<and>
    length (written ((fire cfg L i ^^ n) (((cleanResourcesTask cfg L ^^ n) s)\<lparr>registry := r\<rparr>))) = length (written s) + n"
proof -
  let ?s = "s\<lparr>timers := timers s @ replicate n i, registry := r\<rparr>"
  have "can_send i ?s" using assms(2-6) by (simp add: can_send_def hasPartitionId_def)
  from fires_send [OF this, of n cfg L] show ?thesis by (simp add: clean_waiting_times [OF assms(1)])
qed

definition sample_conn :: "bool \<Rightarrow> conn" where
  "sample_conn closed = (newConnection 0 0)\<lparr>closedTime := (if closed then 1 else 0)\<rparr>"

definition sample_registry :: connection_registry where
  "sample_registry = (newConnectionRegistry False ReconnectON True (newRoundRobinLB 0))
     \<lparr>activeConnections := [([97], 1)], connectionState := INITIALIZED_ON_CLUSTER\<rparr>"

definition sample_service :: "(nat \<Rightarrow> invocation) \<Rightarrow> (int \<times> nat) list \<Rightarrow> inv_service" where
  "sample_service is ps = \<lparr>invs = is, pending = ps, eventHandlers = [], correlationCounter = 1, isShutdown = False, timers = [],
     jobs = [], written = [], conns = (\<lambda>c. sample_conn (c = 0)), registry = newConnectionRegistry False ReconnectON True (newRoundRobinLB 0),
     cluster = newClusterService, partition_svc = newPartitionService, now = 1000, isRunning = True, draw = 0\<rparr>"

definition waiting_invocation :: invocation where
  "waiting_invocation = (newInvocation sample_inv_config sample_request None 0)\<lparr>deferred := Some Unsettled,
     sendConnection := Some 0, invokeCount := 5\<rparr>"

theorem retries_pile_up_witness:
  "length (written ((fire sample_inv_config word_longs 7 ^^ 10)
     (((cleanResourcesTask sample_inv_config word_longs ^^ 10) (sample_service (\<lambda>_. waiting_invocation) [(0, 7)]))
        \<lparr>registry := sample_registry\<rparr>))) = 10"
proof -
  let ?s = "sample_service (\<lambda>_. waiting_invocation) [(0, 7)]"
  have w: "waits_for_retry sample_inv_config 7 ?s"
    by (simp add: waits_for_retry_def sample_service_def waiting_invocation_def sample_conn_def isAlive_def newInvocation_def
        sample_inv_config_def shouldRetry_def failure_instanceof_def instance_of_leaf instance_of_retryable
        retryable_classes_def MAX_FAST_INVOCATION_COUNT_def)
  have r: "checkIfInvocationAllowed sample_registry = None"
    by (simp add: checkIfInvocationAllowed_def sample_registry_def)
  have f: "\<not> isShutdown ?s" "inv_connection (invs ?s 7) = None" "inv_partitionId (invs ?s 7) = None" "inv_uuid (invs ?s 7) = None"
    "written ?s = []"
    by (simp_all add: sample_service_def waiting_invocation_def newInvocation_def)
  show ?thesis using retries_pile_up [OF w f(1-4) r, of 10 word_longs] f(5) by simp
qed

subsection \<open>Shutting down\<close>

text \<open>Once the client has shut down, what is left of the event loop: jobs and retry timers.\<close>

inductive drain_step :: "inv_config \<Rightarrow> long_ops \<Rightarrow> inv_service \<Rightarrow> inv_service \<Rightarrow> bool" for cfg L where
  write_done: "Writing i c st \<in> set (jobs s) \<Longrightarrow>
    drain_step cfg L s (upd_inv i (\<lambda>v. v\<lparr>sendConnection := Some c\<rparr>) (s\<lparr>jobs := remove1 (Writing i c st) (jobs s)\<rparr>))"
| write_failed: "Writing i c st \<in> set (jobs s) \<Longrightarrow>
    drain_step cfg L s (send_rejected cfg L i err st (s\<lparr>jobs := remove1 (Writing i c st) (jobs s)\<rparr>))"
| send_failed: "Failing i err st \<in> set (jobs s) \<Longrightarrow>
    drain_step cfg L s (send_rejected cfg L i err st (s\<lparr>jobs := remove1 (Failing i err st) (jobs s)\<rparr>))"
| timer: "i \<in> set (timers s) \<Longrightarrow> drain_step cfg L s (doInvoke cfg L i (s\<lparr>timers := remove1 i (timers s)\<rparr>))"

lemma drain_is_step: "drain_step cfg L s t \<Longrightarrow> svc_step cfg L s t"
  by (cases rule: drain_step.cases) (auto intro: svc_step.intros)

fun stage_weight :: "stage \<Rightarrow> nat" where
  "stage_weight FirstTry = 2"
| "stage_weight LastTry = 1"

fun job_weight :: "job \<Rightarrow> nat" where
  "job_weight (Writing i c st) = stage_weight st"
| "job_weight (Failing i f st) = stage_weight st"

definition work_left :: "inv_service \<Rightarrow> nat" where
  "work_left s = 3 * length (timers s) + sum_list (map job_weight (jobs s))"

definition closed :: "inv_service \<Rightarrow> bool" where
  "closed s \<longleftrightarrow> isShutdown s \<and> \<not> isRunning s \<and> pending s = []"

text \<open>An operation that adds at most \<open>n\<close> units of work to a client that has shut down, and writes nothing.\<close>

definition adds_work :: "nat \<Rightarrow> inv_service \<Rightarrow> inv_service \<Rightarrow> bool" where
  "adds_work n s t \<longleftrightarrow> closed t \<and> written t = written s \<and> work_left t \<le> work_left s + n"

lemma adds_failing: "closed s \<Longrightarrow> stage_weight st \<le> n \<Longrightarrow> adds_work n s (s\<lparr>jobs := jobs s @ [Failing i f st], registry := r\<rparr>)"
  by (simp add: adds_work_def closed_def work_left_def)

lemma adds_failing': "closed s \<Longrightarrow> stage_weight st \<le> n \<Longrightarrow> adds_work n s (s\<lparr>jobs := jobs s @ [Failing i f st]\<rparr>)"
  by (simp add: adds_work_def closed_def work_left_def)

lemma closed_send: "closed s \<Longrightarrow> stage_weight st \<le> n \<Longrightarrow> adds_work n s (send cfg i c st s)"
  by (simp add: send_def closed_def adds_failing')

lemma closed_random:
  assumes "closed s" and "stage_weight st \<le> n"
  shows "adds_work n s (invokeOnRandomConnection cfg L i st s)"
proof -
  have "adds_work n s (send cfg i c st (s\<lparr>registry := r\<rparr>))" "adds_work n s (no_connection i st (s\<lparr>registry := r\<rparr>))" for c r
    using assms by (simp_all add: send_def no_connection_def adds_work_def closed_def work_left_def)
  then show ?thesis by (simp add: invokeOnRandomConnection_def case_prod_beta Let_def split: option.split)
qed

lemma closed_uuid: "closed s \<Longrightarrow> stage_weight st \<le> n \<Longrightarrow> adds_work n s (invokeOnUuid cfg L i u st s)"
  by (simp add: invokeOnUuid_def no_connection_def closed_send adds_failing' split: option.split)

lemma closed_partition: "closed s \<Longrightarrow> stage_weight st \<le> n \<Longrightarrow> adds_work n s (invokeOnPartitionOwner cfg L i p st s)"
  by (simp add: invokeOnPartitionOwner_def no_connection_def closed_uuid adds_failing' split: option.split)

lemma closed_sends: "closed s \<Longrightarrow> adds_work 2 s (invokeSmart_send cfg L i s) \<and> adds_work 2 s (invokeNonSmart_send cfg L i s)"
  by (simp add: invokeSmart_send_def invokeNonSmart_send_def Let_def closed_send closed_random closed_uuid closed_partition
      split: option.split)

lemma closed_on_error: "closed s \<Longrightarrow> adds_work 0 s (on_error cfg i err retry s)"
  by (simp add: on_error_def rejectIfNotRetryable_def closed_def adds_work_def work_left_def finish_folds finish_view)

lemma closed_doInvoke:
  assumes "closed s"
  shows "adds_work 2 s (doInvoke cfg L i s)"
proof -
  let ?s = "count_invoke i s"
  have c: "closed ?s" "written ?s = written s" "work_left ?s = work_left s"
    using assms by (simp_all add: closed_def count_invoke_def work_left_def)
  have "adds_work 2 ?s (on_error cfg i f retry ?s)" for f retry
    using closed_on_error [OF c(1), of cfg i f retry] by (simp add: adds_work_def)
  then have "adds_work 2 ?s (doInvoke cfg L i s)"
    unfolding doInvoke.simps [of cfg L i s] using closed_sends [OF c(1)] by (simp split: option.split)
  then show ?thesis using c by (simp add: adds_work_def)
qed

lemma closed_send_rejected: "closed s \<Longrightarrow> adds_work (stage_weight st - 1) s (send_rejected cfg L i err st s)"
  by (cases st) (simp_all add: send_rejected_def closed_random notifyError_def closed_on_error)

lemma sum_remove1: "x \<in> set xs \<Longrightarrow> sum_list (map f (remove1 x xs)) + f x = sum_list (map f xs)" for f :: "'a \<Rightarrow> nat"
  by (induction xs) auto

lemma drain_decreases:
  assumes "drain_step cfg L s t" and "closed s"
  shows "closed t \<and> written t = written s \<and> work_left t < work_left s"
  using assms(1)
proof (cases rule: drain_step.cases)
  case (write_done i c st)
  then show ?thesis
    using assms(2) sum_remove1 [of "Writing i c st" "jobs s" job_weight]
    by (cases st) (auto simp: closed_def work_left_def)
next
  case (write_failed i c st err)
  let ?s = "s\<lparr>jobs := remove1 (Writing i c st) (jobs s)\<rparr>"
  have "adds_work (stage_weight st - 1) ?s t"
    using closed_send_rejected [of ?s st cfg L i err] assms(2) write_failed(1) by (simp add: closed_def)
  then show ?thesis
    using sum_remove1 [OF write_failed(2), of job_weight] by (cases st) (auto simp: adds_work_def work_left_def)
next
  case (send_failed i err st)
  let ?s = "s\<lparr>jobs := remove1 (Failing i err st) (jobs s)\<rparr>"
  have "adds_work (stage_weight st - 1) ?s t"
    using closed_send_rejected [of ?s st cfg L i err] assms(2) send_failed(1) by (simp add: closed_def)
  then show ?thesis
    using sum_remove1 [OF send_failed(2), of job_weight] by (cases st) (auto simp: adds_work_def work_left_def)
next
  case (timer i)
  let ?s = "s\<lparr>timers := remove1 i (timers s)\<rparr>"
  have "adds_work 2 ?s t" using closed_doInvoke [of ?s cfg L i] assms(2) timer(1) by (simp add: closed_def)
  moreover have "length (timers s) = Suc (length (timers ?s))"
    using timer(2) length_pos_if_in_set [OF timer(2)] by (simp add: length_remove1)
  ultimately show ?thesis by (auto simp: adds_work_def work_left_def)
qed

text \<open>A step is possible as long as there is a job or a timer.\<close>

lemma drain_job:
  assumes "j \<in> set (jobs s)"
  shows "\<exists>t. drain_step cfg L s t"
proof (cases j)
  case (Writing i c st)
  then show ?thesis using drain_step.write_done [of i c st s cfg L] assms by blast
next
  case (Failing i f st)
  then show ?thesis using drain_step.send_failed [of i f st s cfg L] assms by blast
qed

lemma drain_progress: "jobs s \<noteq> [] \<or> timers s \<noteq> [] \<Longrightarrow> \<exists>t. drain_step cfg L s t"
proof (cases "jobs s")
  case (Cons j js)
  then have "j \<in> set (jobs s)" by simp
  then show ?thesis by (rule drain_job)
next
  case Nil
  assume "jobs s \<noteq> [] \<or> timers s \<noteq> []"
  then obtain i ts where "timers s = i # ts" using Nil by (cases "timers s") auto
  then have "i \<in> set (timers s)" by simp
  from drain_step.timer [OF this] show ?thesis by blast
qed

lemma shutdown_closed:
  assumes "ids_ok s" and "live_ok {} s" and "\<not> isRunning s" and "\<not> isShutdown s"
  shows "closed (shutdown cfg L s) \<and> written (shutdown cfg L s) = written s"
proof -
  let ?reject = "\<lambda>i. notifyError cfg L i (HzFailure ClientNotActiveError)"
  have "isShutdown (fold ?reject is t) \<and> \<not> isRunning (fold ?reject is t) \<and> written (fold ?reject is t) = written t \<and>
      set (pending (fold ?reject is t)) \<subseteq> {e \<in> set (pending t). fst e \<notin> (correlation_of t) ` set is}"
    if "isShutdown t" "\<not> isRunning t" for "is" t
    using that
  proof (induction "is" arbitrary: t)
    case (Cons i "is")
    have n: "?reject i t = finish i (Rejected (HzFailure ClientNotActiveError)) t"
      using Cons.prems by (simp add: notifyError_def on_error_def rejectIfNotRetryable_def finish_folds)
    have "isShutdown (?reject i t)" "\<not> isRunning (?reject i t)" using Cons.prems by (simp_all add: n finish_view)
    from Cons.IH [OF this] show ?case by (auto simp: n finish_view set_delete)
  qed auto
  from this [of "s\<lparr>isShutdown := True\<rparr>" "map snd (pending s)"]
  have f: "isShutdown (shutdown cfg L s)" "\<not> isRunning (shutdown cfg L s)" "written (shutdown cfg L s) = written s"
    "set (pending (shutdown cfg L s)) \<subseteq> {e \<in> set (pending s). fst e \<notin> correlation_of s ` snd ` set (pending s)}"
    using assms(3,4) by (simp_all add: shutdown_def)
  have "fst e = correlation_of s (snd e)" if "e \<in> set (pending s)" for e
    using ids_okD(2) [OF assms(1), of "fst e" "snd e"] that by simp
  then have none: "{e \<in> set (pending s). fst e \<notin> correlation_of s ` snd ` set (pending s)} = {}" by auto
  have "set (pending (shutdown cfg L s)) = {}" using f(4) unfolding none by simp
  then show ?thesis using f(1-3) by (simp add: closed_def)
qed

inductive drains :: "inv_config \<Rightarrow> long_ops \<Rightarrow> nat \<Rightarrow> inv_service \<Rightarrow> inv_service \<Rightarrow> bool" for cfg L where
  drained: "drains cfg L 0 s s"
| drain_more: "drain_step cfg L s t \<Longrightarrow> drains cfg L n t u \<Longrightarrow> drains cfg L (Suc n) s u"

lemma drains_facts:
  "drains cfg L n s t \<Longrightarrow> closed s \<Longrightarrow> ids_ok s \<Longrightarrow> live_ok {} s \<Longrightarrow>
     closed t \<and> written t = written s \<and> n + work_left t \<le> work_left s \<and> live_ok {} t"
proof (induction rule: drains.induct)
  case (drain_more s t n u)
  note d = drain_decreases [OF drain_more(1,4)]
  have "ids_ok t" "live_ok {} t" using step_sound [OF drain_is_step [OF drain_more(1)] drain_more(5,6)] soundD drain_more(5,6) by blast+
  then show ?case using drain_more.IH d by auto
qed simp

text \<open>
  C8. Shutting down settles every promise. Let the client stop running and shut the service down in any reachable state.
  From then on nothing is written to a connection, and what is left of the event loop, run in any order, ends after at most
  \<open>work_left\<close> steps (three for every retry that was scheduled, at most two for every write under way). When it
  has ended, no promise of any invocation is unsettled.
\<close>

theorem shutdown_settles_everything:
  assumes "svc_reach cfg L s" and "\<not> isRunning s" and "\<not> isShutdown s" and "drains cfg L n (shutdown cfg L s) t"
  shows "written t = written s \<and> n \<le> work_left (shutdown cfg L s) \<and>
    ((\<exists>u. drain_step cfg L t u) \<or> (\<forall>i. deferred (invs t i) \<noteq> Some Unsettled))"
proof -
  have inv: "ids_ok s" "live_ok {} s" using reach_inv [OF assms(1)] by simp_all
  have c: "closed (shutdown cfg L s)" "written (shutdown cfg L s) = written s"
    using shutdown_closed [OF inv assms(2,3)] by simp_all
  have i: "ids_ok (shutdown cfg L s)" "live_ok {} (shutdown cfg L s)"
    using soundD(1,2) [OF step_sound [OF svc_step.shut inv] inv] by simp_all
  note f = drains_facts [OF assms(4) c(1) i]
  have "deferred (invs t j) \<noteq> Some Unsettled" if "jobs t = []" "timers t = []" for j
    using live_okD(1) [of "{}" t j] f that by (auto simp: closed_def)
  then show ?thesis using f c(2) drain_progress [of t cfg L] by fastforce
qed

subsection \<open>A run of the service\<close>

text \<open>A request on a connection, its response, and a shutdown.\<close>

definition run_start :: inv_service where
  "run_start = sample_service (\<lambda>_. newInvocation sample_inv_config sample_request None 0) []"

definition run_invoked :: inv_service where
  "run_invoked = invoke sample_inv_config word_longs 0 (upd_inv 0 (\<lambda>_. fresh_invocation sample_inv_config sample_request None
     (now run_start) (Some 1) None None False True) run_start)"

definition sample_response :: response where
  "sample_response = \<lparr>rs_correlationId = 1, rs_eventFlag = False, rs_backupEventFlag = False, rs_messageType = 5,
     rs_backupAcks = 0, rs_errors = [], rs_frames = []\<rparr>"

definition run_answered :: inv_service where
  "run_answered = snd (processResponse sample_inv_config word_longs sample_response run_invoked)"

definition run_stopped :: inv_service where
  "run_stopped = run_invoked\<lparr>now := 2000, isRunning := False, conns := conns run_invoked, registry := registry run_invoked,
     cluster := cluster run_invoked, partition_svc := partition_svc run_invoked, draw := 0\<rparr>"

lemma run_invoked_reach: "svc_reach sample_inv_config word_longs run_invoked"
proof -
  have "svc_reach sample_inv_config word_longs run_start"
    by (rule svc_reach.start) (simp add: no_invocations_def run_start_def sample_service_def newInvocation_def)
  moreover have "deferred (invs run_start 0) = None"
    by (simp add: run_start_def sample_service_def newInvocation_def)
  from svc_step.invoke [OF this] have "svc_step sample_inv_config word_longs run_start run_invoked"
    by (simp add: run_invoked_def)
  ultimately show ?thesis by (rule svc_reach.step)
qed

lemma run_invoked_facts:
  "deferred (invs run_invoked 0) = Some Unsettled" "pending run_invoked = [(1, 0)]" "jobs run_invoked = [Writing 0 1 LastTry]"
  "correlation_of run_invoked 0 = 1" "backupsAcksReceived (invs run_invoked 0) = 0" "\<not> isShutdown run_invoked"
  "timers run_invoked = []" "now run_invoked = 1000"
  by (simp_all add: run_invoked_def run_start_def invoke_def doInvoke.simps fresh_invocation_def newInvocation_def enter_def
      count_invoke_def upd_inv_def sample_service_def sample_inv_config_def invokeSmart_send_def send_def registerInvocation_def Let_def
      sample_request_def)

lemma run_answered_eq: "run_answered = finish 0 (Resolved sample_response) run_invoked"
  by (simp add: run_answered_def processResponse_def run_invoked_facts sample_response_def EXCEPTION_MESSAGE_TYPE_def
      notify_inv_def finish_folds)

lemma run_answered_step: "svc_step sample_inv_config word_longs run_invoked run_answered"
  unfolding run_answered_def by (rule svc_step.response)

lemma run_answered_facts: "deferred (invs run_answered 0) = Some (Resolved sample_response)" "pending run_answered = []"
  by (simp_all add: run_answered_eq finish_view run_invoked_facts)

theorem responses_reach_their_caller_witness:
  "deferred (invs run_answered 0) = Some (Resolved sample_response) \<and> rs_correlationId sample_response = correlation_of run_answered 0"
  using responses_reach_their_caller [OF svc_reach.step [OF run_invoked_reach run_answered_step], of 0] run_answered_facts by simp

theorem outcomes_are_final_witness:
  "deferred (invs (removeEventHandler 3 run_answered) 0) = Some (Resolved sample_response)"
proof -
  have "(svc_step sample_inv_config word_longs)\<^sup>*\<^sup>* run_answered (removeEventHandler 3 run_answered)"
    by (rule r_into_rtranclp) (rule svc_step.remove_handler)
  from outcomes_are_final [OF svc_reach.step [OF run_invoked_reach run_answered_step] this run_answered_facts(1)]
  show ?thesis by simp
qed

theorem resolved_when_backed_up_witness:
  "rs_backupAcks sample_response \<le> backupsAcksReceived (invs run_answered 0) \<or>
     pendingResponseReceivedMillis (invs run_answered 0) + 5000 < now run_answered"
  using resolved_when_backed_up [OF run_invoked_reach run_answered_step run_invoked_facts(1) run_answered_facts(1)]
  by (simp add: sample_inv_config_def)

lemma run_stopped_reach: "svc_reach sample_inv_config word_longs run_stopped"
proof (rule svc_reach.step [OF run_invoked_reach])
  show "svc_step sample_inv_config word_longs run_invoked run_stopped"
    unfolding run_stopped_def by (rule svc_step.world) (simp_all add: run_invoked_facts)
qed

theorem shutdown_settles_everything_witness:
  "\<exists>t. drains sample_inv_config word_longs 1 (shutdown sample_inv_config word_longs run_stopped) t \<and>
     written t = written run_stopped \<and> (\<forall>i. deferred (invs t i) \<noteq> Some Unsettled)"
proof -
  let ?s = "shutdown sample_inv_config word_longs run_stopped"
  let ?t = "upd_inv 0 (\<lambda>v. v\<lparr>sendConnection := Some 1\<rparr>) (?s\<lparr>jobs := remove1 (Writing 0 1 LastTry) (jobs ?s)\<rparr>)"
  have stopped: "\<not> isRunning run_stopped" "\<not> isShutdown run_stopped" "pending run_stopped = [(1, 0)]"
    "jobs run_stopped = [Writing 0 1 LastTry]" "timers run_stopped = []"
    by (simp_all add: run_stopped_def run_invoked_facts)
  have s: "jobs ?s = [Writing 0 1 LastTry]" "timers ?s = []"
    using stopped by (simp_all add: shutdown_def notifyError_def on_error_def rejectIfNotRetryable_def deregisterInvocation_def settle_def)
  then have "drain_step sample_inv_config word_longs ?s ?t" by (intro drain_step.write_done) simp
  then have d: "drains sample_inv_config word_longs 1 ?s ?t" using drain_more [OF _ drained] by simp
  have "\<not> drain_step sample_inv_config word_longs ?t u" for u
    using s by (auto elim: drain_step.cases)
  then show ?thesis
    using shutdown_settles_everything [OF run_stopped_reach stopped(1,2) d] d by blast
qed

end
