(* ===== verification/Js_Values.thy ===== *)
theory Js_Values
  imports ObjectData FixSizedTypesCodec "HOL-Library.Log_Nat"
begin

section \<open>The values an application stores\<close>

text \<open>
  Numbers of JavaScript as IEEE-754 doubles, the values an application hands to the serialization service, and
  \<open>getType\<close> (src/src/util/Util.ts). An application object that none of the constructors describes is a \<open>JObject\<close>: its
  \<open>partitionKey\<close> property (\<open>JUndefined\<close> if it has none) and an element of the type \<open>'o\<close>, whose methods are
  parameters of the service.
\<close>

subsection \<open>Integers as doubles\<close>

text \<open>
  The integral part of a double, rounded towards zero, and whether the double is an integer; \<open>None\<close> for infinities and
  for values that are not a number.
\<close>

definition double_exponent :: "64 word \<Rightarrow> int" where
  "double_exponent d = uint d div 2 ^ 52 mod 2 ^ 11"

definition double_fraction :: "64 word \<Rightarrow> int" where
  "double_fraction d = uint d mod 2 ^ 52"

definition double_trunc :: "64 word \<Rightarrow> (int \<times> bool) option" where
  "double_trunc d =
     (let e = double_exponent d; m = double_fraction d;
          significand = (if e = 0 then m else 2 ^ 52 + m);
          shift = (if e = 0 then -1074 else e - 1075);
          magnitude = (if shift \<ge> 0 then significand * 2 ^ nat shift else significand div 2 ^ nat (- shift));
          exact = (shift \<ge> 0 \<or> significand mod 2 ^ nat (- shift) = 0)
      in if e = 2047 then None else Some (if uint d \<ge> 2 ^ 63 then - magnitude else magnitude, exact))"

definition is_nan :: "64 word \<Rightarrow> bool" where
  "is_nan d \<longleftrightarrow> double_exponent d = 2047 \<and> double_fraction d \<noteq> 0"

text \<open>The double of an integer below \<open>2 ^ 53\<close>.\<close>

definition int_to_double :: "int \<Rightarrow> 64 word" where
  "int_to_double n =
     (if n = 0 then 0
      else let k = floorlog 2 (nat \<bar>n\<bar>) - 1 in
        word_of_int ((if n < 0 then 2 ^ 63 else 0) + (int k + 1023) * 2 ^ 52 + (\<bar>n\<bar> * 2 ^ (52 - k) - 2 ^ 52)))"

lemma double_fields:
  assumes "0 \<le> m" "m < 2 ^ 52" "0 \<le> e" "e < 2 ^ 11"
  shows "uint (word_of_int ((if neg then 2 ^ 63 else 0) + e * 2 ^ 52 + m) :: 64 word) =
      (if neg then 2 ^ 63 else 0) + e * 2 ^ 52 + m"
    and "double_exponent (word_of_int ((if neg then 2 ^ 63 else 0) + e * 2 ^ 52 + m)) = e"
    and "double_fraction (word_of_int ((if neg then 2 ^ 63 else 0) + e * 2 ^ 52 + m)) = m"
proof -
  let ?s = "if neg then 1 else 0 :: int"
  let ?u = "(?s * 2 ^ 11 + e) * 2 ^ 52 + m"
  have u: "(if neg then 2 ^ 63 else 0) + e * 2 ^ 52 + m = ?u" by simp
  have "?s * 2 ^ 11 + e < 2 ^ 12" using assms(4) by simp
  then have "(?s * 2 ^ 11 + e) * 2 ^ 52 \<le> (2 ^ 12 - 1) * 2 ^ 52" by (intro mult_right_mono) simp_all
  then have "0 \<le> ?u" "?u < 2 ^ 64" using assms by simp_all
  then have w: "uint (word_of_int ?u :: 64 word) = ?u"
    unfolding uint_word_of_int by (intro mod_pos_pos_trivial) simp_all
  then show "uint (word_of_int ((if neg then 2 ^ 63 else 0) + e * 2 ^ 52 + m) :: 64 word) =
      (if neg then 2 ^ 63 else 0) + e * 2 ^ 52 + m" by (simp only: u)
  have "(x * 2 ^ 52 + m) div 2 ^ 52 = x" "(x * 2 ^ 52 + m) mod 2 ^ 52 = m" for x :: int
    using assms(1,2) by simp_all
  from this [of "?s * 2 ^ 11 + e"] have "?u div 2 ^ 52 = ?s * 2 ^ 11 + e" "?u mod 2 ^ 52 = m" by blast+
  then show "double_exponent (word_of_int ((if neg then 2 ^ 63 else 0) + e * 2 ^ 52 + m)) = e"
    "double_fraction (word_of_int ((if neg then 2 ^ 63 else 0) + e * 2 ^ 52 + m)) = m"
    using assms(3,4) unfolding u double_exponent_def double_fraction_def w by simp_all
qed

lemma int_to_double_trunc:
  assumes "\<bar>n\<bar> < 2 ^ 53"
  shows "double_trunc (int_to_double n) = Some (n, True)"
proof (cases "n = 0")
  case True
  then show ?thesis by (simp add: int_to_double_def double_trunc_def double_exponent_def double_fraction_def)
next
  case False
  define a where "a = nat \<bar>n\<bar>"
  define k where "k = floorlog 2 a - 1"
  have a: "0 < a" "int a = \<bar>n\<bar>" using False by (simp_all add: a_def)
  then have fl: "0 < floorlog 2 a" by (simp add: floorlog_def)
  have lo: "2 ^ k \<le> a" and hi: "a < 2 ^ (k + 1)"
    using floorlog_bounds [of a 2] a(1) fl by (simp_all add: k_def)
  have "k \<le> 52"
  proof (rule ccontr)
    assume "\<not> k \<le> 52"
    then have "(2 :: nat) ^ 53 \<le> 2 ^ k" by (intro power_increasing) simp_all
    then have "int (2 ^ 53) \<le> int a" using lo by (meson order_trans of_nat_le_iff)
    then show False using assms a(2) by simp
  qed
  then obtain j where j: "52 = k + j" using le_Suc_ex by blast
  let ?M = "\<bar>n\<bar> * 2 ^ j"
  have pw: "(2 :: nat) ^ k * 2 ^ j = 2 ^ 52" by (simp only: j power_add)
  have "2 ^ k * 2 ^ j \<le> a * 2 ^ j" "a * 2 ^ j < (2 * 2 ^ k) * 2 ^ j" using lo hi by simp_all
  then have "(2 :: nat) ^ 52 \<le> a * 2 ^ j" "a * 2 ^ j < (2 :: nat) ^ 53"
    using pw by (simp_all only: mult.assoc) simp
  then have "int (2 ^ 52) \<le> int (a * 2 ^ j)" "int (a * 2 ^ j) < int (2 ^ 53)" by linarith+
  then have M: "2 ^ 52 \<le> ?M" "?M < 2 ^ 53" using a(2) by (simp_all only: of_nat_mult of_nat_power of_nat_numeral)
  have eq: "int_to_double n = word_of_int ((if n < 0 then 2 ^ 63 else 0) + (int k + 1023) * 2 ^ 52 + (?M - 2 ^ 52))"
  proof -
    have "52 - k = j" using j by simp
    then show ?thesis using False unfolding int_to_double_def Let_def a_def [symmetric] k_def [symmetric] by simp
  qed
  have m: "0 \<le> ?M - 2 ^ 52" "?M - 2 ^ 52 < 2 ^ 52" using M by simp_all
  have e: "0 \<le> int k + 1023" "int k + 1023 < 2 ^ 11" using \<open>k \<le> 52\<close> by simp_all
  note f = double_fields [OF m e, of "n < 0", folded eq]
  have sign: "uint (int_to_double n) \<ge> 2 ^ 63 \<longleftrightarrow> n < 0"
  proof -
    define X Y where "X = (int k + 1023) * 2 ^ 52" and "Y = ?M - 2 ^ 52"
    have "X \<le> 1075 * 2 ^ 52" "0 \<le> X" using \<open>k \<le> 52\<close> by (simp_all add: X_def)
    moreover have "uint (int_to_double n) = (if n < 0 then 2 ^ 63 else 0) + X + Y" "0 \<le> Y" "Y < 2 ^ 52"
      using f(1) m unfolding X_def Y_def by simp_all
    ultimately show ?thesis by (cases "n < 0") simp_all
  qed
  have sh: "int k + 1023 - 1075 = - int j" using j by linarith
  have "double_trunc (int_to_double n) = Some (if n < 0 then - (?M div 2 ^ j) else ?M div 2 ^ j, ?M mod 2 ^ j = 0)"
    using \<open>k \<le> 52\<close> sign unfolding double_trunc_def f(2,3) Let_def by (simp add: sh del: abs_mult_pos)
  moreover have "?M div 2 ^ j = \<bar>n\<bar>" "?M mod 2 ^ j = 0" by (rule nonzero_mult_div_cancel_right) simp_all
  ultimately show ?thesis by (simp only:) simp
qed

subsection \<open>Values\<close>

datatype iteration_type = KEY | VALUE | ENTRY

datatype (plugins only: size code) aggregator_class =
    CountAggregator | DoubleAverageAggregator | DoubleSumAggregator | FixedPointSumAggregator
  | FloatingPointSumAggregator | IntegerAverageAggregator | IntegerSumAggregator | LongAverageAggregator
  | LongSumAggregator | MaxAggregator | MinAggregator | NumberAverageAggregator

text \<open>
  \<open>identified\<close> are the objects of the client's own \<open>IdentifiedDataSerializable\<close> classes: the predicates
  (src/src/serialization/DefaultPredicates.ts), the aggregators (src/src/aggregation/Aggregator.ts), addresses, REST
  values and messages of reliable topics. A string field that is \<open>null\<close> or \<open>undefined\<close> is \<open>None\<close>. An anchor of a
  paging predicate is its page with the key and the value of the entry. A date that is not valid is \<open>JDate None\<close>.
\<close>

datatype (plugins only: size code) 'o js_value =
    JUndefined
  | JNull
  | JBool bool
  | JNumber "64 word"
  | JString js_string
  | JLong js_long
  | JUuid uuid
  | JDate "int option"
  | JBuffer buffer
  | JArray "'o js_value list"
  | JJson js_string
  | JData heap_data
  | JIdentified "'o identified"
  | JObject "'o js_value" 'o
and 'o identified =
    SqlPredicate "js_string option"
  | AndPredicate "'o js_value list"
  | BetweenPredicate "js_string option" "'o js_value" "'o js_value"
  | EqualPredicate "js_string option" "'o js_value"
  | GreaterLessPredicate "js_string option" "'o js_value" bool bool
  | LikePredicate "js_string option" "js_string option"
  | ILikePredicate "js_string option" "js_string option"
  | InPredicate "js_string option" "'o js_value list"
  | InstanceOfPredicate "js_string option"
  | NotEqualPredicate "js_string option" "'o js_value"
  | NotPredicate "'o js_value"
  | OrPredicate "'o js_value list"
  | RegexPredicate "js_string option" "js_string option"
  | FalsePredicate
  | TruePredicate
  | PagingPredicateImpl "'o js_value" "'o js_value" int int "iteration_type option" "'o anchor list"
  | Aggregator aggregator_class "js_string option"
  | RestValue "js_string option" "js_string option"
  | ReliableTopicMessage js_long "'o js_value" "heap_data option"
  | AddressImpl int int "js_string option"
and 'o anchor = Anchor int "'o js_value" "'o js_value"

text \<open>\<open>getType\<close>: \<open>assertNotNull\<close> only refuses \<open>null\<close>.\<close>

fun getType_of :: "'o js_value \<Rightarrow> string res" where
  "getType_of JNull = Inl AssertionError"
| "getType_of (JLong _) = Inr ''long''"
| "getType_of (JBuffer _) = Inr ''buffer''"
| "getType_of (JUuid _) = Inr ''uuid''"
| "getType_of JUndefined = Inr ''undefined''"
| "getType_of (JBool _) = Inr ''boolean''"
| "getType_of (JNumber _) = Inr ''number''"
| "getType_of (JString _) = Inr ''string''"
| "getType_of (JDate _) = Inr ''date''"
| "getType_of (JArray _) = Inr ''array''"
| "getType_of _ = Inr ''object''"

text \<open>Conversion to a boolean, as in \<open>val ? 1 : 0\<close>.\<close>

fun truthy :: "'o js_value \<Rightarrow> bool" where
  "truthy JUndefined = False"
| "truthy JNull = False"
| "truthy (JBool b) = b"
| "truthy (JNumber d) = (\<not> is_nan d \<and> d \<noteq> 0 \<and> d \<noteq> 2 ^ 63)"
| "truthy (JString s) = (s \<noteq> [])"
| "truthy _ = True"

end
