(* ===== verification/DefaultSerializers.thy ===== *)
theory DefaultSerializers
  imports Js_Values Js_Long
begin

section \<open>The default serializers (src/src/serialization/DefaultSerializers.ts)\<close>

text \<open>
  One constructor per serializer class, with its type id, its \<open>write\<close> and its \<open>read\<close>. The serializers of lists and of
  identified objects call back into the service: what they call is an argument (\<open>writeNested\<close>, \<open>readNested\<close>).

  What is not part of the client's sources is a field of the environment: the operations of the \<open>long\<close> package, the
  methods of application objects, the readers and writers of custom serializers and of user factories. The same record
  holds the conversions of the JavaScript engine that need more than integers (the conversion of arbitrary values to numbers,
  rounding to single precision, JSON) and the portable serializer, which has a wire format of its own.
\<close>

record 'o ser_env =
  memory :: "nat \<Rightarrow> byte"
  se_longs :: long_ops
  toNumberV :: "'o js_value \<Rightarrow> 64 word"
  fround :: "64 word \<Rightarrow> 32 word"
  widen :: "32 word \<Rightarrow> 64 word"
  stringify :: "'o js_value \<Rightarrow> js_string option res"
  parseJson :: "js_string option \<Rightarrow> 'o js_value res"
  obj_long :: "'o \<Rightarrow> js_long"
  obj_identified :: "'o \<Rightarrow> (int \<times> int \<times> (data_output \<Rightarrow> data_output res)) option"
  obj_portable :: "'o \<Rightarrow> bool"
  obj_customId :: "'o \<Rightarrow> int option"
  obj_partitionHash :: "'o \<Rightarrow> int res option"
  portable_write :: "'o js_value \<Rightarrow> data_output \<Rightarrow> data_output res"
  portable_read :: "data_input \<Rightarrow> ('o js_value \<times> data_input) res"
  user_factories :: "int \<Rightarrow> (int \<Rightarrow> data_input \<Rightarrow> ('o js_value \<times> data_input) res) option"

text \<open>A custom serializer: its id if it is an integer, whether it has both methods, and the methods.\<close>

record 'o custom_serializer =
  cs_id :: "int option"
  cs_methods :: bool
  cs_write :: "'o js_value \<Rightarrow> data_output \<Rightarrow> data_output res"
  cs_read :: "data_input \<Rightarrow> ('o js_value \<times> data_input) res"

datatype (plugins only: size) 'o serializer =
    StringSerializer | DoubleSerializer | BooleanSerializer | NullSerializer | ShortSerializer | IntegerSerializer
  | LongSerializer | FloatSerializer | DateSerializer | BooleanArraySerializer | ShortArraySerializer
  | IntegerArraySerializer | LongArraySerializer | DoubleArraySerializer | StringArraySerializer | ByteSerializer
  | ByteArraySerializer | CharSerializer | CharArraySerializer | FloatArraySerializer | JavaClassSerializer
  | LinkedListSerializer | ArrayListSerializer | IdentifiedDataSerializableSerializer | JsonSerializer
  | HazelcastJsonValueSerializer | UuidSerializer | PortableSerializer | CustomSerializer "'o custom_serializer"

fun serializer_id :: "'o serializer \<Rightarrow> int" where
  "serializer_id StringSerializer = -11"
| "serializer_id DoubleSerializer = -10"
| "serializer_id BooleanSerializer = -4"
| "serializer_id NullSerializer = NULL_TYPE_ID"
| "serializer_id ShortSerializer = -6"
| "serializer_id IntegerSerializer = -7"
| "serializer_id LongSerializer = -8"
| "serializer_id FloatSerializer = -9"
| "serializer_id DateSerializer = -25"
| "serializer_id BooleanArraySerializer = -13"
| "serializer_id ShortArraySerializer = -15"
| "serializer_id IntegerArraySerializer = -16"
| "serializer_id LongArraySerializer = -17"
| "serializer_id DoubleArraySerializer = -19"
| "serializer_id StringArraySerializer = -20"
| "serializer_id ByteSerializer = -3"
| "serializer_id ByteArraySerializer = -12"
| "serializer_id CharSerializer = -5"
| "serializer_id CharArraySerializer = -14"
| "serializer_id FloatArraySerializer = -18"
| "serializer_id JavaClassSerializer = -24"
| "serializer_id LinkedListSerializer = -30"
| "serializer_id ArrayListSerializer = -29"
| "serializer_id IdentifiedDataSerializableSerializer = -2"
| "serializer_id JsonSerializer = -130"
| "serializer_id HazelcastJsonValueSerializer = -130"
| "serializer_id UuidSerializer = -21"
| "serializer_id PortableSerializer = -1"
| "serializer_id (CustomSerializer c) = (case cs_id c of Some i \<Rightarrow> i | None \<Rightarrow> 0)"

subsection \<open>Conversions of the values written\<close>

definition number_of :: "'o ser_env \<Rightarrow> 'o js_value \<Rightarrow> 64 word" where
  "number_of env v = (case v of JNumber d \<Rightarrow> d | _ \<Rightarrow> toNumberV env v)"

text \<open>
  The integer writes of Node.js: a value out of range is a \<open>RangeError\<close> (a fraction counts as the next integer away from zero), a value
  that is not a number is written as 0, and a fraction is cut off.
\<close>

definition ranged_int :: "int \<Rightarrow> int \<Rightarrow> 64 word \<Rightarrow> int res" where
  "ranged_int lo hi d =
     (if is_nan d then Inr 0
      else case double_trunc d of
        None \<Rightarrow> Inl RangeError
      | Some (n, exact) \<Rightarrow>
          let m = (if exact then n else if uint d \<ge> 2 ^ 63 then n - 1 else n + 1)
          in if lo \<le> m \<and> m \<le> hi then Inr n else Inl RangeError)"

text \<open>The operand of a bitwise operation.\<close>

definition bits_of :: "64 word \<Rightarrow> int" where
  "bits_of d = (case double_trunc d of None \<Rightarrow> 0 | Some (n, _) \<Rightarrow> n)"

fun as_string :: "'o js_value \<Rightarrow> js_string option res" where
  "as_string (JString s) = Inr (Some s)"
| "as_string JNull = Inr None"
| "as_string JUndefined = Inr None"
| "as_string _ = Inl TypeError"

text \<open>\<open>long.high\<close> and \<open>long.low\<close> of a value without these properties are \<open>undefined\<close>, which is written as 0.\<close>

fun as_long :: "'o ser_env \<Rightarrow> 'o js_value \<Rightarrow> js_long res" where
  "as_long env (JLong l) = Inr l"
| "as_long env JNull = Inl TypeError"
| "as_long env JUndefined = Inl TypeError"
| "as_long env (JObject _ x) = Inr (obj_long env x)"
| "as_long env _ = Inr \<lparr>low = 0, high = 0\<rparr>"

fun as_array :: "'o js_value \<Rightarrow> 'o js_value list option res" where
  "as_array (JArray vs) = Inr (Some vs)"
| "as_array JNull = Inr None"
| "as_array JUndefined = Inr None"
| "as_array _ = Inl TypeError"

text \<open>The longest time a date can have; the time of a date that is not valid is not a number.\<close>

definition MAX_TIME :: int where "MAX_TIME = 8640000000000000"

subsection \<open>Scalars\<close>

text \<open>A \<open>write\<close> that calls a method its argument does not have raises a \<open>TypeError\<close>.\<close>

fun scalar_write :: "'o ser_env \<Rightarrow> 'o serializer \<Rightarrow> 'o js_value \<Rightarrow> data_output \<Rightarrow> data_output res" where
  "scalar_write env StringSerializer v out = bindR (as_string v) (\<lambda>s. writeString (memory env) s out)"
| "scalar_write env DoubleSerializer v out = write_double (memory env) (number_of env v) out"
| "scalar_write env BooleanSerializer v out = writeBoolean (memory env) (truthy v) out"
| "scalar_write env NullSerializer v out = Inr out"
| "scalar_write env ShortSerializer v out =
     bindR (ranged_int (-(2 ^ 15)) (2 ^ 15 - 1) (number_of env v)) (\<lambda>n. writeShort (memory env) n out)"
| "scalar_write env IntegerSerializer v out =
     bindR (ranged_int (-(2 ^ 31)) (2 ^ 31 - 1) (number_of env v)) (\<lambda>n. writeInt (memory env) n out)"
| "scalar_write env LongSerializer v out = bindR (as_long env v) (\<lambda>l. writeLong (memory env) l out)"
| "scalar_write env FloatSerializer v out = write_float (memory env) (fround env (number_of env v)) out"
| "scalar_write env DateSerializer v out =
     (case v of
        JDate t \<Rightarrow> writeLong (memory env) (long_fromNumber (se_longs env) (case t of Some ms \<Rightarrow> ms | None \<Rightarrow> 0)) out
      | _ \<Rightarrow> Inl TypeError)"
| "scalar_write env ByteSerializer v out = writeByte (memory env) (bits_of (number_of env v)) out"
| "scalar_write env ByteArraySerializer v out =
     (case v of
        JBuffer b \<Rightarrow> writeByteArray (memory env) (Some b) out
      | JArray vs \<Rightarrow> bindR (writeInt (memory env) (int (length vs)) out) (\<lambda>out. if vs = [] then Inr out else Inl TypeError)
      | JNull \<Rightarrow> writeByteArray (memory env) None out
      | JUndefined \<Rightarrow> writeByteArray (memory env) None out
      | _ \<Rightarrow> Inl TypeError)"
| "scalar_write env CharSerializer v out =
     (case v of JString s \<Rightarrow> writeChar (memory env) (if s = [] then 0 else hd s) out | _ \<Rightarrow> Inl TypeError)"
| "scalar_write env JavaClassSerializer v out = bindR (as_string v) (\<lambda>s. writeString (memory env) s out)"
| "scalar_write env UuidSerializer v out =
     (case v of
        JUuid u \<Rightarrow> bindR (writeLong (memory env) (mostSignificant u) out) (writeLong (memory env) (leastSignificant u))
      | _ \<Rightarrow> Inl TypeError)"
| "scalar_write env _ v out = Inl TypeError"

definition as_value :: "('a \<Rightarrow> 'o js_value) \<Rightarrow> ('a \<times> data_input) res \<Rightarrow> ('o js_value \<times> data_input) res" where
  "as_value f r = bindR r (\<lambda>(x, inp). Inr (f x, inp))"

definition string_value :: "js_string option \<Rightarrow> 'o js_value" where
  "string_value s = (case s of None \<Rightarrow> JNull | Some s \<Rightarrow> JString s)"

definition new_Date :: "int \<Rightarrow> 'o js_value" where
  "new_Date t = JDate (if \<bar>t\<bar> \<le> MAX_TIME then Some t else None)"

fun scalar_read :: "'o ser_env \<Rightarrow> 'o serializer \<Rightarrow> data_input \<Rightarrow> ('o js_value \<times> data_input) res" where
  "scalar_read env StringSerializer inp = as_value string_value (readString None inp)"
| "scalar_read env DoubleSerializer inp = as_value JNumber (read_double None inp)"
| "scalar_read env BooleanSerializer inp = as_value JBool (readBoolean None inp)"
| "scalar_read env NullSerializer inp = Inr (JNull, inp)"
| "scalar_read env ShortSerializer inp = as_value (\<lambda>n. JNumber (int_to_double n)) (readShort None inp)"
| "scalar_read env IntegerSerializer inp = as_value (\<lambda>n. JNumber (int_to_double n)) (readInt None inp)"
| "scalar_read env LongSerializer inp = as_value JLong (readLong None inp)"
| "scalar_read env FloatSerializer inp = as_value (\<lambda>f. JNumber (widen env f)) (read_float None inp)"
| "scalar_read env DateSerializer inp = as_value (\<lambda>l. new_Date (long_toNumber (se_longs env) l)) (readLong None inp)"
| "scalar_read env ByteSerializer inp = as_value (\<lambda>n. JNumber (int_to_double n)) (readByte None inp)"
| "scalar_read env ByteArraySerializer inp =
     as_value (\<lambda>b. case b of None \<Rightarrow> JNull | Some b \<Rightarrow> JBuffer b) (readByteArray None inp)"
| "scalar_read env CharSerializer inp = as_value (\<lambda>c. JString [c]) (readChar None inp)"
| "scalar_read env JavaClassSerializer inp = as_value string_value (readString None inp)"
| "scalar_read env UuidSerializer inp =
     bindR (readLong None inp) (\<lambda>(m, inp). bindR (readLong None inp) (\<lambda>(l, inp).
       Inr (JUuid \<lparr>mostSignificant = m, leastSignificant = l\<rparr>, inp)))"
| "scalar_read env _ inp = Inl TypeError"

subsection \<open>Arrays\<close>

text \<open>The write and read methods of arrays call those of their elements.\<close>

fun element_serializer :: "'o serializer \<Rightarrow> 'o serializer option" where
  "element_serializer BooleanArraySerializer = Some BooleanSerializer"
| "element_serializer ShortArraySerializer = Some ShortSerializer"
| "element_serializer IntegerArraySerializer = Some IntegerSerializer"
| "element_serializer LongArraySerializer = Some LongSerializer"
| "element_serializer DoubleArraySerializer = Some DoubleSerializer"
| "element_serializer StringArraySerializer = Some StringSerializer"
| "element_serializer CharArraySerializer = Some CharSerializer"
| "element_serializer FloatArraySerializer = Some FloatSerializer"
| "element_serializer _ = None"

definition array_write :: "'o ser_env \<Rightarrow> 'o serializer \<Rightarrow> 'o js_value \<Rightarrow> data_output \<Rightarrow> data_output res" where
  "array_write env el v out = bindR (as_array v) (\<lambda>vs. writeArray (memory env) (scalar_write env el) vs out)"

definition array_read :: "'o ser_env \<Rightarrow> 'o serializer \<Rightarrow> data_input \<Rightarrow> ('o js_value \<times> data_input) res" where
  "array_read env el inp =
     as_value (\<lambda>vs. case vs of None \<Rightarrow> JNull | Some vs \<Rightarrow> JArray vs) (readArray (scalar_read env el) None inp)"

text \<open>\<open>LinkedListSerializer.read\<close>, which \<open>ArrayListSerializer\<close> inherits.\<close>

definition list_read :: "(data_input \<Rightarrow> ('o js_value \<times> data_input) res) \<Rightarrow> data_input \<Rightarrow>
    ('o js_value \<times> data_input) res" where
  "list_read readNested inp =
     bindR (readInt None inp) (\<lambda>(sz, inp).
       if sz > NULL_ARRAY_LENGTH
       then bindR (read_times readNested (nat sz) inp) (\<lambda>(vs, inp). Inr (JArray vs, inp))
       else Inr (JNull, inp))"

subsection \<open>JSON\<close>

definition json_write :: "'o ser_env \<Rightarrow> 'o js_value \<Rightarrow> data_output \<Rightarrow> data_output res" where
  "json_write env v out =
     (case v of
        JJson s \<Rightarrow> writeString (memory env) (Some s) out
      | _ \<Rightarrow> bindR (stringify env v) (\<lambda>s. writeString (memory env) s out))"

definition json_read :: "'o ser_env \<Rightarrow> data_input \<Rightarrow> ('o js_value \<times> data_input) res" where
  "json_read env inp = bindR (readString None inp) (\<lambda>(s, inp). bindR (parseJson env s) (\<lambda>v. Inr (v, inp)))"

text \<open>The constructor of \<open>HazelcastJsonValue\<close> asserts that it is given a string.\<close>

definition json_value_read :: "data_input \<Rightarrow> ('o js_value \<times> data_input) res" where
  "json_value_read inp = bindR (readString None inp) (\<lambda>(s, inp).
     case s of None \<Rightarrow> Inl AssertionError | Some s \<Rightarrow> Inr (JJson s, inp))"

end
