(* ===== verification/IdentifiedObjects.thy ===== *)
theory IdentifiedObjects
  imports DefaultSerializers
begin

section \<open>Identified objects: predicates, aggregators and the others\<close>

text \<open>
  The \<open>IdentifiedDataSerializable\<close> classes of the client: the ids of their factories and classes, the factories, and
  their \<open>readData\<close> methods (src/src/serialization/DefaultPredicates.ts, src/src/aggregation/Aggregator.ts,
  src/src/core/RestValue.ts, src/src/core/Address.ts, src/src/proxy/topic/ReliableTopicMessage.ts). A factory
  creates an object without fields, which \<open>readData\<close> then fills: here, one function from the class id to the object
  that is read.
\<close>

abbreviation PREDICATE_FACTORY_ID :: int where "PREDICATE_FACTORY_ID \<equiv> -20"
abbreviation AGGREGATOR_FACTORY_ID :: int where "AGGREGATOR_FACTORY_ID \<equiv> -29"
abbreviation CLUSTER_DATA_FACTORY_ID :: int where "CLUSTER_DATA_FACTORY_ID \<equiv> 0"
abbreviation REST_VALUE_FACTORY_ID :: int where "REST_VALUE_FACTORY_ID \<equiv> -25"
abbreviation RELIABLE_TOPIC_MESSAGE_FACTORY_ID :: int where "RELIABLE_TOPIC_MESSAGE_FACTORY_ID \<equiv> -9"

fun factoryId :: "'o identified \<Rightarrow> int" where
  "factoryId (Aggregator _ _) = AGGREGATOR_FACTORY_ID"
| "factoryId (RestValue _ _) = REST_VALUE_FACTORY_ID"
| "factoryId (ReliableTopicMessage _ _ _) = RELIABLE_TOPIC_MESSAGE_FACTORY_ID"
| "factoryId (AddressImpl _ _ _) = CLUSTER_DATA_FACTORY_ID"
| "factoryId _ = PREDICATE_FACTORY_ID"

text \<open>The class ids of the aggregators, as \<open>idToConstructor\<close> has them.\<close>

definition aggregator_ids :: "(int \<times> aggregator_class) list" where
  "aggregator_ids =
     [(4, CountAggregator), (6, DoubleAverageAggregator), (7, DoubleSumAggregator), (8, FixedPointSumAggregator),
      (9, FloatingPointSumAggregator), (10, IntegerAverageAggregator), (11, IntegerSumAggregator),
      (12, LongAverageAggregator), (13, LongSumAggregator), (14, MaxAggregator), (15, MinAggregator),
      (16, NumberAverageAggregator)]"

fun aggregator_classId :: "aggregator_class \<Rightarrow> int" where
  "aggregator_classId CountAggregator = 4"
| "aggregator_classId DoubleAverageAggregator = 6"
| "aggregator_classId DoubleSumAggregator = 7"
| "aggregator_classId FixedPointSumAggregator = 8"
| "aggregator_classId FloatingPointSumAggregator = 9"
| "aggregator_classId IntegerAverageAggregator = 10"
| "aggregator_classId IntegerSumAggregator = 11"
| "aggregator_classId LongAverageAggregator = 12"
| "aggregator_classId LongSumAggregator = 13"
| "aggregator_classId MaxAggregator = 14"
| "aggregator_classId MinAggregator = 15"
| "aggregator_classId NumberAverageAggregator = 16"

fun classId :: "'o identified \<Rightarrow> int" where
  "classId (SqlPredicate _) = 0"
| "classId (AndPredicate _) = 1"
| "classId (BetweenPredicate _ _ _) = 2"
| "classId (EqualPredicate _ _) = 3"
| "classId (GreaterLessPredicate _ _ _ _) = 4"
| "classId (LikePredicate _ _) = 5"
| "classId (ILikePredicate _ _) = 6"
| "classId (InPredicate _ _) = 7"
| "classId (InstanceOfPredicate _) = 8"
| "classId (NotEqualPredicate _ _) = 9"
| "classId (NotPredicate _) = 10"
| "classId (OrPredicate _) = 11"
| "classId (RegexPredicate _ _) = 12"
| "classId FalsePredicate = 13"
| "classId TruePredicate = 14"
| "classId (PagingPredicateImpl _ _ _ _ _ _) = 15"
| "classId (Aggregator c _) = aggregator_classId c"
| "classId (RestValue _ _) = 1"
| "classId (ReliableTopicMessage _ _ _) = 2"
| "classId (AddressImpl _ _ _) = 1"

subsection \<open>Reading\<close>

type_synonym 'o reader_fn = "data_input \<Rightarrow> ('o js_value \<times> data_input) res"

definition read_string_then :: "(js_string option \<Rightarrow> data_input \<Rightarrow> ('a \<times> data_input) res) \<Rightarrow> data_input \<Rightarrow>
    ('a \<times> data_input) res" where
  "read_string_then f inp = bindR (readString None inp) (\<lambda>(s, inp). f s inp)"

definition read_nested_then :: "'o reader_fn \<Rightarrow> ('o js_value \<Rightarrow> data_input \<Rightarrow> ('a \<times> data_input) res) \<Rightarrow>
    data_input \<Rightarrow> ('a \<times> data_input) res" where
  "read_nested_then readNested f inp = bindR (readNested inp) (\<lambda>(v, inp). f v inp)"

definition read_int_then :: "(int \<Rightarrow> data_input \<Rightarrow> ('a \<times> data_input) res) \<Rightarrow> data_input \<Rightarrow> ('a \<times> data_input) res" where
  "read_int_then f inp = bindR (readInt None inp) (\<lambda>(n, inp). f n inp)"

text \<open>\<open>for (let i = 0; i < s; i++)\<close>: a negative count is no iteration.\<close>

definition read_counted :: "(data_input \<Rightarrow> ('a \<times> data_input) res) \<Rightarrow> ('a list \<Rightarrow> 'b) \<Rightarrow> data_input \<Rightarrow>
    ('b \<times> data_input) res" where
  "read_counted rd f inp =
     bindR (readInt None inp) (\<lambda>(s, inp). bindR (read_times rd (nat s) inp) (\<lambda>(xs, inp). Inr (f xs, inp)))"

definition read_anchor :: "'o reader_fn \<Rightarrow> data_input \<Rightarrow> ('o anchor \<times> data_input) res" where
  "read_anchor readNested =
     read_int_then (\<lambda>p. read_nested_then readNested (\<lambda>k. read_nested_then readNested (\<lambda>v inp. Inr (Anchor p k v, inp))))"

text \<open>\<open>enumFromString(IterationType, ..)\<close>: \<open>undefined\<close> for a string that is no member.\<close>

definition js_ascii :: "string \<Rightarrow> js_string" where
  "js_ascii s = map (\<lambda>c. word_of_nat (of_char c)) s"

fun iteration_name :: "iteration_type \<Rightarrow> js_string" where
  "iteration_name KEY = js_ascii ''KEY''"
| "iteration_name VALUE = js_ascii ''VALUE''"
| "iteration_name ENTRY = js_ascii ''ENTRY''"

definition iteration_of :: "js_string option \<Rightarrow> iteration_type option" where
  "iteration_of s =
     (if s = Some (iteration_name KEY) then Some KEY
      else if s = Some (iteration_name VALUE) then Some VALUE
      else if s = Some (iteration_name ENTRY) then Some ENTRY else None)"

definition predicateFactory :: "'o reader_fn \<Rightarrow> int \<Rightarrow> data_input \<Rightarrow> ('o identified \<times> data_input) res" where
  "predicateFactory readNested cid inp =
     (if cid = 0 then read_string_then (\<lambda>s inp. Inr (SqlPredicate s, inp)) inp
      else if cid = 1 then read_counted readNested AndPredicate inp
      else if cid = 2 then
        read_string_then (\<lambda>field. read_nested_then readNested (\<lambda>to. read_nested_then readNested (\<lambda>from inp.
          Inr (BetweenPredicate field from to, inp)))) inp
      else if cid = 3 then
        read_string_then (\<lambda>field. read_nested_then readNested (\<lambda>v inp. Inr (EqualPredicate field v, inp))) inp
      else if cid = 4 then
        read_string_then (\<lambda>field. read_nested_then readNested (\<lambda>v inp.
          bindR (readBoolean None inp) (\<lambda>(eq, inp). bindR (readBoolean None inp) (\<lambda>(less, inp).
            Inr (GreaterLessPredicate field v eq less, inp))))) inp
      else if cid = 5 then read_string_then (\<lambda>field. read_string_then (\<lambda>e inp. Inr (LikePredicate field e, inp))) inp
      else if cid = 6 then read_string_then (\<lambda>field. read_string_then (\<lambda>e inp. Inr (ILikePredicate field e, inp))) inp
      else if cid = 7 then read_string_then (\<lambda>field. read_counted readNested (InPredicate field)) inp
      else if cid = 8 then read_string_then (\<lambda>s inp. Inr (InstanceOfPredicate s, inp)) inp
      else if cid = 9 then
        read_string_then (\<lambda>field. read_nested_then readNested (\<lambda>v inp. Inr (NotEqualPredicate field v, inp))) inp
      else if cid = 10 then read_nested_then readNested (\<lambda>p inp. Inr (NotPredicate p, inp)) inp
      else if cid = 11 then read_counted readNested OrPredicate inp
      else if cid = 12 then read_string_then (\<lambda>field. read_string_then (\<lambda>e inp. Inr (RegexPredicate field e, inp))) inp
      else if cid = 13 then Inr (FalsePredicate, inp)
      else if cid = 14 then Inr (TruePredicate, inp)
      else if cid = 15 then
        read_nested_then readNested (\<lambda>p. read_nested_then readNested (\<lambda>c. read_int_then (\<lambda>page. read_int_then (\<lambda>sz.
          read_string_then (\<lambda>it. read_counted (read_anchor readNested) (PagingPredicateImpl p c page sz (iteration_of it))))))) inp
      else Inl RangeError)"

fun aggregator_readData :: "'o reader_fn \<Rightarrow> aggregator_class \<Rightarrow> data_input \<Rightarrow> (unit \<times> data_input) res" where
  "aggregator_readData readNested c inp =
     (let skip_long = (\<lambda>inp. bindR (readLong None inp) (\<lambda>(_, inp). Inr ((), inp)));
          skip_double = (\<lambda>inp. bindR (read_double None inp) (\<lambda>(_, inp). Inr ((), inp)));
          skip_object = (\<lambda>inp. bindR (readNested inp) (\<lambda>(_, inp). Inr ((), inp)))
      in case c of
        CountAggregator \<Rightarrow> skip_long inp
      | DoubleAverageAggregator \<Rightarrow> bindR (skip_double inp) (\<lambda>(_, inp). skip_long inp)
      | DoubleSumAggregator \<Rightarrow> skip_double inp
      | NumberAverageAggregator \<Rightarrow> bindR (skip_double inp) (\<lambda>(_, inp). skip_long inp)
      | FixedPointSumAggregator \<Rightarrow> skip_long inp
      | FloatingPointSumAggregator \<Rightarrow> skip_double inp
      | MaxAggregator \<Rightarrow> skip_object inp
      | MinAggregator \<Rightarrow> skip_object inp
      | IntegerAverageAggregator \<Rightarrow> bindR (skip_long inp) (\<lambda>(_, inp). skip_long inp)
      | IntegerSumAggregator \<Rightarrow> skip_long inp
      | LongAverageAggregator \<Rightarrow> bindR (skip_long inp) (\<lambda>(_, inp). skip_long inp)
      | LongSumAggregator \<Rightarrow> skip_long inp)"

definition aggregatorFactory :: "'o reader_fn \<Rightarrow> int \<Rightarrow> data_input \<Rightarrow> ('o identified \<times> data_input) res" where
  "aggregatorFactory readNested cid inp =
     (case map_of aggregator_ids cid of
        None \<Rightarrow> Inl (HzError HazelcastError)
      | Some c \<Rightarrow> read_string_then (\<lambda>path inp.
          bindR (aggregator_readData readNested c inp) (\<lambda>(_, inp). Inr (Aggregator c path, inp))) inp)"

text \<open>The other factories return \<open>null\<close> for a class they do not know, whose \<open>readData\<close> is then called.\<close>

definition restValueFactory :: "int \<Rightarrow> data_input \<Rightarrow> ('o identified \<times> data_input) res" where
  "restValueFactory cid inp =
     (if cid = 1 then read_string_then (\<lambda>v. read_string_then (\<lambda>t inp. Inr (RestValue v t, inp))) inp else Inl TypeError)"

definition reliableTopicMessageFactory :: "'o reader_fn \<Rightarrow> int \<Rightarrow> data_input \<Rightarrow> ('o identified \<times> data_input) res" where
  "reliableTopicMessageFactory readNested cid inp =
     (if cid = 2 then
        bindR (readLong None inp) (\<lambda>(t, inp). read_nested_then readNested (\<lambda>a inp.
          bindR (readData inp) (\<lambda>(p, inp). Inr (ReliableTopicMessage t a p, inp))) inp)
      else Inl TypeError)"

definition clusterDataFactory :: "int \<Rightarrow> data_input \<Rightarrow> ('o identified \<times> data_input) res" where
  "clusterDataFactory cid inp =
     (if cid = 1 then
        read_int_then (\<lambda>p inp. bindR (readByte None inp) (\<lambda>(t, inp).
          read_string_then (\<lambda>h inp. Inr (AddressImpl p t h, inp)) inp)) inp
      else Inl TypeError)"

text \<open>\<open>IdentifiedDataSerializableSerializer.read\<close>; the factories of the client hide user factories with the same id.\<close>

definition identified_read :: "'o ser_env \<Rightarrow> 'o reader_fn \<Rightarrow> 'o reader_fn" where
  "identified_read env readNested inp =
     bindR (readBoolean None inp) (\<lambda>(isIdentified, inp).
       if \<not> isIdentified then Inl RangeError
       else read_int_then (\<lambda>fid. read_int_then (\<lambda>cid inp.
         if fid = PREDICATE_FACTORY_ID then as_value JIdentified (predicateFactory readNested cid inp)
         else if fid = RELIABLE_TOPIC_MESSAGE_FACTORY_ID then as_value JIdentified (reliableTopicMessageFactory readNested cid inp)
         else if fid = CLUSTER_DATA_FACTORY_ID then as_value JIdentified (clusterDataFactory cid inp)
         else if fid = AGGREGATOR_FACTORY_ID then as_value JIdentified (aggregatorFactory readNested cid inp)
         else if fid = REST_VALUE_FACTORY_ID then as_value JIdentified (restValueFactory cid inp)
         else case user_factories env fid of None \<Rightarrow> Inl RangeError | Some f \<Rightarrow> f cid inp)) inp)"

text \<open>\<open>Serializer.read\<close> of every serializer.\<close>

definition serializer_read :: "'o ser_env \<Rightarrow> 'o reader_fn \<Rightarrow> 'o serializer \<Rightarrow> 'o reader_fn" where
  "serializer_read env readNested ser inp =
     (case ser of
        LinkedListSerializer \<Rightarrow> list_read readNested inp
      | ArrayListSerializer \<Rightarrow> list_read readNested inp
      | IdentifiedDataSerializableSerializer \<Rightarrow> identified_read env readNested inp
      | JsonSerializer \<Rightarrow> json_read env inp
      | HazelcastJsonValueSerializer \<Rightarrow> json_value_read inp
      | PortableSerializer \<Rightarrow> portable_read env inp
      | CustomSerializer c \<Rightarrow> cs_read c inp
      | _ \<Rightarrow> (case element_serializer ser of Some el \<Rightarrow> array_read env el inp | None \<Rightarrow> scalar_read env ser inp))"

subsection \<open>Writing\<close>

text \<open>
  \<open>Serializer.write\<close> of every serializer; \<open>writeNested\<close> is the \<open>writeData\<close> method of an identified object. The
  lists have a \<open>write\<close> without effect.
\<close>

definition identified_write :: "'o ser_env \<Rightarrow> ('o identified \<Rightarrow> data_output \<Rightarrow> data_output res) \<Rightarrow> 'o js_value \<Rightarrow>
    data_output \<Rightarrow> data_output res" where
  "identified_write env writeNested v out =
     (case v of
        JIdentified x \<Rightarrow>
          bindR (writeBoolean (memory env) True out) (\<lambda>out.
          bindR (writeInt (memory env) (factoryId x) out) (\<lambda>out.
          bindR (writeInt (memory env) (classId x) out) (writeNested x)))
      | JObject _ obj \<Rightarrow>
          (case obj_identified env obj of
             None \<Rightarrow> Inl TypeError
           | Some (fid, cid, w) \<Rightarrow>
               bindR (writeBoolean (memory env) True out) (\<lambda>out.
               bindR (writeInt (memory env) fid out) (\<lambda>out. bindR (writeInt (memory env) cid out) w)))
      | _ \<Rightarrow> Inl TypeError)"

definition serializer_write :: "'o ser_env \<Rightarrow> ('o identified \<Rightarrow> data_output \<Rightarrow> data_output res) \<Rightarrow> 'o serializer \<Rightarrow>
    'o js_value \<Rightarrow> data_output \<Rightarrow> data_output res" where
  "serializer_write env writeNested ser v out =
     (case ser of
        LinkedListSerializer \<Rightarrow> Inr out
      | ArrayListSerializer \<Rightarrow> Inr out
      | IdentifiedDataSerializableSerializer \<Rightarrow> identified_write env writeNested v out
      | JsonSerializer \<Rightarrow> json_write env v out
      | HazelcastJsonValueSerializer \<Rightarrow> json_write env v out
      | PortableSerializer \<Rightarrow> portable_write env v out
      | CustomSerializer c \<Rightarrow> cs_write c v out
      | _ \<Rightarrow> (case element_serializer ser of Some el \<Rightarrow> array_write env el v out | None \<Rightarrow> scalar_write env ser v out))"

lemma serializer_write_cong [fundef_cong]:
  assumes "v = v'" "out = out'" "ser = ser'" "\<And>x o1. v' = JIdentified x \<Longrightarrow> w x o1 = w' x o1"
  shows "serializer_write env w ser v out = serializer_write env w' ser' v' out'"
proof -
  have "identified_write env w v out = identified_write env w' v' out'"
    using assms by (cases v') (auto simp: identified_write_def fun_eq_iff intro!: arg_cong2 [of _ _ _ _ bindR])
  then show ?thesis using assms(1-3) by (cases ser') (simp_all add: serializer_write_def)
qed

end
