(* ===== verification/SerializationService.thy ===== *)
theory SerializationService
  imports IdentifiedObjects "HOL-Library.AList"
begin

section \<open>The serialization service (src/src/serialization/SerializationService.ts)\<close>

text \<open>
  The registry of serializers, the choice of a serializer for a value and the translation between values and binary
  data. \<open>readObject\<close> and the lists and identified objects it reads call each other; the length of a nested object
  comes from the input, so the recursion is cut at \<open>fuel\<close> nested calls, beyond which the result is \<open>NoReturn\<close>.
\<close>

record 'o ser_config =
  defaultNumberType :: string
  isBigEndian :: bool
  jsonEager :: bool
  customSerializers :: "'o custom_serializer list"
  globalSerializer :: "'o custom_serializer option"

record 'o ser_service =
  registry :: "(int \<times> 'o serializer) list"
  serializerNameToId :: "(string \<times> int) list"
  serializationConfig :: "'o ser_config"

subsection \<open>The registry\<close>

text \<open>\<open>if (this.serializerNameToId[name])\<close>: the id 0 counts as absent.\<close>

definition registerSerializer :: "string \<Rightarrow> 'o serializer \<Rightarrow> 'o ser_service \<Rightarrow> 'o ser_service res" where
  "registerSerializer name ser s =
     (if (case map_of (serializerNameToId s) name of None \<Rightarrow> False | Some i \<Rightarrow> i \<noteq> 0) then Inl RangeError
      else if map_of (registry s) (serializer_id ser) \<noteq> None then Inl RangeError
      else Inr (s\<lparr>serializerNameToId := AList.update name (serializer_id ser) (serializerNameToId s),
                  registry := AList.update (serializer_id ser) ser (registry s)\<rparr>))"

fun register_all :: "(string \<times> 'o serializer) list \<Rightarrow> 'o ser_service \<Rightarrow> 'o ser_service res" where
  "register_all [] s = Inr s"
| "register_all ((name, ser) # rest) s = bindR (registerSerializer name ser s) (register_all rest)"

definition default_serializers :: "bool \<Rightarrow> (string \<times> 'o serializer) list" where
  "default_serializers eager =
     [(''string'', StringSerializer), (''double'', DoubleSerializer), (''byte'', ByteSerializer),
      (''boolean'', BooleanSerializer), (''null'', NullSerializer), (''short'', ShortSerializer),
      (''integer'', IntegerSerializer), (''long'', LongSerializer), (''float'', FloatSerializer),
      (''char'', CharSerializer), (''date'', DateSerializer), (''byteArray'', ByteArraySerializer),
      (''charArray'', CharArraySerializer), (''booleanArray'', BooleanArraySerializer),
      (''shortArray'', ShortArraySerializer), (''integerArray'', IntegerArraySerializer),
      (''longArray'', LongArraySerializer), (''doubleArray'', DoubleArraySerializer),
      (''stringArray'', StringArraySerializer), (''javaClass'', JavaClassSerializer),
      (''floatArray'', FloatArraySerializer), (''arrayList'', ArrayListSerializer),
      (''linkedList'', LinkedListSerializer), (''uuid'', UuidSerializer),
      (''identified'', IdentifiedDataSerializableSerializer), (''!portable'', PortableSerializer),
      (''!json'', if eager then JsonSerializer else HazelcastJsonValueSerializer)]"

definition registerDefaultSerializers :: "'o ser_service \<Rightarrow> 'o ser_service res" where
  "registerDefaultSerializers s = register_all (default_serializers (jsonEager (serializationConfig s))) s"

definition assertValidCustomSerializer :: "'o custom_serializer \<Rightarrow> unit res" where
  "assertValidCustomSerializer c =
     (case cs_id c of
        None \<Rightarrow> Inl TypeError
      | Some i \<Rightarrow> if \<not> cs_methods c then Inl TypeError else if i < 1 then Inl TypeError else Inr ())"

text \<open>\<open>'!custom' + candidate.id\<close>; an id that was accepted is positive.\<close>

fun digits_of :: "nat \<Rightarrow> string" where
  "digits_of n = (if n < 10 then [char_of (48 + n)] else digits_of (n div 10) @ [char_of (48 + n mod 10)])"

fun register_customs :: "'o custom_serializer list \<Rightarrow> 'o ser_service \<Rightarrow> 'o ser_service res" where
  "register_customs [] s = Inr s"
| "register_customs (c # cs) s =
     bindR (assertValidCustomSerializer c) (\<lambda>_.
     bindR (registerSerializer (''!custom'' @ digits_of (nat (serializer_id (CustomSerializer c)))) (CustomSerializer c) s)
       (register_customs cs))"

definition registerCustomSerializers :: "'o ser_service \<Rightarrow> 'o ser_service res" where
  "registerCustomSerializers s = register_customs (customSerializers (serializationConfig s)) s"

definition registerGlobalSerializer :: "'o ser_service \<Rightarrow> 'o ser_service res" where
  "registerGlobalSerializer s =
     (case globalSerializer (serializationConfig s) of
        None \<Rightarrow> Inr s
      | Some c \<Rightarrow> bindR (assertValidCustomSerializer c) (\<lambda>_. registerSerializer ''!global'' (CustomSerializer c) s))"

definition newSerializationService :: "'o ser_config \<Rightarrow> 'o ser_service res" where
  "newSerializationService cfg =
     bindR (registerDefaultSerializers \<lparr>registry = [], serializerNameToId = [], serializationConfig = cfg\<rparr>) (\<lambda>s.
     bindR (registerCustomSerializers s) registerGlobalSerializer)"

subsection \<open>Choosing a serializer\<close>

text \<open>The result of a lookup is \<open>null\<close>, \<open>undefined\<close> or a serializer.\<close>

datatype (plugins only: size) 'o lookup = NullLookup | UndefinedLookup | Found "'o serializer"

definition findSerializerById :: "'o ser_service \<Rightarrow> int \<Rightarrow> 'o lookup" where
  "findSerializerById s i = (case map_of (registry s) i of None \<Rightarrow> UndefinedLookup | Some ser \<Rightarrow> Found ser)"

definition findSerializerByName :: "'o ser_service \<Rightarrow> string \<Rightarrow> bool \<Rightarrow> 'o lookup" where
  "findSerializerByName s name isArray =
     (let convertedName = (if name = ''number'' then defaultNumberType (serializationConfig s)
                           else if name = ''buffer'' then ''byteArray'' else name);
          serializerName = convertedName @ (if isArray then ''Array'' else [])
      in case map_of (serializerNameToId s) serializerName of
        None \<Rightarrow> NullLookup
      | Some i \<Rightarrow> findSerializerById s i)"

definition isIdentifiedDataSerializable :: "'o ser_env \<Rightarrow> 'o js_value \<Rightarrow> bool" where
  "isIdentifiedDataSerializable env v =
     (case v of JIdentified _ \<Rightarrow> True | JObject _ x \<Rightarrow> obj_identified env x \<noteq> None | _ \<Rightarrow> False)"

definition isPortableSerializable :: "'o ser_env \<Rightarrow> 'o js_value \<Rightarrow> bool" where
  "isPortableSerializable env v = (case v of JObject _ x \<Rightarrow> obj_portable env x | _ \<Rightarrow> False)"

definition lookupDefaultSerializer :: "'o ser_env \<Rightarrow> 'o ser_service \<Rightarrow> 'o js_value \<Rightarrow> 'o lookup res" where
  "lookupDefaultSerializer env s v =
     (if isIdentifiedDataSerializable env v then Inr (findSerializerByName s ''identified'' False)
      else if isPortableSerializable env v then Inr (findSerializerByName s ''!portable'' False)
      else case v of
        JArray [] \<Rightarrow> Inr (findSerializerByName s ''number'' True)
      | JArray (x # _) \<Rightarrow> bindR (getType_of x) (\<lambda>t. Inr (findSerializerByName s t True))
      | _ \<Rightarrow> bindR (getType_of v) (\<lambda>t. Inr (findSerializerByName s t False)))"

definition lookupCustomSerializer :: "'o ser_env \<Rightarrow> 'o ser_service \<Rightarrow> 'o js_value \<Rightarrow> 'o lookup" where
  "lookupCustomSerializer env s v =
     (case v of
        JObject _ x \<Rightarrow> (case obj_customId env x of
            Some i \<Rightarrow> if i \<ge> 1 then findSerializerById s i else NullLookup
          | None \<Rightarrow> NullLookup)
      | _ \<Rightarrow> NullLookup)"

definition lookupGlobalSerializer :: "'o ser_service \<Rightarrow> 'o lookup" where
  "lookupGlobalSerializer s = findSerializerByName s ''!global'' False"

definition or_else :: "'o lookup \<Rightarrow> 'o lookup \<Rightarrow> 'o lookup" where
  "or_else a b = (case a of NullLookup \<Rightarrow> b | _ \<Rightarrow> a)"

text \<open>The value \<open>undefined\<close> is no serializer: the callers then fail when they ask for its id.\<close>

definition findSerializerFor :: "'o ser_env \<Rightarrow> 'o ser_service \<Rightarrow> 'o js_value \<Rightarrow> 'o serializer res" where
  "findSerializerFor env s v =
     (if v = JUndefined then Inl RangeError
      else bindR (if v = JNull
                  then (case findSerializerByName s ''null'' False of
                          NullLookup \<Rightarrow> lookupDefaultSerializer env s v
                        | l \<Rightarrow> Inr l)
                  else lookupDefaultSerializer env s v) (\<lambda>l.
        case or_else l (or_else (lookupCustomSerializer env s v)
               (or_else (lookupGlobalSerializer s) (findSerializerByName s ''!json'' False))) of
          NullLookup \<Rightarrow> Inl RangeError
        | UndefinedLookup \<Rightarrow> Inl TypeError
        | Found ser \<Rightarrow> Inr ser))"

subsection \<open>Nested objects\<close>

text \<open>
  \<open>writeObject\<close> and the \<open>writeData\<close> methods of identified objects, in the order of the classes. The aggregators write
  the initial values of their Java counterparts.
\<close>

fun aggregator_writeData :: "(nat \<Rightarrow> byte) \<Rightarrow> (data_output \<Rightarrow> data_output res) \<Rightarrow> aggregator_class \<Rightarrow> data_output \<Rightarrow>
    data_output res" where
  "aggregator_writeData junk writeNull c out =
     (let long_zero = writeLong junk \<lparr>low = 0, high = 0\<rparr>; double_zero = write_double junk 0 in case c of
        CountAggregator \<Rightarrow> long_zero out
      | DoubleAverageAggregator \<Rightarrow> bindR (double_zero out) long_zero
      | DoubleSumAggregator \<Rightarrow> double_zero out
      | NumberAverageAggregator \<Rightarrow> bindR (double_zero out) long_zero
      | FixedPointSumAggregator \<Rightarrow> long_zero out
      | FloatingPointSumAggregator \<Rightarrow> double_zero out
      | MaxAggregator \<Rightarrow> writeNull out
      | MinAggregator \<Rightarrow> writeNull out
      | IntegerAverageAggregator \<Rightarrow> bindR (long_zero out) long_zero
      | IntegerSumAggregator \<Rightarrow> long_zero out
      | LongAverageAggregator \<Rightarrow> bindR (long_zero out) long_zero
      | LongSumAggregator \<Rightarrow> long_zero out)"

text \<open>\<open>writeObject(null)\<close>.\<close>

definition write_null :: "'o ser_env \<Rightarrow> 'o ser_service \<Rightarrow> data_output \<Rightarrow> data_output res" where
  "write_null env s out =
     bindR (findSerializerFor env s JNull) (\<lambda>ser.
     bindR (writeInt (memory env) (serializer_id ser) out) (serializer_write env (\<lambda>_. Inr) ser JNull))"

fun writeObject :: "'o ser_env \<Rightarrow> 'o ser_service \<Rightarrow> 'o js_value \<Rightarrow> data_output \<Rightarrow> data_output res"
  and writeData_of :: "'o ser_env \<Rightarrow> 'o ser_service \<Rightarrow> 'o identified \<Rightarrow> data_output \<Rightarrow> data_output res"
  and write_objects :: "'o ser_env \<Rightarrow> 'o ser_service \<Rightarrow> 'o js_value list \<Rightarrow> data_output \<Rightarrow> data_output res"
  and write_anchors :: "'o ser_env \<Rightarrow> 'o ser_service \<Rightarrow> 'o anchor list \<Rightarrow> data_output \<Rightarrow> data_output res" where
  "writeObject env s v out =
     bindR (findSerializerFor env s v) (\<lambda>ser.
     bindR (writeInt (memory env) (serializer_id ser) out) (\<lambda>out.
       serializer_write env (\<lambda>x out. writeData_of env s x out) ser v out))"
| "writeData_of env s (SqlPredicate sql) out = writeString (memory env) sql out"
| "writeData_of env s (AndPredicate ps) out =
     bindR (writeInt (memory env) (int (length ps)) out) (\<lambda>out. write_objects env s ps out)"
| "writeData_of env s (BetweenPredicate field from to) out =
     bindR (writeString (memory env) field out) (\<lambda>out.
     bindR (writeObject env s to out) (\<lambda>out. writeObject env s from out))"
| "writeData_of env s (EqualPredicate field v) out =
     bindR (writeString (memory env) field out) (\<lambda>out. writeObject env s v out)"
| "writeData_of env s (GreaterLessPredicate field v eq lt) out =
     bindR (writeString (memory env) field out) (\<lambda>out. bindR (writeObject env s v out) (\<lambda>out.
     bindR (writeBoolean (memory env) eq out) (writeBoolean (memory env) lt)))"
| "writeData_of env s (LikePredicate field e) out = bindR (writeString (memory env) field out) (writeString (memory env) e)"
| "writeData_of env s (ILikePredicate field e) out = bindR (writeString (memory env) field out) (writeString (memory env) e)"
| "writeData_of env s (InPredicate field vs) out =
     bindR (writeString (memory env) field out) (\<lambda>out.
     bindR (writeInt (memory env) (int (length vs)) out) (\<lambda>out. write_objects env s vs out))"
| "writeData_of env s (InstanceOfPredicate c) out = writeString (memory env) c out"
| "writeData_of env s (NotEqualPredicate field v) out =
     bindR (writeString (memory env) field out) (\<lambda>out. writeObject env s v out)"
| "writeData_of env s (NotPredicate p) out = writeObject env s p out"
| "writeData_of env s (OrPredicate ps) out =
     bindR (writeInt (memory env) (int (length ps)) out) (\<lambda>out. write_objects env s ps out)"
| "writeData_of env s (RegexPredicate field e) out = bindR (writeString (memory env) field out) (writeString (memory env) e)"
| "writeData_of env s FalsePredicate out = Inr out"
| "writeData_of env s TruePredicate out = Inr out"
| "writeData_of env s (PagingPredicateImpl p c page sz it anchors) out =
     bindR (writeObject env s p out) (\<lambda>out. bindR (writeObject env s c out) (\<lambda>out.
     bindR (writeInt (memory env) page out) (\<lambda>out. bindR (writeInt (memory env) sz out) (\<lambda>out.
     bindR (writeString (memory env) (map_option iteration_name it) out) (\<lambda>out.
     bindR (writeInt (memory env) (int (length anchors)) out) (\<lambda>out. write_anchors env s anchors out))))))"
| "writeData_of env s (Aggregator c path) out =
     bindR (writeString (memory env) path out) (aggregator_writeData (memory env) (write_null env s) c)"
| "writeData_of env s (RestValue v t) out = bindR (writeString (memory env) v out) (writeString (memory env) t)"
| "writeData_of env s (ReliableTopicMessage t a p) out =
     bindR (writeLong (memory env) t out) (\<lambda>out. bindR (writeObject env s a out) (writeData (memory env) p))"
| "writeData_of env s (AddressImpl p t h) out =
     bindR (writeInt (memory env) p out) (\<lambda>out. bindR (writeByte (memory env) t out) (writeString (memory env) h))"
| "write_objects env s [] out = Inr out"
| "write_objects env s (v # vs) out = bindR (writeObject env s v out) (\<lambda>out. write_objects env s vs out)"
| "write_anchors env s [] out = Inr out"
| "write_anchors env s (Anchor p k v # as) out =
     bindR (writeInt (memory env) p out) (\<lambda>out. bindR (writeObject env s k out) (\<lambda>out.
     bindR (writeObject env s v out) (\<lambda>out. write_anchors env s as out)))"

fun readObject :: "'o ser_env \<Rightarrow> 'o ser_service \<Rightarrow> nat \<Rightarrow> data_input \<Rightarrow> ('o js_value \<times> data_input) res" where
  "readObject env s 0 inp = Inl NoReturn"
| "readObject env s (Suc fuel) inp =
     bindR (readInt None inp) (\<lambda>(serializerId, inp).
       case findSerializerById s serializerId of
         Found ser \<Rightarrow> serializer_read env (readObject env s fuel) ser inp
       | _ \<Rightarrow> Inl TypeError)"

subsection \<open>Values and binary data\<close>

text \<open>\<open>defaultPartitionStrategy\<close> on a value that is not binary data, and on the data of a partition key.\<close>

definition defaultPartitionStrategy :: "'o ser_env \<Rightarrow> 'o js_value \<Rightarrow> int res" where
  "defaultPartitionStrategy env v =
     (case v of
        JData d \<Rightarrow> getPartitionHash d
      | JObject _ x \<Rightarrow> (case obj_partitionHash env x of None \<Rightarrow> Inr 0 | Some h \<Rightarrow> h)
      | _ \<Rightarrow> Inr 0)"

definition write_payload :: "'o ser_env \<Rightarrow> 'o ser_service \<Rightarrow> 'o serializer \<Rightarrow> 'o js_value \<Rightarrow> int \<Rightarrow> heap_data res" where
  "write_payload env s ser v hash =
     bindR (ObjectDataOutput (memory env) (isBigEndian (serializationConfig s))) (\<lambda>out.
     bindR (writeIntBE (memory env) hash out) (\<lambda>out.
     bindR (writeIntBE (memory env) (serializer_id ser) out) (\<lambda>out.
     bindR (serializer_write env (writeData_of env s) ser v out) (\<lambda>out.
       HeapData (Some (output_toBuffer out))))))"

fun toData :: "'o ser_env \<Rightarrow> 'o ser_service \<Rightarrow> 'o js_value \<Rightarrow> heap_data res" where
  "toData env s (JData d) = Inr d"
| "toData env s (JObject pk x) =
     bindR (findSerializerFor env s (JObject pk x)) (\<lambda>ser.
     bindR (if pk = JNull \<or> pk = JUndefined then defaultPartitionStrategy env (JObject pk x)
            else bindR (toData env s pk) (\<lambda>d. defaultPartitionStrategy env (JData d)))
       (write_payload env s ser (JObject pk x)))"
| "toData env s v =
     bindR (findSerializerFor env s v) (\<lambda>ser. bindR (defaultPartitionStrategy env v) (write_payload env s ser v))"

definition toObject :: "'o ser_env \<Rightarrow> 'o ser_service \<Rightarrow> nat \<Rightarrow> 'o js_value \<Rightarrow> 'o js_value res" where
  "toObject env s fuel v =
     (case v of
        JData d \<Rightarrow>
          bindR (getType d) (\<lambda>t.
            case findSerializerById s t of
              Found ser \<Rightarrow>
                bindR (serializer_read env (readObject env s fuel) ser
                  (ObjectDataInput (case toBuffer d of None \<Rightarrow> [] | Some b \<Rightarrow> b) DATA_OFFSET (isBigEndian (serializationConfig s))))
                  (\<lambda>(x, _). Inr x)
            | _ \<Rightarrow> Inl RangeError)
      | _ \<Rightarrow> Inr v)"

end
