(* ===== verification/SerializationProofs.thy ===== *)
theory SerializationProofs
  imports SerializationService
begin

section \<open>Serialized objects are restored\<close>

text \<open>
  The invariant of the registry and the proof that what the service writes it reads back. \<open>transfers\<close> relates a
  writer and a reader: the writer appends some bytes, and the reader takes them back to the value. It composes the
  way writers and readers are composed, so a proof follows the code of a pair of methods.
\<close>

subsection \<open>The registry\<close>

declare digits_of.simps [simp del]

definition has_serializers :: "(string \<times> 'o serializer) list \<Rightarrow> 'o ser_service \<Rightarrow> bool" where
  "has_serializers ns s \<longleftrightarrow> (\<forall>name ser. (name, ser) \<in> set ns \<longrightarrow>
     map_of (serializerNameToId s) name = Some (serializer_id ser) \<and> map_of (registry s) (serializer_id ser) = Some ser)"

definition names_within :: "string set \<Rightarrow> 'o ser_service \<Rightarrow> bool" where
  "names_within N s \<longleftrightarrow> (\<forall>name. map_of (serializerNameToId s) name \<noteq> None \<longrightarrow> name \<in> N)"

lemma registerSerializer_effect:
  assumes "registerSerializer name ser s = Inr s'"
  shows "map_of (registry s) (serializer_id ser) = None" "serializationConfig s' = serializationConfig s"
    and "map_of (serializerNameToId s') n = (if n = name then Some (serializer_id ser) else map_of (serializerNameToId s) n)"
    and "map_of (registry s') i = (if i = serializer_id ser then Some ser else map_of (registry s) i)"
  using assms by (auto simp: registerSerializer_def update_conv' split: if_splits)

lemma registerSerializer_keeps:
  assumes "registerSerializer name ser s = Inr s'"
  shows "has_serializers ns s \<Longrightarrow> name \<notin> fst ` set ns \<Longrightarrow> has_serializers ((name, ser) # ns) s'"
    and "names_within N s \<Longrightarrow> names_within (insert name N) s'"
proof -
  note e = registerSerializer_effect [OF assms]
  assume h: "has_serializers ns s" "name \<notin> fst ` set ns"
  show "has_serializers ((name, ser) # ns) s'"
    unfolding has_serializers_def
  proof (intro allI impI)
    fix n x assume "(n, x) \<in> set ((name, ser) # ns)"
    then consider "n = name" "x = ser" | "(n, x) \<in> set ns" by auto
    then show "map_of (serializerNameToId s') n = Some (serializer_id x) \<and> map_of (registry s') (serializer_id x) = Some x"
    proof cases
      case 2
      then have "map_of (serializerNameToId s) n = Some (serializer_id x)" "map_of (registry s) (serializer_id x) = Some x"
        using h(1) by (simp_all add: has_serializers_def)
      moreover have "n \<noteq> name" using h(2) 2 by force
      moreover have "serializer_id x \<noteq> serializer_id ser" using e(1) calculation(2) by auto
      ultimately show ?thesis using e(3,4) by simp
    qed (simp add: e(3,4))
  qed
next
  assume "names_within N s"
  then show "names_within (insert name N) s'"
    by (auto simp: names_within_def registerSerializer_effect(3) [OF assms] split: if_splits)
qed

lemma registerSerializer_new:
  assumes "map_of (serializerNameToId s) name = None" and "map_of (registry s) (serializer_id ser) = None"
  obtains s' where "registerSerializer name ser s = Inr s'"
    and "\<And>n. n \<noteq> name \<Longrightarrow> map_of (serializerNameToId s') n = map_of (serializerNameToId s) n"
    and "\<And>i. i \<noteq> serializer_id ser \<Longrightarrow> map_of (registry s') i = map_of (registry s) i"
  using assms by (auto simp: registerSerializer_def update_conv')

lemma register_all_new:
  assumes "distinct (map fst ns)" and "distinct (map (serializer_id \<circ> snd) ns)"
    and "\<And>name. name \<in> fst ` set ns \<Longrightarrow> map_of (serializerNameToId s) name = None"
    and "\<And>ser. ser \<in> snd ` set ns \<Longrightarrow> map_of (registry s) (serializer_id ser) = None"
    and "has_serializers old s" and "names_within N s" and "fst ` set ns \<inter> fst ` set old = {}"
  shows "\<exists>s'. register_all ns s = Inr s' \<and> has_serializers (ns @ old) s' \<and> names_within (fst ` set ns \<union> N) s' \<and>
    serializationConfig s' = serializationConfig s"
  using assms
proof (induction ns arbitrary: s old N)
  case Nil
  then show ?case by simp
next
  case (Cons p ns)
  obtain name ser where p: "p = (name, ser)" by fastforce
  obtain s1 where s1: "registerSerializer name ser s = Inr s1"
      "\<And>n. n \<noteq> name \<Longrightarrow> map_of (serializerNameToId s1) n = map_of (serializerNameToId s) n"
      "\<And>i. i \<noteq> serializer_id ser \<Longrightarrow> map_of (registry s1) i = map_of (registry s) i"
    using registerSerializer_new [of s name ser] Cons.prems(3,4) p by (metis fst_conv snd_conv image_eqI list.set_intros(1))
  have neq: "n \<noteq> name" if "n \<in> fst ` set ns" for n using Cons.prems(1) p that by force
  have neq': "serializer_id ser' \<noteq> serializer_id ser" if "ser' \<in> snd ` set ns" for ser'
    using Cons.prems(2) p that by force
  have "name \<notin> fst ` set old" using Cons.prems(7) p by auto
  note k = registerSerializer_keeps(1) [OF s1(1) Cons.prems(5) this] registerSerializer_keeps(2) [OF s1(1) Cons.prems(6)]
  have "\<exists>s'. register_all ns s1 = Inr s' \<and> has_serializers (ns @ (name, ser) # old) s' \<and>
      names_within (fst ` set ns \<union> insert name N) s' \<and> serializationConfig s' = serializationConfig s1"
  proof (rule Cons.IH [OF _ _ _ _ k])
    show "map_of (serializerNameToId s1) n = None" if "n \<in> fst ` set ns" for n
      using s1(2) [OF neq [OF that]] Cons.prems(3) [of n] that by simp
    show "map_of (registry s1) (serializer_id ser') = None" if "ser' \<in> snd ` set ns" for ser'
      using s1(3) [OF neq' [OF that]] Cons.prems(4) [of ser'] that by simp
  qed (use Cons.prems(1,2,7) p neq in auto)
  then show ?case
    using s1(1) registerSerializer_effect(2) [OF s1(1)] p by (auto simp: has_serializers_def)
qed

lemma default_names: "distinct (map fst (default_serializers b))"
  by (simp add: default_serializers_def)

lemma default_ids: "distinct (map (serializer_id \<circ> snd) (default_serializers b))"
  by (simp add: default_serializers_def NULL_TYPE_ID_def)

definition default_name_set :: "string set" where
  "default_name_set = fst ` set (default_serializers True :: (string \<times> unit serializer) list)"

lemma default_name_set: "fst ` set (default_serializers b) = default_name_set"
  by (simp add: default_serializers_def default_name_set_def)

definition service_ok :: "'o ser_config \<Rightarrow> 'o ser_service \<Rightarrow> bool" where
  "service_ok cfg s \<longleftrightarrow> serializationConfig s = cfg \<and> has_serializers (default_serializers (jsonEager cfg)) s \<and>
     names_within (default_name_set \<union> range ((@) ''!custom'') \<union> (if globalSerializer cfg = None then {} else {''!global''})) s"

lemma has_serializers_Cons: "has_serializers (p # ns) s \<Longrightarrow> has_serializers ns s"
  by (auto simp: has_serializers_def)

lemma names_within_mono: "names_within M s \<Longrightarrow> M \<subseteq> N \<Longrightarrow> names_within N s"
  by (auto simp: names_within_def)

lemma exclamation_names: "''!custom'' @ n \<notin> default_name_set" "''!global'' \<notin> default_name_set"
  by (auto simp: default_serializers_def default_name_set_def)

lemma register_customs_keeps:
  assumes "register_customs cs s = Inr s'" and "has_serializers (default_serializers b) s"
    and "names_within (default_name_set \<union> range ((@) ''!custom'')) s"
  shows "has_serializers (default_serializers b) s' \<and> names_within (default_name_set \<union> range ((@) ''!custom'')) s' \<and>
    serializationConfig s' = serializationConfig s"
  using assms
proof (induction cs arbitrary: s)
  case (Cons c cs)
  let ?n = "''!custom'' @ digits_of (nat (serializer_id (CustomSerializer c)))"
  obtain s1 where s1: "registerSerializer ?n (CustomSerializer c) s = Inr s1" "register_customs cs s1 = Inr s'"
    using Cons.prems(1) by (auto simp: bindR_Inr_iff)
  have "?n \<notin> fst ` set (default_serializers b :: (string \<times> 'a serializer) list)"
    unfolding default_name_set by (rule exclamation_names(1))
  then have "has_serializers (default_serializers b) s1"
    using has_serializers_Cons [OF registerSerializer_keeps(1) [OF s1(1) Cons.prems(2)]] by blast
  moreover have "names_within (default_name_set \<union> range ((@) ''!custom'')) s1"
    by (rule names_within_mono [OF registerSerializer_keeps(2) [OF s1(1) Cons.prems(3)]]) blast
  ultimately show ?case
    using Cons.IH [OF s1(2)] registerSerializer_effect(2) [OF s1(1)] by simp
qed simp

lemma registerDefaultSerializers_ok:
  assumes "registry s = []" "serializerNameToId s = []"
  shows "\<exists>s'. registerDefaultSerializers s = Inr s' \<and>
    has_serializers (default_serializers (jsonEager (serializationConfig s))) s' \<and>
    names_within (default_name_set \<union> range ((@) ''!custom'')) s' \<and> serializationConfig s' = serializationConfig s"
proof -
  have "has_serializers [] s" "names_within {} s" using assms by (simp_all add: has_serializers_def names_within_def)
  from register_all_new [OF default_names default_ids _ _ this, of "jsonEager (serializationConfig s)"] assms
  obtain s' where "registerDefaultSerializers s = Inr s'" "serializationConfig s' = serializationConfig s"
    "has_serializers (default_serializers (jsonEager (serializationConfig s))) s'" "names_within default_name_set s'"
    unfolding registerDefaultSerializers_def default_name_set by auto
  then show ?thesis using names_within_mono [of default_name_set s'] by blast
qed

lemma newSerializationService_ok:
  assumes "newSerializationService cfg = Inr s"
  shows "service_ok cfg s"
proof -
  let ?s0 = "\<lparr>registry = [], serializerNameToId = [], serializationConfig = cfg\<rparr>"
  obtain s1 s2 where s: "registerDefaultSerializers ?s0 = Inr s1" "registerCustomSerializers s1 = Inr s2"
      "registerGlobalSerializer s2 = Inr s"
    using assms by (auto simp: newSerializationService_def bindR_Inr_iff)
  have 1: "has_serializers (default_serializers (jsonEager cfg)) s1" "names_within (default_name_set \<union> range ((@) ''!custom'')) s1"
      "serializationConfig s1 = cfg"
    using registerDefaultSerializers_ok [of ?s0] s(1) by auto
  have 2: "has_serializers (default_serializers (jsonEager cfg)) s2" "names_within (default_name_set \<union> range ((@) ''!custom'')) s2"
      "serializationConfig s2 = cfg"
    using register_customs_keeps [OF s(2) [unfolded registerCustomSerializers_def] 1(1,2)] 1(3) by auto
  show ?thesis
  proof (cases "globalSerializer cfg")
    case None
    then have "s = s2" using s(3) 2(3) by (simp add: registerGlobalSerializer_def)
    then show ?thesis using 2 None by (simp add: service_ok_def)
  next
    case (Some c)
    then have r: "registerSerializer ''!global'' (CustomSerializer c) s2 = Inr s"
      using s(3) 2(3) by (auto simp: registerGlobalSerializer_def bindR_Inr_iff)
    have "''!global'' \<notin> fst ` set (default_serializers (jsonEager cfg) :: (string \<times> 'a serializer) list)"
      unfolding default_name_set by (rule exclamation_names(2))
    then have "has_serializers (default_serializers (jsonEager cfg)) s"
      using has_serializers_Cons [OF registerSerializer_keeps(1) [OF r 2(1)]] by blast
    then show ?thesis
      using registerSerializer_keeps(2) [OF r 2(2)] registerSerializer_effect(2) [OF r] 2(3) Some
      by (simp add: service_ok_def Un_commute)
  qed
qed

text \<open>What the service finds under the name of a type, and under the id of a serializer.\<close>

lemma found_default:
  assumes "service_ok cfg s" and "(name, ser) \<in> set (default_serializers (jsonEager cfg))"
  shows "map_of (serializerNameToId s) name = Some (serializer_id ser)" and "findSerializerById s (serializer_id ser) = Found ser"
  using assms by (auto simp: service_ok_def has_serializers_def findSerializerById_def)

lemma not_registered:
  assumes "service_ok cfg s" and "name \<notin> default_name_set" and "hd name \<noteq> CHR ''!''" 
  shows "map_of (serializerNameToId s) name = None"
  using assms by (auto simp: service_ok_def names_within_def split: if_splits)

end
