(* ===== verification/SerializationRoundtrip.thy ===== *)
theory SerializationRoundtrip
  imports SerializationProofs
begin

section \<open>Restoring what was written\<close>

subsection \<open>Writers and readers that belong together\<close>

text \<open>
  \<open>transfers be w r x bs\<close>: the writer \<open>w\<close> appends the bytes \<open>bs\<close>, and where they stand the reader \<open>r\<close> gives \<open>x\<close>
  and moves behind them.
\<close>

definition transfers :: "bool \<Rightarrow> (data_output \<Rightarrow> data_output res) \<Rightarrow> (data_input \<Rightarrow> ('a \<times> data_input) res) \<Rightarrow> 'a \<Rightarrow>
    byte list \<Rightarrow> bool" where
  "transfers be w r x bs \<longleftrightarrow>
     (\<forall>out. out_valid out \<longrightarrow> bigEndian out = be \<longrightarrow> appends (w out) out bs) \<and>
     (\<forall>inp. ibigEndian inp = be \<longrightarrow> at_bytes inp bs \<longrightarrow> r inp = Inr (x, consumed inp bs))"

lemma transfers_bind:
  assumes "transfers be w1 r1 x b1" and "transfers be w2 (r2 x) y b2"
  shows "transfers be (\<lambda>out. bindR (w1 out) w2) (\<lambda>inp. bindR (r1 inp) (\<lambda>(x, inp). r2 x inp)) y (b1 @ b2)"
  unfolding transfers_def
proof (intro conjI allI impI)
  fix out assume "out_valid out" "bigEndian out = be"
  then show "appends (bindR (w1 out) w2) out (b1 @ b2)"
    using assms by (intro appends_bind) (simp_all add: transfers_def)
next
  fix inp assume be: "ibigEndian inp = be" and at: "at_bytes inp (b1 @ b2)"
  then have "at_bytes inp b1" "at_bytes (consumed inp b1) b2" by (simp_all add: at_bytes_append)
  then show "bindR (r1 inp) (\<lambda>(x, inp). r2 x inp) = Inr (y, consumed inp (b1 @ b2))"
    using assms be by (simp add: transfers_def consumed_append)
qed

lemma transfers_nothing: "transfers be Inr (\<lambda>inp. Inr (x, inp)) x []"
  by (simp add: transfers_def appends_Inr consumed_def)

lemma transfers_cong:
  "transfers be w r x bs \<Longrightarrow> (\<And>out. w' out = w out) \<Longrightarrow> (\<And>inp. r' inp = r inp) \<Longrightarrow> transfers be w' r' x bs"
  by (simp add: transfers_def)

lemma bindR_Inr [simp]: "bindR r Inr = r"
  by (cases r) simp_all

lemma transfers_last:
  assumes "transfers be w r x bs" and "\<And>inp. f x inp = Inr (y, inp)"
  shows "transfers be w (\<lambda>inp. bindR (r inp) (\<lambda>(x, inp). f x inp)) y bs"
  using transfers_bind [OF assms(1), of Inr f y "[]"] assms(2) transfers_nothing [of be y]
  by (simp add: transfers_def)

context data_codec
begin

lemma transfers_codec: "ok v \<Longrightarrow> transfers be (\<lambda>out. wr junk v out) rd v (enc be v)"
  using wr_appends rd_at by (auto simp: transfers_def)

end

text \<open>\<open>restores\<close> hides the bytes: a reader that is given enough fuel for its nested objects, one unit per byte, restores the value.\<close>

definition restores :: "'o ser_env \<Rightarrow> 'o ser_service \<Rightarrow> (data_output \<Rightarrow> data_output res) \<Rightarrow>
    ('o reader_fn \<Rightarrow> data_input \<Rightarrow> ('a \<times> data_input) res) \<Rightarrow> 'a \<Rightarrow> bool" where
  "restores env s w r x \<longleftrightarrow>
     (\<exists>bs. \<forall>n \<ge> length bs. transfers (isBigEndian (serializationConfig s)) w (r (readObject env s n)) x bs)"

lemma restores_bind:
  assumes "restores env s w1 r1 x" and "restores env s w2 (\<lambda>ro. r2 ro x) y"
  shows "restores env s (\<lambda>out. bindR (w1 out) w2) (\<lambda>ro inp. bindR (r1 ro inp) (\<lambda>(x, inp). r2 ro x inp)) y"
proof -
  let ?be = "isBigEndian (serializationConfig s)"
  obtain b1 b2 where b: "\<And>n. n \<ge> length b1 \<Longrightarrow> transfers ?be w1 (r1 (readObject env s n)) x b1"
      "\<And>n. n \<ge> length b2 \<Longrightarrow> transfers ?be w2 (r2 (readObject env s n) x) y b2"
    using assms by (auto simp: restores_def)
  show ?thesis
    unfolding restores_def
  proof (intro exI [of _ "b1 @ b2"] allI impI)
    fix n assume "length (b1 @ b2) \<le> n"
    then show "transfers ?be (\<lambda>out. bindR (w1 out) w2)
        (\<lambda>inp. bindR (r1 (readObject env s n) inp) (\<lambda>(x, inp). r2 (readObject env s n) x inp)) y (b1 @ b2)"
      by (intro transfers_bind [where x = x] b) simp_all
  qed
qed

lemma restores_cong:
  "restores env s w r x \<Longrightarrow> (\<And>out. w' out = w out) \<Longrightarrow> (\<And>ro inp. r' ro inp = r ro inp) \<Longrightarrow> restores env s w' r' x"
  unfolding restores_def using transfers_cong by metis

lemma restores_constant:
  "transfers (isBigEndian (serializationConfig s)) w r x bs \<Longrightarrow> restores env s w (\<lambda>_. r) x"
  by (auto simp: restores_def)

lemma restores_nothing: "restores env s Inr (\<lambda>_ inp. Inr (x, inp)) x"
  by (rule restores_constant [OF transfers_nothing])

lemma restores_last:
  assumes "restores env s w r x" and "\<And>ro inp. f ro x inp = Inr (y, inp)"
  shows "restores env s w (\<lambda>ro inp. bindR (r ro inp) (\<lambda>(x, inp). f ro x inp)) y"
proof -
  have "restores env s Inr (\<lambda>ro. f ro x) y" using restores_cong [OF restores_nothing] assms(2) by metis
  from restores_bind [OF assms(1), of Inr f y, OF this] show ?thesis
    by (rule restores_cong) (auto split: sum.splits)
qed

lemma restores_value:
  assumes "restores env s w r x" shows "restores env s w (\<lambda>ro inp. as_value f (r ro inp)) (f x)"
  unfolding as_value_def using restores_last [OF assms, of "\<lambda>_ x inp. Inr (f x, inp)"] by simp

lemma restores_times:
  assumes "\<And>v. v \<in> set vs \<Longrightarrow> restores env s (w v) r v"
  shows "restores env s (for_each w vs) (\<lambda>ro. read_times (r ro) (length vs)) vs"
  using assms
proof (induction vs)
  case Nil
  show ?case by (rule restores_cong [OF restores_nothing]) auto
next
  case (Cons v vs)
  have "restores env s (for_each w vs) (\<lambda>ro inp. bindR (read_times (r ro) (length vs) inp) (\<lambda>(xs, inp). Inr (v # xs, inp))) (v # vs)"
    by (rule restores_last) (use Cons in auto)
  moreover have "restores env s (w v) r v" using Cons.prems by simp
  ultimately show ?case
    using restores_bind [of env s "w v" r v "for_each w vs" "\<lambda>ro x inp. bindR (read_times (r ro) (length vs) inp) (\<lambda>(xs, inp). Inr (x # xs, inp))"]
    by (simp add: restores_def transfers_def)
qed

lemmas restores_codec = restores_constant [OF string_codec.transfers_codec] restores_constant [OF int_codec.transfers_codec]
  restores_constant [OF bool_codec.transfers_codec] restores_constant [OF long_codec.transfers_codec]
  restores_constant [OF double_codec.transfers_codec] restores_constant [OF byte_codec.transfers_codec]

subsection \<open>What can be stored\<close>

definition int_number_ok :: "(int \<Rightarrow> bool) \<Rightarrow> 64 word \<Rightarrow> bool" where
  "int_number_ok ok d \<longleftrightarrow> (case double_trunc d of Some (n, _) \<Rightarrow> d = int_to_double n \<and> ok n | None \<Rightarrow> False)"

definition number_ok :: "'o ser_env \<Rightarrow> string \<Rightarrow> 64 word \<Rightarrow> bool" where
  "number_ok env t d \<longleftrightarrow> t = ''double'' \<or> t = ''float'' \<and> widen env (fround env d) = d \<or>
     t = ''integer'' \<and> int_number_ok (in_sint 4) d \<or> t = ''short'' \<and> int_number_ok (in_sint 2) d"

definition date_ok :: "int option \<Rightarrow> bool" where
  "date_ok t \<longleftrightarrow> (case t of None \<Rightarrow> False | Some ms \<Rightarrow> \<bar>ms\<bar> \<le> MAX_TIME)"

text \<open>Arrays: the elements are of the type of the first one, which is a type the service has an array serializer for.\<close>

fun element_ok :: "'o ser_env \<Rightarrow> string \<Rightarrow> 'o js_value \<Rightarrow> 'o js_value \<Rightarrow> bool" where
  "element_ok env t (JNumber _) v = (case v of JNumber d \<Rightarrow> number_ok env t d | _ \<Rightarrow> False)"
| "element_ok env t (JBool _) v = (case v of JBool _ \<Rightarrow> True | _ \<Rightarrow> False)"
| "element_ok env t (JString _) v = (case v of JString s \<Rightarrow> string_ok (Some s) | _ \<Rightarrow> False)"
| "element_ok env t (JLong _) v = (case v of JLong l \<Rightarrow> long_ok l | _ \<Rightarrow> False)"
| "element_ok env t _ v = False"

definition array_storable :: "'o ser_env \<Rightarrow> string \<Rightarrow> 'o js_value list \<Rightarrow> bool" where
  "array_storable env t vs \<longleftrightarrow> in_sint 4 (int (length vs)) \<and>
     (if vs = [] then t \<in> set [''double'', ''float'', ''integer'', ''short'', ''long''] else list_all (element_ok env t (hd vs)) vs)"

definition data_storable :: "heap_data option \<Rightarrow> bool" where
  "data_storable d \<longleftrightarrow> (case d of None \<Rightarrow> True
     | Some d \<Rightarrow> (case payload d of None \<Rightarrow> False
         | Some b \<Rightarrow> in_sint 4 (int (length b)) \<and> (b = [] \<or> HEAP_DATA_OVERHEAD \<le> int (length b))))"

fun storable :: "'o ser_env \<Rightarrow> 'o ser_config \<Rightarrow> 'o js_value \<Rightarrow> bool"
  and storable_object :: "'o ser_env \<Rightarrow> 'o ser_config \<Rightarrow> 'o identified \<Rightarrow> bool"
  and storable_anchor :: "'o ser_env \<Rightarrow> 'o ser_config \<Rightarrow> 'o anchor \<Rightarrow> bool" where
  "storable env cfg JNull = True"
| "storable env cfg (JBool _) = True"
| "storable env cfg (JNumber d) =
     (number_ok env (defaultNumberType cfg) d \<or> defaultNumberType cfg = ''byte'' \<and> int_number_ok (in_uint 1) d)"
| "storable env cfg (JString s) = string_ok (Some s)"
| "storable env cfg (JLong l) = long_ok l"
| "storable env cfg (JUuid u) = (long_ok (mostSignificant u) \<and> long_ok (leastSignificant u))"
| "storable env cfg (JDate t) = date_ok t"
| "storable env cfg (JBuffer b) = in_sint 4 (int (length b))"
| "storable env cfg (JArray vs) = array_storable env (defaultNumberType cfg) vs"
| "storable env cfg (JJson s) = (string_ok (Some s) \<and> \<not> jsonEager cfg \<and> globalSerializer cfg = None)"
| "storable env cfg (JIdentified x) = storable_object env cfg x"
| "storable env cfg _ = False"
| "storable_object env cfg (SqlPredicate s) = string_ok s"
| "storable_object env cfg (AndPredicate ps) = (in_sint 4 (int (length ps)) \<and> list_all (storable env cfg) ps)"
| "storable_object env cfg (BetweenPredicate f a b) = (string_ok f \<and> storable env cfg a \<and> storable env cfg b)"
| "storable_object env cfg (EqualPredicate f v) = (string_ok f \<and> storable env cfg v)"
| "storable_object env cfg (GreaterLessPredicate f v _ _) = (string_ok f \<and> storable env cfg v)"
| "storable_object env cfg (LikePredicate f e) = (string_ok f \<and> string_ok e)"
| "storable_object env cfg (ILikePredicate f e) = (string_ok f \<and> string_ok e)"
| "storable_object env cfg (InPredicate f vs) = (string_ok f \<and> in_sint 4 (int (length vs)) \<and> list_all (storable env cfg) vs)"
| "storable_object env cfg (InstanceOfPredicate c) = string_ok c"
| "storable_object env cfg (NotEqualPredicate f v) = (string_ok f \<and> storable env cfg v)"
| "storable_object env cfg (NotPredicate p) = storable env cfg p"
| "storable_object env cfg (OrPredicate ps) = (in_sint 4 (int (length ps)) \<and> list_all (storable env cfg) ps)"
| "storable_object env cfg (RegexPredicate f e) = (string_ok f \<and> string_ok e)"
| "storable_object env cfg FalsePredicate = True"
| "storable_object env cfg TruePredicate = True"
| "storable_object env cfg (PagingPredicateImpl p c page sz _ as) =
     (storable env cfg p \<and> storable env cfg c \<and> in_sint 4 page \<and> in_sint 4 sz \<and> in_sint 4 (int (length as)) \<and>
      list_all (storable_anchor env cfg) as)"
| "storable_object env cfg (Aggregator _ path) = string_ok path"
| "storable_object env cfg (RestValue v t) = (string_ok v \<and> string_ok t)"
| "storable_object env cfg (ReliableTopicMessage t a d) = (long_ok t \<and> storable env cfg a \<and> data_storable d)"
| "storable_object env cfg (AddressImpl p t h) = (in_sint 4 p \<and> in_uint 1 t \<and> string_ok h)"
| "storable_anchor env cfg (Anchor p k v) = (in_sint 4 p \<and> storable env cfg k \<and> storable env cfg v)"

subsection \<open>Scalars and arrays\<close>

text \<open>What is relied on: the laws of the \<open>long\<close> package, whose numbers have signed 32-bit halves.\<close>

definition ser_env_ok :: "'o ser_env \<Rightarrow> bool" where
  "ser_env_ok env \<longleftrightarrow> long_laws (se_longs env) \<and> (\<forall>n. long_ok (long_fromNumber (se_longs env) n))"

lemma int_number_ok_cases:
  assumes "int_number_ok ok d" and "\<And>n. ok n \<Longrightarrow> - (2 ^ 31) \<le> n \<and> n < 2 ^ 31"
  obtains n where "ok n" "d = int_to_double n" "double_trunc d = Some (n, True)" "\<not> is_nan d"
proof -
  obtain n where n: "d = int_to_double n" "ok n"
    using assms(1) by (auto simp: int_number_ok_def split: option.splits)
  have "\<bar>n\<bar> < 2 ^ 53" using assms(2) [OF n(2)] by (simp add: abs_less_iff)
  then have t: "double_trunc d = Some (n, True)" using int_to_double_trunc [of n] n(1) by simp
  then have "\<not> is_nan d" by (auto simp: is_nan_def double_trunc_def Let_def)
  with n t that show thesis by blast
qed

lemma restores_as:
  assumes "restores env s w (\<lambda>_. r) x" and "y = f x" and "\<And>out. w' out = w out"
  shows "restores env s w' (\<lambda>_ inp. as_value f (r inp)) y"
  using restores_value [OF assms(1), of f] assms(2,3) by (auto intro: restores_cong)

lemma ranged_int_exact:
  "double_trunc d = Some (n, True) \<Longrightarrow> \<not> is_nan d \<Longrightarrow> lo \<le> n \<Longrightarrow> n \<le> hi \<Longrightarrow> ranged_int lo hi d = Inr n"
  by (simp add: ranged_int_def)

lemma integers_restored:
  "int_number_ok (in_sint 2) d \<Longrightarrow>
     restores env s (scalar_write env ShortSerializer (JNumber d)) (\<lambda>_. scalar_read env ShortSerializer) (JNumber d)"
  "int_number_ok (in_sint 4) d \<Longrightarrow>
     restores env s (scalar_write env IntegerSerializer (JNumber d)) (\<lambda>_. scalar_read env IntegerSerializer) (JNumber d)"
  "int_number_ok (in_uint 1) d \<Longrightarrow>
     restores env s (scalar_write env ByteSerializer (JNumber d)) (\<lambda>_. scalar_read env ByteSerializer) (JNumber d)"
proof -
  assume "int_number_ok (in_sint 2) d"
  then obtain n where n: "in_sint 2 n" "d = int_to_double n" "double_trunc d = Some (n, True)" "\<not> is_nan d"
    by (rule int_number_ok_cases) (auto simp: in_sint_def)
  have "restores env s (scalar_write env ShortSerializer (JNumber d))
      (\<lambda>_ inp. as_value (\<lambda>n. JNumber (int_to_double n)) (readShort None inp)) (JNumber d)"
    by (rule restores_as [OF restores_constant [OF short_codec.transfers_codec [OF n(1)]]])
      (use n in \<open>auto simp: number_of_def ranged_int_exact in_sint_def\<close>)
  then show "restores env s (scalar_write env ShortSerializer (JNumber d)) (\<lambda>_. scalar_read env ShortSerializer) (JNumber d)"
    by (rule restores_cong) simp_all
next
  assume "int_number_ok (in_sint 4) d"
  then obtain n where n: "in_sint 4 n" "d = int_to_double n" "double_trunc d = Some (n, True)" "\<not> is_nan d"
    by (rule int_number_ok_cases) (auto simp: in_sint_def)
  have "restores env s (scalar_write env IntegerSerializer (JNumber d))
      (\<lambda>_ inp. as_value (\<lambda>n. JNumber (int_to_double n)) (readInt None inp)) (JNumber d)"
    by (rule restores_as [OF restores_constant [OF int_codec.transfers_codec [OF n(1)]]])
      (use n in \<open>auto simp: number_of_def ranged_int_exact in_sint_def\<close>)
  then show "restores env s (scalar_write env IntegerSerializer (JNumber d)) (\<lambda>_. scalar_read env IntegerSerializer) (JNumber d)"
    by (rule restores_cong) simp_all
next
  assume "int_number_ok (in_uint 1) d"
  then obtain n where n: "in_uint 1 n" "d = int_to_double n" "double_trunc d = Some (n, True)" "\<not> is_nan d"
    by (rule int_number_ok_cases) (auto simp: in_uint_def)
  have "restores env s (scalar_write env ByteSerializer (JNumber d))
      (\<lambda>_ inp. as_value (\<lambda>n. JNumber (int_to_double n)) (readByte None inp)) (JNumber d)"
    by (rule restores_as [OF restores_constant [OF byte_codec.transfers_codec [OF n(1)]]])
      (use n in \<open>auto simp: number_of_def bits_of_def\<close>)
  then show "restores env s (scalar_write env ByteSerializer (JNumber d)) (\<lambda>_. scalar_read env ByteSerializer) (JNumber d)"
    by (rule restores_cong) simp_all
qed

lemma plain_restored:
  "string_ok (Some str) \<Longrightarrow>
     restores env s (scalar_write env StringSerializer (JString str)) (\<lambda>_. scalar_read env StringSerializer) (JString str)"
  "restores env s (scalar_write env DoubleSerializer (JNumber d)) (\<lambda>_. scalar_read env DoubleSerializer) (JNumber d)"
  "restores env s (scalar_write env BooleanSerializer (JBool b)) (\<lambda>_. scalar_read env BooleanSerializer) (JBool b)"
  "long_ok l \<Longrightarrow>
     restores env s (scalar_write env LongSerializer (JLong l)) (\<lambda>_. scalar_read env LongSerializer) (JLong l)"
  "widen env (fround env d) = d \<Longrightarrow>
     restores env s (scalar_write env FloatSerializer (JNumber d)) (\<lambda>_. scalar_read env FloatSerializer) (JNumber d)"
  "in_sint 4 (int (length bs)) \<Longrightarrow>
     restores env s (scalar_write env ByteArraySerializer (JBuffer bs)) (\<lambda>_. scalar_read env ByteArraySerializer) (JBuffer bs)"
  "restores env s (scalar_write env NullSerializer JNull) (\<lambda>_. scalar_read env NullSerializer) JNull"
  subgoal by (rule restores_cong [OF restores_as [OF restores_constant [OF string_codec.transfers_codec]]])
      (auto simp: string_value_def)
  subgoal by (rule restores_cong [OF restores_as [OF restores_constant [OF double_codec.transfers_codec]]])
      (auto simp: number_of_def)
  subgoal by (rule restores_cong [OF restores_as [OF restores_constant [OF bool_codec.transfers_codec]]]) auto
  subgoal by (rule restores_cong [OF restores_as [OF restores_constant [OF long_codec.transfers_codec]]]) auto
  subgoal by (rule restores_cong [OF restores_as [OF restores_constant [OF float_codec.transfers_codec]]])
      (auto simp: number_of_def)
  subgoal by (rule restores_cong [OF restores_as [OF restores_constant [OF bytes_codec.transfers_codec]]])
      (auto simp: array_ok_def list_all_iff)
  subgoal by (rule restores_cong [OF restores_nothing]) auto
  done

lemma uuid_restored:
  assumes "long_ok (mostSignificant u)" "long_ok (leastSignificant u)"
  shows "restores env s (scalar_write env UuidSerializer (JUuid u)) (\<lambda>_. scalar_read env UuidSerializer) (JUuid u)"
proof -
  have "restores env s (\<lambda>out. bindR (writeLong (memory env) (mostSignificant u) out) (writeLong (memory env) (leastSignificant u)))
      (\<lambda>_ inp. bindR (readLong None inp) (\<lambda>(m, inp). bindR (readLong None inp) (\<lambda>(l, inp).
        Inr (JUuid \<lparr>mostSignificant = m, leastSignificant = l\<rparr>, inp)))) (JUuid u)"
    by (rule restores_bind [OF restores_constant [OF long_codec.transfers_codec [OF assms(1)]]],
        rule restores_last [OF restores_constant [OF long_codec.transfers_codec [OF assms(2)]]]) simp
  then show ?thesis by (rule restores_cong) simp_all
qed

lemma date_restored:
  assumes "ser_env_ok env" "date_ok t"
  shows "restores env s (scalar_write env DateSerializer (JDate t)) (\<lambda>_. scalar_read env DateSerializer) (JDate t)"
proof -
  let ?L = "se_longs env"
  obtain ms where ms: "t = Some ms" "\<bar>ms\<bar> \<le> MAX_TIME" using assms(2) by (auto simp: date_ok_def split: option.splits)
  then have b: "\<bar>ms\<bar> < 2 ^ 53" by (simp add: MAX_TIME_def)
  have L: "long_laws ?L" "long_ok (long_fromNumber ?L ms)" using assms(1) by (simp_all add: ser_env_ok_def)
  have "long_toNumber ?L (long_fromNumber ?L ms) = ms"
    using long_lawsD(1,10) [OF L(1)] b by simp
  then have "restores env s (scalar_write env DateSerializer (JDate t))
      (\<lambda>_ inp. as_value (\<lambda>l. new_Date (long_toNumber ?L l)) (readLong None inp)) (JDate t)"
    by (intro restores_as [OF restores_constant [OF long_codec.transfers_codec [OF L(2)]]]) (use ms in \<open>auto simp: new_Date_def\<close>)
  then show ?thesis by (rule restores_cong) simp_all
qed

lemma array_restored:
  assumes "in_sint 4 (int (length vs))" and "\<And>v. v \<in> set vs \<Longrightarrow> restores env s (scalar_write env el v) (\<lambda>_. scalar_read env el) v"
  shows "restores env s (array_write env el (JArray vs)) (\<lambda>_. array_read env el) (JArray vs)"
proof -
  have "restores env s (for_each (scalar_write env el) vs) (\<lambda>_. read_times (scalar_read env el) (length vs)) vs"
    using restores_times [of vs env s "scalar_write env el" "\<lambda>_. scalar_read env el"] assms(2) by blast
  then have "restores env s (\<lambda>out. bindR (writeInt (memory env) (int (length vs)) out) (for_each (scalar_write env el) vs))
      (\<lambda>_ inp. bindR (readInt None inp) (\<lambda>(len, inp). if len = NULL_ARRAY_LENGTH then Inr (None, inp)
         else bindR (read_times (scalar_read env el) (nat len) inp) (\<lambda>(xs, inp). Inr (Some xs, inp)))) (Some vs)"
    by (intro restores_bind [OF restores_constant [OF int_codec.transfers_codec [OF assms(1)]]])
      (simp add: size_defs, rule restores_last, auto)
  then have "restores env s (\<lambda>out. writeArray (memory env) (scalar_write env el) (Some vs) out)
      (\<lambda>_. readArray (scalar_read env el) None) (Some vs)"
    by (rule restores_cong) (auto simp: writeArray_def readArray_def Let_def intro!: arg_cong2 [of _ _ _ _ bindR])
  from restores_value [OF this, of "\<lambda>vs. case vs of None \<Rightarrow> JNull | Some vs \<Rightarrow> JArray vs"]
  have "restores env s (\<lambda>out. writeArray (memory env) (scalar_write env el) (Some vs) out)
      (\<lambda>_ inp. as_value (\<lambda>vs. case vs of None \<Rightarrow> JNull | Some vs \<Rightarrow> JArray vs) (readArray (scalar_read env el) None inp)) (JArray vs)"
    by simp
  then show ?thesis by (rule restores_cong) (simp_all add: array_write_def array_read_def)
qed

subsection \<open>The serializers that are chosen\<close>

text \<open>
  \<open>stores env s v\<close>: the service has a serializer for \<open>v\<close> that restores it, and finds it again by its id.
\<close>

definition stores :: "'o ser_env \<Rightarrow> 'o ser_service \<Rightarrow> 'o js_value \<Rightarrow> bool" where
  "stores env s v \<longleftrightarrow>
     (\<exists>ser. findSerializerFor env s v = Inr ser \<and> findSerializerById s (serializer_id ser) = Found ser \<and>
        in_sint 4 (serializer_id ser) \<and>
        restores env s (serializer_write env (writeData_of env s) ser v) (\<lambda>ro. serializer_read env ro ser) v)"

lemma found_by_name:
  assumes "service_ok cfg s" and "(name, ser) \<in> set (default_serializers (jsonEager cfg))"
  shows "findSerializerByName s name False = (if name = ''number'' \<or> name = ''buffer'' then findSerializerByName s name False else Found ser)"
    and "t @ ''Array'' = name \<Longrightarrow> t \<noteq> ''number'' \<Longrightarrow> t \<noteq> ''buffer'' \<Longrightarrow> findSerializerByName s t True = Found ser"
    and "defaultNumberType cfg = name \<Longrightarrow> findSerializerByName s ''number'' False = Found ser"
    and "defaultNumberType cfg @ ''Array'' = name \<Longrightarrow> findSerializerByName s ''number'' True = Found ser"
    and "name = ''byteArray'' \<Longrightarrow> findSerializerByName s ''buffer'' False = Found ser"
  using found_default [OF assms] assms(1) by (auto simp: findSerializerByName_def service_ok_def)

lemma scalar_chosen:
  assumes "lookupDefaultSerializer env s v = Inr (Found ser)" and "v \<noteq> JUndefined" "v \<noteq> JNull"
  shows "findSerializerFor env s v = Inr ser"
  using assms by (simp add: findSerializerFor_def or_else_def)

lemma default_member [simp]:
  "(''string'', StringSerializer) \<in> set (default_serializers b)" "(''double'', DoubleSerializer) \<in> set (default_serializers b)"
  "(''byte'', ByteSerializer) \<in> set (default_serializers b)" "(''boolean'', BooleanSerializer) \<in> set (default_serializers b)"
  "(''null'', NullSerializer) \<in> set (default_serializers b)" "(''short'', ShortSerializer) \<in> set (default_serializers b)"
  "(''integer'', IntegerSerializer) \<in> set (default_serializers b)" "(''long'', LongSerializer) \<in> set (default_serializers b)"
  "(''float'', FloatSerializer) \<in> set (default_serializers b)" "(''date'', DateSerializer) \<in> set (default_serializers b)"
  "(''byteArray'', ByteArraySerializer) \<in> set (default_serializers b)"
  "(''booleanArray'', BooleanArraySerializer) \<in> set (default_serializers b)"
  "(''shortArray'', ShortArraySerializer) \<in> set (default_serializers b)"
  "(''integerArray'', IntegerArraySerializer) \<in> set (default_serializers b)"
  "(''longArray'', LongArraySerializer) \<in> set (default_serializers b)"
  "(''doubleArray'', DoubleArraySerializer) \<in> set (default_serializers b)"
  "(''stringArray'', StringArraySerializer) \<in> set (default_serializers b)"
  "(''floatArray'', FloatArraySerializer) \<in> set (default_serializers b)"
  "(''uuid'', UuidSerializer) \<in> set (default_serializers b)"
  "(''identified'', IdentifiedDataSerializableSerializer) \<in> set (default_serializers b)"
  "(''!json'', HazelcastJsonValueSerializer) \<in> set (default_serializers False)"
  by (simp_all add: default_serializers_def)

lemma stores_default:
  assumes "service_ok cfg s" and "(name, ser) \<in> set (default_serializers (jsonEager cfg))"
    and "lookupDefaultSerializer env s v = Inr (Found ser)" "v \<noteq> JUndefined" "v \<noteq> JNull" "in_sint 4 (serializer_id ser)"
    and "restores env s (serializer_write env (writeData_of env s) ser v) (\<lambda>ro. serializer_read env ro ser) v"
  shows "stores env s v"
  using scalar_chosen [OF assms(3-5)] found_default(2) [OF assms(1,2)] assms(6,7) by (auto simp: stores_def)

lemmas lookup_defs = lookupDefaultSerializer_def isIdentifiedDataSerializable_def isPortableSerializable_def

lemma by_type:
  assumes "service_ok cfg s"
  shows "lookupDefaultSerializer env s (JBool b) = Inr (Found BooleanSerializer)"
    and "lookupDefaultSerializer env s (JString str) = Inr (Found StringSerializer)"
    and "lookupDefaultSerializer env s (JLong l) = Inr (Found LongSerializer)"
    and "lookupDefaultSerializer env s (JUuid u) = Inr (Found UuidSerializer)"
    and "lookupDefaultSerializer env s (JDate t) = Inr (Found DateSerializer)"
    and "lookupDefaultSerializer env s (JBuffer bs) = Inr (Found ByteArraySerializer)"
    and "lookupDefaultSerializer env s (JIdentified x) = Inr (Found IdentifiedDataSerializableSerializer)"
  using found_by_name(1) [OF assms, of "''boolean''" BooleanSerializer] found_by_name(1) [OF assms, of "''string''" StringSerializer]
    found_by_name(1) [OF assms, of "''long''" LongSerializer] found_by_name(1) [OF assms, of "''uuid''" UuidSerializer]
    found_by_name(1) [OF assms, of "''date''" DateSerializer] found_by_name(5) [OF assms, of "''byteArray''" ByteArraySerializer]
    found_by_name(1) [OF assms, of "''identified''" IdentifiedDataSerializableSerializer]
  by (simp_all add: lookup_defs)

lemma number_by_type:
  assumes "service_ok cfg s" and "(defaultNumberType cfg, ser) \<in> set (default_serializers (jsonEager cfg))"
  shows "lookupDefaultSerializer env s (JNumber d) = Inr (Found ser)"
  using found_by_name(3) [OF assms] by (simp add: lookup_defs)

lemma in_sint_ids: "in_sint 4 n \<longleftrightarrow> - 2147483648 \<le> n \<and> n < 2147483648"
  by (simp add: in_sint_def)

lemma stores_scalar:
  assumes "service_ok cfg s" "(name, ser) \<in> set (default_serializers (jsonEager cfg))"
    and "lookupDefaultSerializer env s v = Inr (Found ser)" "v \<noteq> JUndefined" "v \<noteq> JNull" "in_sint 4 (serializer_id ser)"
    and "restores env s (scalar_write env ser v) (\<lambda>_. scalar_read env ser) v"
    and "\<And>w. serializer_write env w ser v = scalar_write env ser v" "\<And>ro. serializer_read env ro ser = scalar_read env ser"
  shows "stores env s v"
  by (rule stores_default [OF assms(1-6)]) (use assms(7-9) in simp)

lemma scalar_serializers:
  assumes "ser \<in> {StringSerializer, DoubleSerializer, BooleanSerializer, NullSerializer, ShortSerializer, IntegerSerializer,
    LongSerializer, FloatSerializer, DateSerializer, ByteSerializer, ByteArraySerializer, UuidSerializer}"
  shows "serializer_write env w ser v = scalar_write env ser v" "serializer_read env ro ser = scalar_read env ser"
    "in_sint 4 (serializer_id ser)"
  using assms by (auto simp: serializer_write_def serializer_read_def fun_eq_iff in_sint_ids NULL_TYPE_ID_def)

lemma scalars_stored:
  assumes s: "service_ok cfg s" and env: "ser_env_ok env"
  shows "stores env s (JBool b)"
    and "string_ok (Some str) \<Longrightarrow> stores env s (JString str)"
    and "long_ok l \<Longrightarrow> stores env s (JLong l)"
    and "long_ok (mostSignificant u) \<Longrightarrow> long_ok (leastSignificant u) \<Longrightarrow> stores env s (JUuid u)"
    and "date_ok t \<Longrightarrow> stores env s (JDate t)"
    and "in_sint 4 (int (length bs)) \<Longrightarrow> stores env s (JBuffer bs)"
  subgoal by (rule stores_scalar [OF s default_member(4) by_type(1) [OF s]]) (auto simp: scalar_serializers in_sint_ids plain_restored)
  subgoal by (rule stores_scalar [OF s default_member(1) by_type(2) [OF s]]) (auto simp: scalar_serializers in_sint_ids plain_restored)
  subgoal by (rule stores_scalar [OF s default_member(8) by_type(3) [OF s]]) (auto simp: scalar_serializers in_sint_ids plain_restored)
  subgoal by (rule stores_scalar [OF s default_member(19) by_type(4) [OF s]]) (auto simp: scalar_serializers in_sint_ids uuid_restored)
  subgoal by (rule stores_scalar [OF s default_member(10) by_type(5) [OF s]]) (auto simp: scalar_serializers in_sint_ids date_restored [OF env])
  subgoal by (rule stores_scalar [OF s default_member(11) by_type(6) [OF s]]) (auto simp: scalar_serializers in_sint_ids plain_restored)
  done

lemma null_stored:
  assumes "service_ok cfg s"
  shows "stores env s JNull"
proof -
  have "findSerializerByName s ''null'' False = Found NullSerializer"
    using found_by_name(1) [OF assms, of "''null''" NullSerializer] by simp
  then have "findSerializerFor env s JNull = Inr NullSerializer" by (simp add: findSerializerFor_def or_else_def)
  then show ?thesis
    using found_default(2) [OF assms default_member(5)] plain_restored(7) [of env s]
    by (auto simp: stores_def scalar_serializers in_sint_ids NULL_TYPE_ID_def)
qed

lemma number_stored:
  assumes s: "service_ok cfg s" and "storable env cfg (JNumber d)"
  shows "stores env s (JNumber d)"
proof -
  have ok: "stores env s (JNumber d)"
    if "(defaultNumberType cfg, ser) \<in> set (default_serializers (jsonEager cfg))"
      "ser \<in> {DoubleSerializer, FloatSerializer, IntegerSerializer, ShortSerializer, ByteSerializer}"
      "restores env s (scalar_write env ser (JNumber d)) (\<lambda>_. scalar_read env ser) (JNumber d)" for ser
    by (rule stores_scalar [OF s that(1) number_by_type [OF s that(1)]]) (use that(2,3) in \<open>auto simp: scalar_serializers in_sint_ids\<close>)
  consider "defaultNumberType cfg = ''double''" | "defaultNumberType cfg = ''float''" "widen env (fround env d) = d"
    | "defaultNumberType cfg = ''integer''" "int_number_ok (in_sint 4) d" | "defaultNumberType cfg = ''short''" "int_number_ok (in_sint 2) d"
    | "defaultNumberType cfg = ''byte''" "int_number_ok (in_uint 1) d"
    using assms(2) by (auto simp: number_ok_def)
  then show ?thesis
  proof cases
    case 1
    then show ?thesis using ok [of DoubleSerializer] plain_restored(2) [of env s d] by simp
  next
    case 2
    then show ?thesis using ok [of FloatSerializer] plain_restored(5) [of env d s] by simp
  next
    case 3
    then show ?thesis using ok [of IntegerSerializer] integers_restored(2) [of d env s] by simp
  next
    case 4
    then show ?thesis using ok [of ShortSerializer] integers_restored(1) [of d env s] by simp
  next
    case 5
    then show ?thesis using ok [of ByteSerializer] integers_restored(3) [of d env s] by simp
  qed
qed

subsection \<open>Arrays\<close>

lemma array_serializers:
  assumes "element_serializer ser = Some el"
  shows "serializer_write env w ser v = array_write env el v" "serializer_read env ro ser = array_read env el"
    "in_sint 4 (serializer_id ser)"
  using assms by (cases ser; auto simp: serializer_write_def serializer_read_def fun_eq_iff in_sint_ids)+

lemma array_stored_with:
  assumes s: "service_ok cfg s" and "(name, ser) \<in> set (default_serializers (jsonEager cfg))" "element_serializer ser = Some el"
    and "lookupDefaultSerializer env s (JArray vs) = Inr (Found ser)" "in_sint 4 (int (length vs))"
    and "\<And>v. v \<in> set vs \<Longrightarrow> restores env s (scalar_write env el v) (\<lambda>_. scalar_read env el) v"
  shows "stores env s (JArray vs)"
  by (rule stores_default [OF s assms(2,4)]) (use array_restored [OF assms(5,6)] in \<open>simp_all add: array_serializers [OF assms(3)]\<close>)

lemma array_by_type:
  assumes "service_ok cfg s"
  shows "(defaultNumberType cfg @ ''Array'', ser) \<in> set (default_serializers (jsonEager cfg)) \<Longrightarrow>
      vs = [] \<or> (\<exists>d. hd vs = JNumber d) \<Longrightarrow> lookupDefaultSerializer env s (JArray vs) = Inr (Found ser)"
    and "lookupDefaultSerializer env s (JArray (JBool b # vs)) = Inr (Found BooleanArraySerializer)"
    and "lookupDefaultSerializer env s (JArray (JString str # vs)) = Inr (Found StringArraySerializer)"
    and "lookupDefaultSerializer env s (JArray (JLong l # vs)) = Inr (Found LongArraySerializer)"
  using found_by_name(4) [OF assms] found_by_name(2) [OF assms, of "''booleanArray''" BooleanArraySerializer "''boolean''"]
    found_by_name(2) [OF assms, of "''stringArray''" StringArraySerializer "''string''"]
    found_by_name(2) [OF assms, of "''longArray''" LongArraySerializer "''long''"]
  by (auto simp: lookup_defs neq_Nil_conv split: list.split)

lemma number_array_stored:
  assumes s: "service_ok cfg s" and len: "in_sint 4 (int (length vs))"
    and vs: "vs = [] \<and> defaultNumberType cfg \<in> set [''double'', ''float'', ''integer'', ''short'', ''long''] \<or>
      vs \<noteq> [] \<and> (\<forall>v \<in> set vs. \<exists>d. v = JNumber d \<and> number_ok env (defaultNumberType cfg) d)"
  shows "stores env s (JArray vs)"
proof -
  have hd: "vs = [] \<or> (\<exists>d. hd vs = JNumber d)" using vs hd_in_set by blast
  have ok: "stores env s (JArray vs)"
    if "(defaultNumberType cfg @ ''Array'', ser) \<in> set (default_serializers (jsonEager cfg))" "element_serializer ser = Some el"
      "\<And>d. JNumber d \<in> set vs \<Longrightarrow> restores env s (scalar_write env el (JNumber d)) (\<lambda>_. scalar_read env el) (JNumber d)"
    for ser el
    by (rule array_stored_with [OF s that(1,2) array_by_type(1) [OF s that(1) hd] len]) (use that(3) vs in force)
  have num: "number_ok env (defaultNumberType cfg) d" if "JNumber d \<in> set vs" for d using vs that by force
  consider "defaultNumberType cfg = ''double''" | "defaultNumberType cfg = ''float''" | "defaultNumberType cfg = ''integer''"
    | "defaultNumberType cfg = ''short''" | "defaultNumberType cfg = ''long''" "vs = []"
  proof (cases vs)
    case Nil
    then show ?thesis using vs that by auto
  next
    case (Cons v ws)
    then obtain d where "number_ok env (defaultNumberType cfg) d" using vs by auto
    then show ?thesis using that by (auto simp: number_ok_def)
  qed
  then show ?thesis
  proof cases
    case 1
    show ?thesis by (rule ok [of DoubleArraySerializer DoubleSerializer]) (simp_all add: 1 plain_restored)
  next
    case 2
    then have "widen env (fround env d) = d" if "JNumber d \<in> set vs" for d using num [OF that] by (auto simp: number_ok_def)
    then show ?thesis by (intro ok [of FloatArraySerializer FloatSerializer]) (simp_all add: 2 plain_restored)
  next
    case 3
    then have "int_number_ok (in_sint 4) d" if "JNumber d \<in> set vs" for d using num [OF that] by (auto simp: number_ok_def)
    then show ?thesis by (intro ok [of IntegerArraySerializer IntegerSerializer]) (simp_all add: 3 integers_restored)
  next
    case 4
    then have "int_number_ok (in_sint 2) d" if "JNumber d \<in> set vs" for d using num [OF that] by (auto simp: number_ok_def)
    then show ?thesis by (intro ok [of ShortArraySerializer ShortSerializer]) (simp_all add: 4 integers_restored)
  next
    case 5
    show ?thesis by (rule ok [of LongArraySerializer LongSerializer]) (simp_all add: 5)
  qed
qed

lemma array_stored:
  assumes s: "service_ok cfg s" and "array_storable env (defaultNumberType cfg) vs"
  shows "stores env s (JArray vs)"
proof (cases vs)
  case Nil
  then show ?thesis using number_array_stored [OF s, of vs env] assms(2) by (auto simp: array_storable_def)
next
  case (Cons v ws)
  have len: "in_sint 4 (int (length vs))" and el: "\<And>x. x \<in> set vs \<Longrightarrow> element_ok env (defaultNumberType cfg) v x"
    using assms(2) Cons by (auto simp: array_storable_def list_all_iff)
  have "element_ok env (defaultNumberType cfg) v v" using el Cons by simp
  then consider (num) d where "v = JNumber d" | (bool) b where "v = JBool b" | (str) str where "v = JString str"
    | (long) l where "v = JLong l"
    by (cases v) auto
  then show ?thesis
  proof cases
    case num
    then have "\<forall>x \<in> set vs. \<exists>d. x = JNumber d \<and> number_ok env (defaultNumberType cfg) d"
      using el by (force split: js_value.splits)
    then show ?thesis using number_array_stored [OF s len] num Cons by auto
  next
    case bool
    have all: "restores env s (scalar_write env BooleanSerializer x) (\<lambda>_. scalar_read env BooleanSerializer) x" if "x \<in> set vs" for x
      using el [OF that] bool by (cases x) (auto simp: plain_restored)
    show ?thesis
      by (rule array_stored_with [OF s default_member(12) _ array_by_type(2) [OF s, of env b ws, folded bool, folded Cons] len all]) simp_all
  next
    case str
    have all: "restores env s (scalar_write env StringSerializer x) (\<lambda>_. scalar_read env StringSerializer) x" if "x \<in> set vs" for x
      using el [OF that] str by (cases x) (auto simp: plain_restored)
    show ?thesis
      by (rule array_stored_with [OF s default_member(17) _ array_by_type(3) [OF s, of env str ws, folded str, folded Cons] len all]) simp_all
  next
    case long
    have all: "restores env s (scalar_write env LongSerializer x) (\<lambda>_. scalar_read env LongSerializer) x" if "x \<in> set vs" for x
      using el [OF that] long by (cases x) (auto simp: plain_restored)
    show ?thesis
      by (rule array_stored_with [OF s default_member(15) _ array_by_type(4) [OF s, of env l ws, folded long, folded Cons] len all]) simp_all
  qed
qed

end
