(* ===== verification/SerializationObjects.thy ===== *)
theory SerializationObjects
  imports SerializationRoundtrip
begin

section \<open>Nested objects, and the data of a value\<close>

text \<open>
  Predicates, aggregators and the other identified objects are restored, with the values inside them: one lemma per class, and
  an induction over the nesting. At the end, what a serializer transfers is what \<open>toData\<close> and \<open>toObject\<close> transfer.
\<close>

declare writeObject.simps [simp del] readObject.simps [simp del]

subsection \<open>Objects inside objects\<close>

lemma enc_int_length [simp]: "length (enc_int be n) = 4"
  by (simp add: enc_int_def)

lemma restores_nested:
  assumes "stores env s v"
  shows "restores env s (writeObject env s v) (\<lambda>ro. ro) v"
proof -
  let ?be = "isBigEndian (serializationConfig s)"
  obtain ser bs where ser: "findSerializerFor env s v = Inr ser" "findSerializerById s (serializer_id ser) = Found ser"
      "in_sint 4 (serializer_id ser)"
    and bs: "\<And>n. n \<ge> length bs \<Longrightarrow>
      transfers ?be (serializer_write env (writeData_of env s) ser v) (serializer_read env (readObject env s n) ser) v bs"
    using assms by (auto simp: stores_def restores_def)
  show ?thesis
    unfolding restores_def
  proof (intro exI [of _ "enc_int ?be (serializer_id ser) @ bs"] allI impI)
    fix n assume "length (enc_int ?be (serializer_id ser) @ bs) \<le> n"
    then obtain m where m: "n = Suc m" "length bs \<le> m" by (cases n) auto
    have "transfers ?be (\<lambda>out. bindR (writeInt (memory env) (serializer_id ser) out) (serializer_write env (writeData_of env s) ser v))
        (\<lambda>inp. bindR (readInt None inp) (\<lambda>(i, inp). case findSerializerById s i of
           Found ser \<Rightarrow> serializer_read env (readObject env s m) ser inp | _ \<Rightarrow> Inl TypeError)) v (enc_int ?be (serializer_id ser) @ bs)"
      by (rule transfers_bind [OF int_codec.transfers_codec [OF ser(3)]]) (use bs [OF m(2)] ser(2) in simp)
    then show "transfers ?be (writeObject env s v) (readObject env s n) v (enc_int ?be (serializer_id ser) @ bs)"
      by (rule transfers_cong) (simp_all add: writeObject.simps readObject.simps ser(1) m(1))
  qed
qed

lemma write_objects_for_each: "write_objects env s vs = for_each (writeObject env s) vs"
proof (induction vs)
  case (Cons v vs)
  then show ?case by (intro ext) simp
qed (simp add: fun_eq_iff)

lemma write_anchors_for_each: "write_anchors env s as = for_each (\<lambda>a. write_anchors env s [a]) as"
proof (induction as)
  case (Cons a as)
  have "write_anchors env s (a # as) = for_each (\<lambda>a. write_anchors env s [a]) (a # as)"
    if "write_anchors env s as = for_each (\<lambda>a. write_anchors env s [a]) as"
    by (cases a, intro ext) (simp add: that bindR_assoc)
  then show ?case using Cons by blast
qed (simp add: fun_eq_iff)

text \<open>The combinators of the readers.\<close>

lemma restores_string_then:
  "string_ok str \<Longrightarrow> restores env s w (\<lambda>ro. f ro str) y \<Longrightarrow>
     restores env s (\<lambda>out. bindR (writeString (memory env) str out) w) (\<lambda>ro. read_string_then (f ro)) y"
  unfolding read_string_then_def by (rule restores_bind [OF restores_constant [OF string_codec.transfers_codec]])

lemma restores_string_last:
  "string_ok str \<Longrightarrow> (\<And>ro inp. f ro str inp = Inr (y, inp)) \<Longrightarrow>
     restores env s (writeString (memory env) str) (\<lambda>ro. read_string_then (f ro)) y"
  unfolding read_string_then_def by (rule restores_last [OF restores_constant [OF string_codec.transfers_codec]])

lemma restores_nested_then:
  "stores env s v \<Longrightarrow> restores env s w (\<lambda>ro. f ro v) y \<Longrightarrow>
     restores env s (\<lambda>out. bindR (writeObject env s v out) w) (\<lambda>ro. read_nested_then ro (f ro)) y"
  unfolding read_nested_then_def by (rule restores_bind [OF restores_nested])

lemma restores_nested_last:
  "stores env s v \<Longrightarrow> (\<And>ro inp. f ro v inp = Inr (y, inp)) \<Longrightarrow>
     restores env s (writeObject env s v) (\<lambda>ro. read_nested_then ro (f ro)) y"
  unfolding read_nested_then_def by (rule restores_last [OF restores_nested])

lemma restores_int_then:
  "in_sint 4 n \<Longrightarrow> restores env s w (\<lambda>ro. f ro n) y \<Longrightarrow>
     restores env s (\<lambda>out. bindR (writeInt (memory env) n out) w) (\<lambda>ro. read_int_then (f ro)) y"
  unfolding read_int_then_def by (rule restores_bind [OF restores_constant [OF int_codec.transfers_codec]])

lemma restores_counted:
  assumes "in_sint 4 (int (length xs))" and "\<And>x. x \<in> set xs \<Longrightarrow> restores env s (w x) r x"
  shows "restores env s (\<lambda>out. bindR (writeInt (memory env) (int (length xs)) out) (for_each w xs))
    (\<lambda>ro. read_counted (r ro) f) (f xs)"
  unfolding read_counted_def
  by (rule restores_bind [OF restores_constant [OF int_codec.transfers_codec [OF assms(1)]]])
    (simp, rule restores_last [OF restores_times], auto intro: assms(2))

lemmas restores_intros = restores_string_then restores_string_last restores_nested_then restores_nested_last
  restores_int_then

lemma restores_bool_then:
  "restores env s w (\<lambda>ro. f ro b) y \<Longrightarrow>
     restores env s (\<lambda>out. bindR (writeBoolean (memory env) b out) w) (\<lambda>ro inp. bindR (readBoolean None inp) (\<lambda>(b, inp). f ro b inp)) y"
  by (rule restores_bind [OF restores_constant [OF bool_codec.transfers_codec]]) simp_all

lemma restores_bool_last:
  "(\<And>ro inp. f ro b inp = Inr (y, inp)) \<Longrightarrow>
     restores env s (writeBoolean (memory env) b) (\<lambda>ro inp. bindR (readBoolean None inp) (\<lambda>(b, inp). f ro b inp)) y"
  by (rule restores_last [OF restores_constant [OF bool_codec.transfers_codec]]) simp_all

lemma restores_byte_then:
  "in_uint 1 b \<Longrightarrow> restores env s w (\<lambda>ro. f ro b) y \<Longrightarrow>
     restores env s (\<lambda>out. bindR (writeByte (memory env) b out) w) (\<lambda>ro inp. bindR (readByte None inp) (\<lambda>(b, inp). f ro b inp)) y"
  by (rule restores_bind [OF restores_constant [OF byte_codec.transfers_codec]])

lemma restores_long_then:
  "long_ok l \<Longrightarrow> restores env s w (\<lambda>ro. f ro l) y \<Longrightarrow>
     restores env s (\<lambda>out. bindR (writeLong (memory env) l out) w) (\<lambda>ro inp. bindR (readLong None inp) (\<lambda>(l, inp). f ro l inp)) y"
  by (rule restores_bind [OF restores_constant [OF long_codec.transfers_codec]])

subsection \<open>Predicates\<close>

lemma predicate_writers:
  "writeData_of env s (SqlPredicate f) = writeString (memory env) f"
  "writeData_of env s (AndPredicate ps) = (\<lambda>out. bindR (writeInt (memory env) (int (length ps)) out) (for_each (writeObject env s) ps))"
  "writeData_of env s (BetweenPredicate f a b) = (\<lambda>out. bindR (writeString (memory env) f out) (\<lambda>out. bindR (writeObject env s b out) (writeObject env s a)))"
  "writeData_of env s (EqualPredicate f v) = (\<lambda>out. bindR (writeString (memory env) f out) (writeObject env s v))"
  "writeData_of env s (GreaterLessPredicate f v eq lt) = (\<lambda>out. bindR (writeString (memory env) f out) (\<lambda>out. bindR (writeObject env s v out)
     (\<lambda>out. bindR (writeBoolean (memory env) eq out) (writeBoolean (memory env) lt))))"
  "writeData_of env s (LikePredicate f e) = (\<lambda>out. bindR (writeString (memory env) f out) (writeString (memory env) e))"
  "writeData_of env s (ILikePredicate f e) = (\<lambda>out. bindR (writeString (memory env) f out) (writeString (memory env) e))"
  "writeData_of env s (InPredicate f vs) = (\<lambda>out. bindR (writeString (memory env) f out)
     (\<lambda>out. bindR (writeInt (memory env) (int (length vs)) out) (for_each (writeObject env s) vs)))"
  "writeData_of env s (InstanceOfPredicate f) = writeString (memory env) f"
  "writeData_of env s (NotEqualPredicate f v) = (\<lambda>out. bindR (writeString (memory env) f out) (writeObject env s v))"
  "writeData_of env s (NotPredicate v) = writeObject env s v"
  "writeData_of env s (OrPredicate ps) = (\<lambda>out. bindR (writeInt (memory env) (int (length ps)) out) (for_each (writeObject env s) ps))"
  "writeData_of env s (RegexPredicate f e) = (\<lambda>out. bindR (writeString (memory env) f out) (writeString (memory env) e))"
  "writeData_of env s FalsePredicate = Inr"
  "writeData_of env s TruePredicate = Inr"
  by (simp_all add: fun_eq_iff write_objects_for_each)

lemma predicate_readers:
  "predicateFactory ro 0 = read_string_then (\<lambda>f inp. Inr (SqlPredicate f, inp))"
  "predicateFactory ro 1 = read_counted ro AndPredicate"
  "predicateFactory ro 2 = read_string_then (\<lambda>f. read_nested_then ro (\<lambda>b. read_nested_then ro (\<lambda>a inp. Inr (BetweenPredicate f a b, inp))))"
  "predicateFactory ro 3 = read_string_then (\<lambda>f. read_nested_then ro (\<lambda>v inp. Inr (EqualPredicate f v, inp)))"
  "predicateFactory ro 4 = read_string_then (\<lambda>f. read_nested_then ro (\<lambda>v inp. bindR (readBoolean None inp) (\<lambda>(eq, inp).
     bindR (readBoolean None inp) (\<lambda>(lt, inp). Inr (GreaterLessPredicate f v eq lt, inp)))))"
  "predicateFactory ro 5 = read_string_then (\<lambda>f. read_string_then (\<lambda>e inp. Inr (LikePredicate f e, inp)))"
  "predicateFactory ro 6 = read_string_then (\<lambda>f. read_string_then (\<lambda>e inp. Inr (ILikePredicate f e, inp)))"
  "predicateFactory ro 7 = read_string_then (\<lambda>f. read_counted ro (InPredicate f))"
  "predicateFactory ro 8 = read_string_then (\<lambda>f inp. Inr (InstanceOfPredicate f, inp))"
  "predicateFactory ro 9 = read_string_then (\<lambda>f. read_nested_then ro (\<lambda>v inp. Inr (NotEqualPredicate f v, inp)))"
  "predicateFactory ro 10 = read_nested_then ro (\<lambda>v inp. Inr (NotPredicate v, inp))"
  "predicateFactory ro 11 = read_counted ro OrPredicate"
  "predicateFactory ro 12 = read_string_then (\<lambda>f. read_string_then (\<lambda>e inp. Inr (RegexPredicate f e, inp)))"
  "predicateFactory ro 13 = (\<lambda>inp. Inr (FalsePredicate, inp))"
  "predicateFactory ro 14 = (\<lambda>inp. Inr (TruePredicate, inp))"
  by (simp_all add: fun_eq_iff predicateFactory_def)

text \<open>The predicates, given that the values they contain are stored.\<close>

lemma predicates_restored:
  "string_ok f \<Longrightarrow> restores env s (writeData_of env s (SqlPredicate f)) (\<lambda>ro. predicateFactory ro 0) (SqlPredicate f)"
  "in_sint 4 (int (length vs)) \<Longrightarrow> (\<And>v. v \<in> set vs \<Longrightarrow> stores env s v) \<Longrightarrow>
     restores env s (writeData_of env s (AndPredicate vs)) (\<lambda>ro. predicateFactory ro 1) (AndPredicate vs)"
  "string_ok f \<Longrightarrow> stores env s a \<Longrightarrow> stores env s b \<Longrightarrow>
     restores env s (writeData_of env s (BetweenPredicate f a b)) (\<lambda>ro. predicateFactory ro 2) (BetweenPredicate f a b)"
  "string_ok f \<Longrightarrow> stores env s v \<Longrightarrow>
     restores env s (writeData_of env s (EqualPredicate f v)) (\<lambda>ro. predicateFactory ro 3) (EqualPredicate f v)"
  "string_ok f \<Longrightarrow> stores env s v \<Longrightarrow>
     restores env s (writeData_of env s (GreaterLessPredicate f v eq lt)) (\<lambda>ro. predicateFactory ro 4) (GreaterLessPredicate f v eq lt)"
  "string_ok f \<Longrightarrow> string_ok e \<Longrightarrow> restores env s (writeData_of env s (LikePredicate f e)) (\<lambda>ro. predicateFactory ro 5) (LikePredicate f e)"
  "string_ok f \<Longrightarrow> string_ok e \<Longrightarrow> restores env s (writeData_of env s (ILikePredicate f e)) (\<lambda>ro. predicateFactory ro 6) (ILikePredicate f e)"
  "string_ok f \<Longrightarrow> in_sint 4 (int (length vs)) \<Longrightarrow> (\<And>v. v \<in> set vs \<Longrightarrow> stores env s v) \<Longrightarrow>
     restores env s (writeData_of env s (InPredicate f vs)) (\<lambda>ro. predicateFactory ro 7) (InPredicate f vs)"
  "string_ok f \<Longrightarrow> restores env s (writeData_of env s (InstanceOfPredicate f)) (\<lambda>ro. predicateFactory ro 8) (InstanceOfPredicate f)"
  "string_ok f \<Longrightarrow> stores env s v \<Longrightarrow>
     restores env s (writeData_of env s (NotEqualPredicate f v)) (\<lambda>ro. predicateFactory ro 9) (NotEqualPredicate f v)"
  "stores env s v \<Longrightarrow> restores env s (writeData_of env s (NotPredicate v)) (\<lambda>ro. predicateFactory ro 10) (NotPredicate v)"
  "in_sint 4 (int (length vs)) \<Longrightarrow> (\<And>v. v \<in> set vs \<Longrightarrow> stores env s v) \<Longrightarrow>
     restores env s (writeData_of env s (OrPredicate vs)) (\<lambda>ro. predicateFactory ro 11) (OrPredicate vs)"
  "string_ok f \<Longrightarrow> string_ok e \<Longrightarrow> restores env s (writeData_of env s (RegexPredicate f e)) (\<lambda>ro. predicateFactory ro 12) (RegexPredicate f e)"
  "restores env s (writeData_of env s FalsePredicate) (\<lambda>ro. predicateFactory ro 13) FalsePredicate"
  "restores env s (writeData_of env s TruePredicate) (\<lambda>ro. predicateFactory ro 14) TruePredicate"
  unfolding predicate_writers predicate_readers
  by (rule restores_nothing restores_bool_then restores_bool_last restores_counted restores_nested restores_intros refl | assumption)+

lemma iteration_restored:
  "iteration_of (map_option iteration_name it) = it" "string_ok (map_option iteration_name it)"
proof -
  have "well_formed_utf16 (iteration_name i) \<and> in_sint 4 (int (length (utf8_encode (iteration_name i))))" for i
    by (cases i) (simp_all add: js_ascii_def is_high_def is_low_def utf8_encode_def unit_scalar_def utf8_scalar_def in_sint_def)
  then show "string_ok (map_option iteration_name it)" by (cases it) (simp_all add: string_ok_def)
  show "iteration_of (map_option iteration_name it) = it"
    by (cases it; cases "the it") (simp_all add: iteration_of_def js_ascii_def)
qed

lemma anchor_restored:
  assumes "in_sint 4 p" "stores env s k" "stores env s v"
  shows "restores env s (write_anchors env s [Anchor p k v]) (\<lambda>ro. read_anchor ro) (Anchor p k v)"
proof -
  have w: "write_anchors env s [Anchor p k v] = (\<lambda>out. bindR (writeInt (memory env) p out)
      (\<lambda>out. bindR (writeObject env s k out) (writeObject env s v)))"
  proof -
    have e: "write_anchors env s [] = Inr" by (rule ext) simp
    show ?thesis by (rule ext) (simp add: e)
  qed
  show ?thesis
    unfolding w read_anchor_def by (rule restores_intros refl assms)+
qed

lemma paging_restored:
  assumes "stores env s p" "stores env s c" "in_sint 4 page" "in_sint 4 sz" "in_sint 4 (int (length as))"
    and "\<And>a. a \<in> set as \<Longrightarrow> restores env s (write_anchors env s [a]) (\<lambda>ro. read_anchor ro) a"
  shows "restores env s (writeData_of env s (PagingPredicateImpl p c page sz it as)) (\<lambda>ro. predicateFactory ro 15)
    (PagingPredicateImpl p c page sz it as)"
proof -
  have w: "writeData_of env s (PagingPredicateImpl p c page sz it as) = (\<lambda>out. bindR (writeObject env s p out) (\<lambda>out.
      bindR (writeObject env s c out) (\<lambda>out. bindR (writeInt (memory env) page out) (\<lambda>out. bindR (writeInt (memory env) sz out) (\<lambda>out.
      bindR (writeString (memory env) (map_option iteration_name it) out) (\<lambda>out.
      bindR (writeInt (memory env) (int (length as)) out) (for_each (\<lambda>a. write_anchors env s [a]) as)))))))"
    by (simp add: fun_eq_iff write_anchors_for_each [of env s as])
  have r: "predicateFactory ro 15 = read_nested_then ro (\<lambda>p. read_nested_then ro (\<lambda>c. read_int_then (\<lambda>page. read_int_then (\<lambda>sz.
      read_string_then (\<lambda>it. read_counted (read_anchor ro) (PagingPredicateImpl p c page sz (iteration_of it)))))))" for ro :: "'a reader_fn"
    by (simp add: fun_eq_iff predicateFactory_def)
  have "restores env s (\<lambda>out. bindR (writeInt (memory env) (int (length as)) out) (for_each (\<lambda>a. write_anchors env s [a]) as))
      (\<lambda>ro. read_counted (read_anchor ro) (PagingPredicateImpl p c page sz it)) (PagingPredicateImpl p c page sz it as)"
    by (rule restores_counted [OF assms(5,6)])
  then have "restores env s (\<lambda>out. bindR (writeInt (memory env) (int (length as)) out) (for_each (\<lambda>a. write_anchors env s [a]) as))
      (\<lambda>ro. read_counted (read_anchor ro) (PagingPredicateImpl p c page sz (iteration_of (map_option iteration_name it))))
      (PagingPredicateImpl p c page sz it as)"
    by (simp add: iteration_restored(1))
  then show ?thesis
    unfolding w r by (intro restores_nested_then restores_int_then restores_string_then iteration_restored(2) assms)
qed

subsection \<open>Aggregators and the others\<close>

lemma zero_long_ok: "long_ok \<lparr>low = 0, high = 0\<rparr>"
  by (simp add: long_ok_def in_sint_def)

lemma write_null_writeObject: "write_null env s = writeObject env s JNull"
proof (intro ext)
  fix out
  have "serializer_write env (\<lambda>_. Inr) ser JNull = serializer_write env (writeData_of env s) ser JNull" for ser
    by (intro ext serializer_write_cong) simp_all
  then show "write_null env s out = writeObject env s JNull out" by (simp add: write_null_def writeObject.simps)
qed

lemma aggregator_id: "map_of aggregator_ids (aggregator_classId c) = Some c"
  by (cases c) (simp_all add: aggregator_ids_def)

lemma aggregator_body_restored:
  assumes "stores env s JNull"
  shows "restores env s (aggregator_writeData (memory env) (writeObject env s JNull) c) (\<lambda>ro. aggregator_readData ro c) ()"
proof -
  let ?long = "writeLong (memory env) \<lparr>low = 0, high = 0\<rparr>" and ?double = "write_double (memory env) 0"
  let ?rl = "\<lambda>inp. bindR (readLong None inp) (\<lambda>(_, inp). Inr ((), inp))"
  let ?rd = "\<lambda>inp. bindR (read_double None inp) (\<lambda>(_, inp). Inr ((), inp))"
  have l: "restores env s ?long (\<lambda>_. ?rl) ()"
    by (rule restores_last [OF restores_constant [OF long_codec.transfers_codec [OF zero_long_ok]]]) simp
  have d: "restores env s ?double (\<lambda>_. ?rd) ()"
    by (rule restores_last [OF restores_constant [OF double_codec.transfers_codec]]) simp_all
  have o: "restores env s (writeObject env s JNull) (\<lambda>ro inp. bindR (ro inp) (\<lambda>(_, inp). Inr ((), inp))) ()"
    by (rule restores_last [OF restores_nested [OF assms]]) simp
  have ll: "restores env s (\<lambda>out. bindR (?long out) ?long) (\<lambda>_ inp. bindR (?rl inp) (\<lambda>(_, inp). ?rl inp)) ()"
    by (rule restores_bind [OF l]) (rule l)
  have dl: "restores env s (\<lambda>out. bindR (?double out) ?long) (\<lambda>_ inp. bindR (?rd inp) (\<lambda>(_, inp). ?rl inp)) ()"
    by (rule restores_bind [OF d]) (rule l)
  show ?thesis
    by (cases c) (rule restores_cong [OF l] restores_cong [OF d] restores_cong [OF o] restores_cong [OF ll] restores_cong [OF dl],
      simp_all add: Let_def; fail)+
qed

lemma aggregator_restored:
  assumes "stores env s JNull" "string_ok path"
  shows "restores env s (writeData_of env s (Aggregator c path)) (\<lambda>ro. aggregatorFactory ro (aggregator_classId c)) (Aggregator c path)"
proof -
  have w: "writeData_of env s (Aggregator c path) = (\<lambda>out. bindR (writeString (memory env) path out)
      (aggregator_writeData (memory env) (writeObject env s JNull) c))"
    by (rule ext) (simp add: write_null_writeObject del: aggregator_writeData.simps)
  have r: "aggregatorFactory ro (aggregator_classId c) = read_string_then (\<lambda>path inp.
      bindR (aggregator_readData ro c inp) (\<lambda>(_, inp). Inr (Aggregator c path, inp)))" for ro :: "'a reader_fn"
    by (rule ext) (simp add: aggregatorFactory_def aggregator_id del: aggregator_readData.simps)
  show ?thesis
    unfolding w r
    by (rule restores_string_then [OF assms(2)], rule restores_last [OF aggregator_body_restored [OF assms(1)]]) simp
qed

lemma rest_value_restored:
  assumes "string_ok v" "string_ok t"
  shows "restores env s (writeData_of env s (RestValue v t)) (\<lambda>_. restValueFactory 1) (RestValue v t)"
proof -
  have w: "writeData_of env s (RestValue v t) = (\<lambda>out. bindR (writeString (memory env) v out) (writeString (memory env) t))"
    by (rule ext) simp
  have r: "restValueFactory 1 = read_string_then (\<lambda>v. read_string_then (\<lambda>t inp. Inr (RestValue v t, inp)))"
    by (rule ext) (simp add: restValueFactory_def)
  show ?thesis unfolding w r by (rule restores_intros assms refl)+
qed

lemma address_restored:
  assumes "in_sint 4 p" "in_uint 1 t" "string_ok h"
  shows "restores env s (writeData_of env s (AddressImpl p t h)) (\<lambda>_. clusterDataFactory 1) (AddressImpl p t h)"
proof -
  have w: "writeData_of env s (AddressImpl p t h) = (\<lambda>out. bindR (writeInt (memory env) p out) (\<lambda>out.
      bindR (writeByte (memory env) t out) (writeString (memory env) h)))"
    by (rule ext) simp
  have r: "clusterDataFactory 1 = read_int_then (\<lambda>p inp. bindR (readByte None inp) (\<lambda>(t, inp).
      read_string_then (\<lambda>h inp. Inr (AddressImpl p t h, inp)) inp))"
    by (rule ext) (simp add: clusterDataFactory_def)
  show ?thesis unfolding w r by (rule restores_byte_then restores_intros assms refl)+
qed

text \<open>Binary data inside an object: the bytes are written one by one and read as an array.\<close>

lemma bytes_written: "out_valid out \<Longrightarrow> appends (for_each (\<lambda>x. write_out junk (Number (uint x))) bs out) out bs"
proof (induction bs arbitrary: out)
  case (Cons b bs)
  have "appends (bindR (write_out junk (Number (uint b)) out) (for_each (\<lambda>x. write_out junk (Number (uint x))) bs)) out ([b] @ bs)"
  proof (rule appends_bind)
    show "appends (write_out junk (Number (uint b)) out) out [b]"
      using byte_codec.wr_appends [OF Cons.prems, of "uint b" junk] uint_lt2p [of b]
      by (simp add: writeByte_def enc_byte_def in_uint_def del: write_out.simps)
  qed (use Cons.IH in blast)
  then show ?case by (simp del: write_out.simps)
qed (simp add: appends_Inr)

lemma data_restored:
  assumes "data_storable d"
  shows "restores env s (writeData (memory env) d) (\<lambda>_. readData) d"
proof -
  let ?b = "case d of None \<Rightarrow> None | Some d \<Rightarrow> payload d" and ?be = "isBigEndian (serializationConfig s)"
  have ok: "array_ok (\<lambda>_. True) ?b"
    using assms by (auto simp: data_storable_def array_ok_def list_all_iff split: option.splits)
  have "appends (writeData (memory env) d out) out (enc_bytes ?be ?b)" if out: "out_valid out" "bigEndian out = ?be" for out
  proof (cases ?b)
    case None
    then show ?thesis
      using appends_null [OF out(1), of "memory env"] out(2) by (auto simp: writeData_def toBuffer_def enc_bytes_def split: option.splits)
  next
    case (Some bs)
    have "appends (bindR (writeInt (memory env) (int (length bs)) out) (for_each (\<lambda>x. write_out (memory env) (Number (uint x))) bs)) out
        (enc_int (bigEndian out) (int (length bs)) @ bs)"
      by (rule appends_bind [OF int_codec.wr_appends [OF out(1)]]) (use ok Some bytes_written in \<open>auto simp: array_ok_def\<close>)
    then show ?thesis
      using Some out(2) by (auto simp: writeData_def toBuffer_def enc_bytes_def Let_def split: option.splits simp del: write_out.simps)
  qed
  moreover have "readData inp = Inr (d, consumed inp (enc_bytes ?be ?b))" if "ibigEndian inp = ?be" "at_bytes inp (enc_bytes ?be ?b)" for inp
    using bytes_codec.rd_at [of inp ?b, OF _ ok] that assms
    by (auto simp: readData_def data_storable_def HeapData_def split: option.splits)
  ultimately have "transfers ?be (writeData (memory env) d) readData d (enc_bytes ?be ?b)" by (simp add: transfers_def)
  then show ?thesis by (rule restores_constant)
qed

lemma topic_message_restored:
  assumes "long_ok t" "stores env s a" "data_storable d"
  shows "restores env s (writeData_of env s (ReliableTopicMessage t a d)) (\<lambda>ro. reliableTopicMessageFactory ro 2) (ReliableTopicMessage t a d)"
proof -
  have w: "writeData_of env s (ReliableTopicMessage t a d) = (\<lambda>out. bindR (writeLong (memory env) t out) (\<lambda>out.
      bindR (writeObject env s a out) (writeData (memory env) d)))"
    by (rule ext) simp
  have r: "reliableTopicMessageFactory ro 2 = (\<lambda>inp. bindR (readLong None inp) (\<lambda>(t, inp). read_nested_then ro (\<lambda>a inp.
      bindR (readData inp) (\<lambda>(d, inp). Inr (ReliableTopicMessage t a d, inp))) inp))" for ro :: "'a reader_fn"
    by (rule ext) (simp add: reliableTopicMessageFactory_def)
  show ?thesis
    unfolding w r
    by (rule restores_long_then [OF assms(1)], rule restores_nested_then [OF assms(2)],
        rule restores_last [OF data_restored [OF assms(3)]]) simp
qed

subsection \<open>Every value that can be stored is restored\<close>

definition read_object_body :: "'o ser_env \<Rightarrow> 'o reader_fn \<Rightarrow> int \<Rightarrow> int \<Rightarrow> 'o reader_fn" where
  "read_object_body env ro fid cid inp =
     (if fid = PREDICATE_FACTORY_ID then as_value JIdentified (predicateFactory ro cid inp)
      else if fid = RELIABLE_TOPIC_MESSAGE_FACTORY_ID then as_value JIdentified (reliableTopicMessageFactory ro cid inp)
      else if fid = CLUSTER_DATA_FACTORY_ID then as_value JIdentified (clusterDataFactory cid inp)
      else if fid = AGGREGATOR_FACTORY_ID then as_value JIdentified (aggregatorFactory ro cid inp)
      else if fid = REST_VALUE_FACTORY_ID then as_value JIdentified (restValueFactory cid inp)
      else case user_factories env fid of None \<Rightarrow> Inl RangeError | Some f \<Rightarrow> f cid inp)"

lemma object_ids: "in_sint 4 (factoryId x)" "in_sint 4 (classId x)"
proof -
  show "in_sint 4 (factoryId x)" by (cases x) (simp_all add: in_sint_ids)
  have "in_sint 4 (aggregator_classId c)" for c by (cases c) (simp_all add: in_sint_ids)
  then show "in_sint 4 (classId x)" by (cases x) (simp_all add: in_sint_ids)
qed

lemma identified_stored:
  assumes s: "service_ok cfg s"
    and body: "restores env s (writeData_of env s x) (\<lambda>ro. read_object_body env ro (factoryId x) (classId x)) (JIdentified x)"
  shows "stores env s (JIdentified x)"
proof (rule stores_default [OF s default_member(20) by_type(7) [OF s]])
  have r: "identified_read env ro = (\<lambda>inp. bindR (readBoolean None inp) (\<lambda>(b, inp).
      (if \<not> b then (\<lambda>_. Inl RangeError) else read_int_then (\<lambda>fid. read_int_then (read_object_body env ro fid))) inp))" for ro
    by (rule ext) (auto simp: identified_read_def read_object_body_def read_int_then_def fun_eq_iff intro!: arg_cong2 [of _ _ _ _ bindR])
  have w: "identified_write env (writeData_of env s) (JIdentified x) = (\<lambda>out. bindR (writeBoolean (memory env) True out)
      (\<lambda>out. bindR (writeInt (memory env) (factoryId x) out) (\<lambda>out. bindR (writeInt (memory env) (classId x) out) (writeData_of env s x))))"
    by (rule ext) (simp add: identified_write_def)
  have "restores env s (\<lambda>out. bindR (writeInt (memory env) (factoryId x) out) (\<lambda>out. bindR (writeInt (memory env) (classId x) out) (writeData_of env s x)))
      (\<lambda>ro. read_int_then (\<lambda>fid. read_int_then (read_object_body env ro fid))) (JIdentified x)"
    by (intro restores_int_then object_ids body)
  then have "restores env s (identified_write env (writeData_of env s) (JIdentified x)) (\<lambda>ro. identified_read env ro) (JIdentified x)"
    unfolding w r by (intro restores_bool_then) simp
  then show "restores env s (serializer_write env (writeData_of env s) IdentifiedDataSerializableSerializer (JIdentified x))
      (\<lambda>ro. serializer_read env ro IdentifiedDataSerializableSerializer) (JIdentified x)"
    by (rule restores_cong) (simp_all add: serializer_write_def serializer_read_def)
qed (simp_all add: in_sint_ids)

lemma object_stored:
  assumes s: "service_ok cfg s" and r: "restores env s (writeData_of env s x) r x"
    and "\<And>ro inp. read_object_body env ro (factoryId x) (classId x) inp = as_value JIdentified (r ro inp)"
  shows "stores env s (JIdentified x)"
  by (rule identified_stored [OF s]) (rule restores_cong [OF restores_value [OF r]], simp_all add: assms(3))

lemma json_stored:
  assumes s: "service_ok cfg s" and ok: "string_ok (Some str)" "\<not> jsonEager cfg" "globalSerializer cfg = None"
  shows "stores env s (JJson str)"
proof -
  have none: "map_of (serializerNameToId s) ''object'' = None"
    by (rule not_registered [OF s]) (simp_all add: default_name_set_def default_serializers_def)
  have "''!global'' \<notin> range ((@) ''!custom'')" by auto
  then have glob: "map_of (serializerNameToId s) ''!global'' = None"
    using s ok(3) exclamation_names(2) by (auto simp: service_ok_def names_within_def)
  have mem: "(''!json'', HazelcastJsonValueSerializer) \<in> set (default_serializers (jsonEager cfg))" using ok(2) by simp
  have json: "findSerializerByName s ''!json'' False = Found HazelcastJsonValueSerializer"
    using found_by_name(1) [OF s mem] by simp
  have "findSerializerFor env s (JJson str) = Inr HazelcastJsonValueSerializer"
    using none glob json
    by (simp add: findSerializerFor_def lookup_defs findSerializerByName_def [of s "''object''"] lookupCustomSerializer_def
        lookupGlobalSerializer_def findSerializerByName_def [of s "''!global''"] or_else_def)
  moreover have "restores env s (json_write env (JJson str)) (\<lambda>_. json_value_read) (JJson str)"
    using restores_last [OF restores_constant [OF string_codec.transfers_codec [OF ok(1)]], of "\<lambda>_ s inp. case s of None \<Rightarrow> Inl AssertionError | Some s \<Rightarrow> Inr (JJson s, inp)"]
    by (rule restores_cong) (simp_all add: json_write_def json_value_read_def)
  ultimately show ?thesis
    using found_default(2) [OF s mem]
    by (auto simp: stores_def serializer_write_def [abs_def] serializer_read_def [abs_def] in_sint_ids)
qed

lemmas object_simps = read_object_body_def list_all_iff

lemma storable_stores:
  assumes s: "service_ok cfg s" and env: "ser_env_ok env"
  shows "storable env cfg v \<Longrightarrow> stores env s v"
    and "storable_object env cfg x \<Longrightarrow> stores env s (JIdentified x)"
    and "storable_anchor env cfg a \<Longrightarrow> restores env s (write_anchors env s [a]) (\<lambda>ro. read_anchor ro) a"
proof (induction v and x and a)
  case (JNumber d)
  then show ?case by (rule number_stored [OF s])
next
  case (JArray vs)
  then show ?case by (simp add: array_stored [OF s])
next
  case (SqlPredicate f)
  show ?case by (rule object_stored [OF s predicates_restored(1)]) (use SqlPredicate in \<open>simp_all add: object_simps\<close>)
next
  case (AndPredicate vs)
  show ?case by (rule object_stored [OF s predicates_restored(2)]) (use AndPredicate in \<open>simp_all add: object_simps\<close>)
next
  case (BetweenPredicate f a b)
  show ?case by (rule object_stored [OF s predicates_restored(3)]) (use BetweenPredicate in \<open>simp_all add: object_simps\<close>)
next
  case (EqualPredicate f v)
  show ?case by (rule object_stored [OF s predicates_restored(4)]) (use EqualPredicate in \<open>simp_all add: object_simps\<close>)
next
  case (GreaterLessPredicate f v eq lt)
  show ?case by (rule object_stored [OF s predicates_restored(5)]) (use GreaterLessPredicate in \<open>simp_all add: object_simps\<close>)
next
  case (LikePredicate f e)
  show ?case by (rule object_stored [OF s predicates_restored(6)]) (use LikePredicate in \<open>simp_all add: object_simps\<close>)
next
  case (ILikePredicate f e)
  show ?case by (rule object_stored [OF s predicates_restored(7)]) (use ILikePredicate in \<open>simp_all add: object_simps\<close>)
next
  case (InPredicate f vs)
  show ?case by (rule object_stored [OF s predicates_restored(8)]) (use InPredicate in \<open>simp_all add: object_simps\<close>)
next
  case (InstanceOfPredicate f)
  show ?case by (rule object_stored [OF s predicates_restored(9)]) (use InstanceOfPredicate in \<open>simp_all add: object_simps\<close>)
next
  case (NotEqualPredicate f v)
  show ?case by (rule object_stored [OF s predicates_restored(10)]) (use NotEqualPredicate in \<open>simp_all add: object_simps\<close>)
next
  case (NotPredicate v)
  show ?case by (rule object_stored [OF s predicates_restored(11)]) (use NotPredicate in \<open>simp_all add: object_simps\<close>)
next
  case (OrPredicate vs)
  show ?case by (rule object_stored [OF s predicates_restored(12)]) (use OrPredicate in \<open>simp_all add: object_simps\<close>)
next
  case (RegexPredicate f e)
  show ?case by (rule object_stored [OF s predicates_restored(13)]) (use RegexPredicate in \<open>simp_all add: object_simps\<close>)
next
  case FalsePredicate
  show ?case by (rule object_stored [OF s predicates_restored(14)]) (simp_all add: object_simps)
next
  case TruePredicate
  show ?case by (rule object_stored [OF s predicates_restored(15)]) (simp_all add: object_simps)
next
  case (PagingPredicateImpl p c page sz it as)
  show ?case by (rule object_stored [OF s paging_restored]) (use PagingPredicateImpl in \<open>simp_all add: object_simps\<close>)
next
  case (Aggregator c path)
  show ?case by (rule object_stored [OF s aggregator_restored [OF null_stored [OF s]]])
      (use Aggregator in \<open>simp_all add: object_simps\<close>)
next
  case (RestValue v t)
  show ?case by (rule object_stored [OF s rest_value_restored]) (use RestValue in \<open>simp_all add: object_simps\<close>)
next
  case (ReliableTopicMessage t a d)
  show ?case by (rule object_stored [OF s topic_message_restored]) (use ReliableTopicMessage in \<open>simp_all add: object_simps\<close>)
next
  case (AddressImpl p t h)
  show ?case by (rule object_stored [OF s address_restored]) (use AddressImpl in \<open>simp_all add: object_simps\<close>)
next
  case (Anchor p k v)
  show ?case by (rule anchor_restored) (use Anchor in simp_all)
qed (simp_all add: null_stored [OF s] scalars_stored [OF s env] json_stored [OF s])

subsection \<open>Binary data\<close>

lemma toData_plain:
  assumes "storable env cfg v"
  shows "toData env s v = bindR (findSerializerFor env s v) (\<lambda>ser. write_payload env s ser v 0)"
  using assms by (cases v) (simp_all add: defaultPartitionStrategy_def)

lemma payload_written:
  assumes be: "isBigEndian (serializationConfig s) = be" and ids: "in_sint 4 (serializer_id ser)"
    and w: "\<And>out. out_valid out \<Longrightarrow> bigEndian out = be \<Longrightarrow> appends (serializer_write env (writeData_of env s) ser v out) out bs"
  shows "write_payload env s ser v 0 = Inr \<lparr>payload = Some (enc_int True 0 @ enc_int True (serializer_id ser) @ bs)\<rparr>"
proof -
  obtain out where out: "ObjectDataOutput (memory env) be = Inr out"
    by (simp add: ObjectDataOutput_def allocUnsafe_def OUTPUT_BUFFER_INITIAL_SIZE_def heap_data_offsets size_defs)
  note o = fresh_output [OF out]
  let ?w = "\<lambda>out. bindR (writeIntBE (memory env) 0 out) (\<lambda>out. bindR (writeIntBE (memory env) (serializer_id ser) out)
    (serializer_write env (writeData_of env s) ser v))"
  have "appends (?w out) out (enc_int True 0 @ enc_int True (serializer_id ser) @ bs)"
    using o ids w by (intro appends_bind writeIntBE_appends) (simp_all add: in_sint_ids)
  then obtain out' where r: "?w out = Inr out'" and b: "output_toBuffer out' = enc_int True 0 @ enc_int True (serializer_id ser) @ bs"
    using o by (auto simp: appends_def)
  obtain o1 o2 where "writeIntBE (memory env) 0 out = Inr o1" "writeIntBE (memory env) (serializer_id ser) o1 = Inr o2"
      "serializer_write env (writeData_of env s) ser v o2 = Inr out'"
    using r by (auto simp: bindR_Inr_iff)
  then show ?thesis using out be by (simp add: write_payload_def b HeapData_def heap_data_offsets size_defs)
qed

lemma payload_type:
  assumes "in_sint 4 n" shows "getType \<lparr>payload = Some (enc_int True h @ enc_int True n @ bs)\<rparr> = Inr n"
  using assms by (simp add: getType_def totalSize_def heap_data_offsets size_defs buf_read_sint_def buf_get_def enc_int_def)

text \<open>What a serializer transfers, the service transfers.\<close>

lemma data_transferred:
  fixes s :: "'o ser_service"
  defines "be \<equiv> isBigEndian (serializationConfig s)"
  assumes "toData env s v = bindR (findSerializerFor env s v) (\<lambda>ser. write_payload env s ser v 0)"
    and ser: "findSerializerFor env s v = Inr ser" "findSerializerById s (serializer_id ser) = Found ser" "in_sint 4 (serializer_id ser)"
    and tr: "\<And>n. n \<ge> length bs \<Longrightarrow>
      transfers be (serializer_write env (writeData_of env s) ser v) (serializer_read env (readObject env s n) ser) v' bs"
  shows "\<exists>d b. toData env s v = Inr d \<and> payload d = Some b \<and> (\<forall>fuel \<ge> length b. toObject env s fuel (JData d) = Inr v')"
proof -
  let ?b = "enc_int True 0 @ enc_int True (serializer_id ser) @ bs"
  have "write_payload env s ser v 0 = Inr \<lparr>payload = Some ?b\<rparr>"
    by (rule payload_written [OF refl ser(3)]) (use tr [of "length bs"] in \<open>simp add: transfers_def be_def\<close>)
  then have "toData env s v = Inr \<lparr>payload = Some ?b\<rparr>" using ser(1) assms(2) by simp
  moreover have "toObject env s fuel (JData \<lparr>payload = Some ?b\<rparr>) = Inr v'" if "length ?b \<le> fuel" for fuel
  proof -
    let ?inp = "ObjectDataInput ?b DATA_OFFSET be"
    have "at_bytes ?inp bs" by (simp add: at_bytes_def ObjectDataInput_def heap_data_offsets size_defs)
    then have "serializer_read env (readObject env s fuel) ser ?inp = Inr (v', consumed ?inp bs)"
      using tr [of fuel] that by (simp add: transfers_def ObjectDataInput_def)
    then show ?thesis using ser(2,3) by (simp add: toObject_def payload_type toBuffer_def be_def)
  qed
  ultimately show ?thesis by auto
qed

end
