(* ===== verification/SerializationTypes.thy ===== *)
theory SerializationTypes
  imports SerializationTheorems
begin

section \<open>The types of the values that are read\<close>

text \<open>
  Type soundness of the readers: whatever bytes the data holds, a value that is read has the type its serializer stands for, and
  so has every value inside it. \<open>typed\<close> is the typing relation; the values that JSON, portable and custom serializers and user
  factories give are not restricted.
\<close>

subsection \<open>The typing relation\<close>

definition number_in :: "(int \<Rightarrow> bool) \<Rightarrow> 'o js_value \<Rightarrow> bool" where
  "number_in ok v = (case v of JNumber d \<Rightarrow> (case double_trunc d of Some (n, exact) \<Rightarrow> exact \<and> ok n | None \<Rightarrow> False) | _ \<Rightarrow> False)"

fun scalar_type :: "'o serializer \<Rightarrow> 'o js_value \<Rightarrow> bool" where
  "scalar_type StringSerializer v = (case v of JNull \<Rightarrow> True | JString _ \<Rightarrow> True | _ \<Rightarrow> False)"
| "scalar_type JavaClassSerializer v = (case v of JNull \<Rightarrow> True | JString _ \<Rightarrow> True | _ \<Rightarrow> False)"
| "scalar_type CharSerializer v = (case v of JString s \<Rightarrow> length s = 1 | _ \<Rightarrow> False)"
| "scalar_type DoubleSerializer v = (case v of JNumber _ \<Rightarrow> True | _ \<Rightarrow> False)"
| "scalar_type FloatSerializer v = (case v of JNumber _ \<Rightarrow> True | _ \<Rightarrow> False)"
| "scalar_type BooleanSerializer v = (case v of JBool _ \<Rightarrow> True | _ \<Rightarrow> False)"
| "scalar_type NullSerializer v = (v = JNull)"
| "scalar_type ByteSerializer v = number_in (in_uint 1) v"
| "scalar_type ShortSerializer v = number_in (in_sint 2) v"
| "scalar_type IntegerSerializer v = number_in (in_sint 4) v"
| "scalar_type LongSerializer v = (case v of JLong l \<Rightarrow> long_ok l | _ \<Rightarrow> False)"
| "scalar_type DateSerializer v = (case v of JDate t \<Rightarrow> pred_option (\<lambda>ms. \<bar>ms\<bar> \<le> MAX_TIME) t | _ \<Rightarrow> False)"
| "scalar_type ByteArraySerializer v = (case v of JNull \<Rightarrow> True | JBuffer _ \<Rightarrow> True | _ \<Rightarrow> False)"
| "scalar_type UuidSerializer v =
     (case v of JUuid u \<Rightarrow> long_ok (mostSignificant u) \<and> long_ok (leastSignificant u) | _ \<Rightarrow> False)"
| "scalar_type _ v = False"

text \<open>The values inside an identified object, and the ranges of its integer fields.\<close>

fun inner_values :: "'o identified \<Rightarrow> 'o js_value list" where
  "inner_values (AndPredicate ps) = ps"
| "inner_values (BetweenPredicate _ a b) = [a, b]"
| "inner_values (EqualPredicate _ v) = [v]"
| "inner_values (GreaterLessPredicate _ v _ _) = [v]"
| "inner_values (InPredicate _ vs) = vs"
| "inner_values (NotEqualPredicate _ v) = [v]"
| "inner_values (NotPredicate p) = [p]"
| "inner_values (OrPredicate ps) = ps"
| "inner_values (PagingPredicateImpl p c _ _ _ as) = p # c # concat (map (\<lambda>a. case a of Anchor _ k v \<Rightarrow> [k, v]) as)"
| "inner_values (ReliableTopicMessage _ a _) = [a]"
| "inner_values _ = []"

fun fields_in_range :: "'o identified \<Rightarrow> bool" where
  "fields_in_range (PagingPredicateImpl _ _ page sz _ as) =
     (in_sint 4 page \<and> in_sint 4 sz \<and> list_all (\<lambda>a. case a of Anchor p _ _ \<Rightarrow> in_sint 4 p) as)"
| "fields_in_range (ReliableTopicMessage t _ _) = long_ok t"
| "fields_in_range (AddressImpl p t _) = (in_sint 4 p \<and> in_uint 1 t)"
| "fields_in_range _ = True"

inductive typed :: "'o ser_env \<Rightarrow> 'o ser_service \<Rightarrow> 'o serializer \<Rightarrow> 'o js_value \<Rightarrow> bool" for env s where
  scalar: "scalar_type ser v \<Longrightarrow> typed env s ser v"
| null_array: "element_serializer ser = Some el \<Longrightarrow> typed env s ser JNull"
| array: "element_serializer ser = Some el \<Longrightarrow> list_all (scalar_type el) vs \<Longrightarrow> typed env s ser (JArray vs)"
| null_list: "ser \<in> {LinkedListSerializer, ArrayListSerializer} \<Longrightarrow> typed env s ser JNull"
| listed: "ser \<in> {LinkedListSerializer, ArrayListSerializer} \<Longrightarrow>
    (\<And>x. x \<in> set vs \<Longrightarrow> \<exists>i ser'. findSerializerById s i = Found ser' \<and> typed env s ser' x) \<Longrightarrow> typed env s ser (JArray vs)"
| object: "fields_in_range x \<Longrightarrow>
    (\<And>v. v \<in> set (inner_values x) \<Longrightarrow> \<exists>i ser'. findSerializerById s i = Found ser' \<and> typed env s ser' v) \<Longrightarrow>
    typed env s IdentifiedDataSerializableSerializer (JIdentified x)"
| user_object: "user_factories env fid = Some f \<Longrightarrow> f cid inp = Inr (v, inp') \<Longrightarrow>
    fid \<notin> {PREDICATE_FACTORY_ID, RELIABLE_TOPIC_MESSAGE_FACTORY_ID, CLUSTER_DATA_FACTORY_ID, AGGREGATOR_FACTORY_ID, REST_VALUE_FACTORY_ID} \<Longrightarrow>
    typed env s IdentifiedDataSerializableSerializer v"
| json_value: "typed env s HazelcastJsonValueSerializer (JJson str)"
| json: "parseJson env str = Inr v \<Longrightarrow> typed env s JsonSerializer v"
| portable: "portable_read env inp = Inr (v, inp') \<Longrightarrow> typed env s PortableSerializer v"
| custom: "cs_read c inp = Inr (v, inp') \<Longrightarrow> typed env s (CustomSerializer c) v"

definition known :: "'o ser_env \<Rightarrow> 'o ser_service \<Rightarrow> 'o js_value \<Rightarrow> bool" where
  "known env s v \<longleftrightarrow> (\<exists>i ser. findSerializerById s i = Found ser \<and> typed env s ser v)"

subsection \<open>Readers give typed values\<close>

text \<open>\<open>gives rd P\<close>: every value the reader gives satisfies \<open>P\<close>.\<close>

definition gives :: "(data_input \<Rightarrow> ('a \<times> data_input) res) \<Rightarrow> ('a \<Rightarrow> bool) \<Rightarrow> bool" where
  "gives rd P \<longleftrightarrow> (\<forall>inp v inp'. rd inp = Inr (v, inp') \<longrightarrow> P v)"

lemma gives_fixed_read:
  "(\<And>inp bs. length bs = n \<Longrightarrow> P (dec inp bs)) \<Longrightarrow> gives (\<lambda>inp. fixed_read n (dec inp) None inp) P"
  by (auto simp: gives_def fixed_read_def read_pos_def split: if_splits)

lemmas fixed_readers = fixed_reads [of None, THEN ext]

lemma gives_fixed:
  "gives (readByte None) (in_uint 1)" "gives (readShort None) (in_sint 2)" "gives (readInt None) (in_sint 4)"
  "gives (readLong None) long_ok"
proof -
  have "long_ok (dec_long be bs)" if "length bs = 8" for be bs
    using sint_val_bounds [of "take 4 bs" be] sint_val_bounds [of "drop 4 bs" be] that
    by (cases be) (simp_all add: long_ok_def dec_long_def Let_def)
  then show "gives (readLong None) long_ok" unfolding fixed_readers by (rule gives_fixed_read)
  show "gives (readByte None) (in_uint 1)"
    unfolding fixed_readers by (rule gives_fixed_read) (use uint_val_bounds in metis)
  show "gives (readShort None) (in_sint 2)" "gives (readInt None) (in_sint 4)"
    unfolding fixed_readers by (rule gives_fixed_read, use sint_val_bounds in metis)+
qed

lemma gives_bind:
  assumes "gives r P" and "\<And>x. P x \<Longrightarrow> gives (f x) Q"
  shows "gives (\<lambda>inp. bindR (r inp) (\<lambda>(x, inp). f x inp)) Q"
  using assms unfolding gives_def by (auto simp: bindR_Inr_iff) blast

lemma gives_True [simp]: "gives r (\<lambda>_. True)"
  by (simp add: gives_def)

lemma gives_value: "gives r P \<Longrightarrow> (\<And>x. P x \<Longrightarrow> Q (f x)) \<Longrightarrow> gives (\<lambda>inp. as_value f (r inp)) Q"
  by (auto simp: gives_def as_value_def bindR_Inr_iff)

lemma gives_done: "Q x \<Longrightarrow> gives (\<lambda>inp. Inr (x, inp)) Q"
  by (simp add: gives_def)

lemma gives_times:
  assumes "gives rd P" shows "gives (read_times rd n) (list_all P)"
proof -
  have "read_times rd n inp = Inr (vs, inp') \<Longrightarrow> list_all P vs" for inp vs inp'
    using assms by (induction n arbitrary: inp vs) (fastforce simp: gives_def bindR_Inr_iff)+
  then show ?thesis by (simp add: gives_def)
qed

lemma number_in_int: "ok n \<Longrightarrow> \<bar>n\<bar> < 2 ^ 53 \<Longrightarrow> number_in ok (JNumber (int_to_double n))"
  by (simp add: number_in_def int_to_double_trunc)

lemma number_in_small:
  "in_uint 1 n \<Longrightarrow> number_in (in_uint 1) (JNumber (int_to_double n))"
  "in_sint 2 n \<Longrightarrow> number_in (in_sint 2) (JNumber (int_to_double n))"
  "in_sint 4 n \<Longrightarrow> number_in (in_sint 4) (JNumber (int_to_double n))"
  by (rule number_in_int; simp add: in_uint_def in_sint_def abs_less_iff)+

lemma scalars_typed:
  "gives (scalar_read env ByteSerializer) (scalar_type ByteSerializer)"
  "gives (scalar_read env ShortSerializer) (scalar_type ShortSerializer)"
  "gives (scalar_read env IntegerSerializer) (scalar_type IntegerSerializer)"
  "gives (scalar_read env LongSerializer) (scalar_type LongSerializer)"
  unfolding scalar_read.simps scalar_type.simps
  subgoal by (rule gives_value [OF gives_fixed(1)]) (rule number_in_small)
  subgoal by (rule gives_value [OF gives_fixed(2)]) (rule number_in_small)
  subgoal by (rule gives_value [OF gives_fixed(3)]) (rule number_in_small)
  subgoal by (rule gives_value [OF gives_fixed(4)]) simp
  done

lemma uuid_typed: "gives (scalar_read env UuidSerializer) (scalar_type UuidSerializer)"
  unfolding scalar_read.simps by (intro gives_bind [OF gives_fixed(4)] gives_done) simp

lemma other_scalars_typed:
  "ser \<in> {StringSerializer, DoubleSerializer, BooleanSerializer, NullSerializer, FloatSerializer, DateSerializer,
     ByteArraySerializer, CharSerializer, JavaClassSerializer} \<Longrightarrow> gives (scalar_read env ser) (scalar_type ser)"
  by (auto simp: gives_def as_value_def bindR_Inr_iff string_value_def new_Date_def split: option.splits)

lemma scalar_read_typed: "gives (scalar_read env ser) (scalar_type ser)"
proof (cases "ser \<in> {StringSerializer, DoubleSerializer, BooleanSerializer, NullSerializer, FloatSerializer, DateSerializer,
     ByteArraySerializer, CharSerializer, JavaClassSerializer}")
  case True
  then show ?thesis by (rule other_scalars_typed)
next
  case False
  then show ?thesis using scalars_typed [of env] uuid_typed [of env]
    by (cases ser) (simp_all add: gives_def del: scalar_type.simps)
qed

lemma array_read_typed:
  assumes "element_serializer ser = Some el" shows "gives (array_read env el) (typed env s ser)"
proof -
  have "gives (readArray (scalar_read env el) None) (pred_option (list_all (scalar_type el)))"
    using gives_times [OF scalar_read_typed [of env el], unfolded gives_def]
    by (fastforce simp: gives_def readArray_def Let_def bindR_Inr_iff split: if_splits)
  then show ?thesis
    unfolding array_read_def
    by (rule gives_value) (auto intro: typed.array [OF assms] typed.null_array [OF assms] split: option.splits)
qed

subsection \<open>Identified objects\<close>

text \<open>\<open>sound env s x\<close>: the fields of the object are in range, and its values are typed.\<close>

definition sound :: "'o ser_env \<Rightarrow> 'o ser_service \<Rightarrow> 'o identified \<Rightarrow> bool" where
  "sound env s x \<longleftrightarrow> fields_in_range x \<and> list_all (known env s) (inner_values x)"

lemma gives_nested: "gives ro K \<Longrightarrow> (\<And>v. K v \<Longrightarrow> gives (f v) Q) \<Longrightarrow> gives (read_nested_then ro f) Q"
  unfolding read_nested_then_def [abs_def] by (rule gives_bind)

lemma gives_int: "(\<And>n. in_sint 4 n \<Longrightarrow> gives (f n) Q) \<Longrightarrow> gives (read_int_then f) Q"
  unfolding read_int_then_def [abs_def] by (rule gives_bind [OF gives_fixed(3)])

lemma gives_string: "(\<And>x. gives (f x) Q) \<Longrightarrow> gives (read_string_then f) Q"
  unfolding read_string_then_def [abs_def] by (rule gives_bind [OF gives_True])

lemma gives_counted: "gives rd P \<Longrightarrow> (\<And>xs. list_all P xs \<Longrightarrow> Q (f xs)) \<Longrightarrow> gives (read_counted rd f) Q"
  unfolding read_counted_def [abs_def]
  by (rule gives_bind [OF gives_True], rule gives_bind [OF gives_times]) (auto intro: gives_done)

lemma gives_bind_any:
  "(\<And>x. gives (f x) Q) \<Longrightarrow> gives (\<lambda>inp. bindR (r inp) (\<lambda>(x, inp). f x inp)) Q"
  by (rule gives_bind [OF gives_True])

lemma gives_anchor:
  assumes "gives ro K"
  shows "gives (read_anchor ro) (\<lambda>a. case a of Anchor p k v \<Rightarrow> in_sint 4 p \<and> K k \<and> K v)"
  unfolding read_anchor_def by (intro gives_int gives_nested [OF assms] gives_done) simp

lemma gives_if: "(c \<Longrightarrow> gives f Q) \<Longrightarrow> (\<not> c \<Longrightarrow> gives g Q) \<Longrightarrow> gives (\<lambda>inp. if c then f inp else g inp) Q"
  by (cases c) simp_all

lemma gives_error: "gives (\<lambda>inp. Inl e) Q"
  by (simp add: gives_def)

lemma anchors_sound:
  "list_all (case_anchor (\<lambda>p k v. in_sint 4 p \<and> K k \<and> K v)) as \<Longrightarrow>
     list_all (case_anchor (\<lambda>p _ _. in_sint 4 p)) as \<and> list_all K (concat (map (case_anchor (\<lambda>_ k v. [k, v])) as))"
  by (induction as) (auto split: anchor.splits)

lemma predicate_sound:
  assumes "gives ro (known env s)" shows "gives (predicateFactory ro cid) (sound env s)"
  unfolding predicateFactory_def [abs_def]
  by (intro gives_if gives_string gives_int gives_nested [OF assms] gives_counted [OF assms] gives_counted [OF gives_anchor [OF assms]]
    gives_bind_any gives_done gives_error) (simp_all add: sound_def anchors_sound)

lemma aggregator_sound: "gives (aggregatorFactory ro cid) (sound env s)"
proof (cases "map_of aggregator_ids cid")
  case (Some c)
  show ?thesis
    unfolding aggregatorFactory_def [abs_def] Some option.case
    by (intro gives_string gives_bind_any gives_done) (simp add: sound_def)
qed (simp add: aggregatorFactory_def gives_def)

lemma rest_value_sound: "gives (restValueFactory cid) (sound env s)"
  unfolding restValueFactory_def [abs_def]
  by (intro gives_if gives_string gives_done gives_error) (simp add: sound_def)

lemma topic_message_sound:
  assumes "gives ro (known env s)" shows "gives (reliableTopicMessageFactory ro cid) (sound env s)"
  unfolding reliableTopicMessageFactory_def [abs_def]
  by (intro gives_if gives_bind [OF gives_fixed(4)] gives_nested [OF assms] gives_bind_any gives_done gives_error) (simp add: sound_def)

lemma cluster_data_sound: "gives (clusterDataFactory cid) (sound env s)"
  unfolding clusterDataFactory_def [abs_def]
  by (intro gives_if gives_int gives_bind [OF gives_fixed(1)] gives_string gives_done gives_error) (simp add: sound_def)

lemma object_typed:
  assumes "gives r (sound env s)"
  shows "gives (\<lambda>inp. as_value JIdentified (r inp)) (typed env s IdentifiedDataSerializableSerializer)"
  by (rule gives_value [OF assms], rule typed.object) (auto simp: sound_def known_def list_all_iff)

lemma user_object_typed:
  assumes "fid \<noteq> PREDICATE_FACTORY_ID" "fid \<noteq> RELIABLE_TOPIC_MESSAGE_FACTORY_ID" "fid \<noteq> CLUSTER_DATA_FACTORY_ID"
    "fid \<noteq> AGGREGATOR_FACTORY_ID" "fid \<noteq> REST_VALUE_FACTORY_ID"
  shows "gives (\<lambda>inp. case user_factories env fid of None \<Rightarrow> Inl RangeError | Some f \<Rightarrow> f cid inp)
    (typed env s IdentifiedDataSerializableSerializer)"
  using assms by (auto simp: gives_def split: option.splits intro: typed.user_object)

lemma identified_typed:
  assumes "gives ro (known env s)" shows "gives (identified_read env ro) (typed env s IdentifiedDataSerializableSerializer)"
  unfolding identified_read_def [abs_def]
  by (intro gives_if gives_bind_any gives_int gives_error user_object_typed object_typed predicate_sound topic_message_sound
    cluster_data_sound aggregator_sound rest_value_sound assms)

lemma list_typed:
  assumes "gives ro (known env s)" and "ser \<in> {LinkedListSerializer, ArrayListSerializer}"
  shows "gives (list_read ro) (typed env s ser)"
  unfolding list_read_def [abs_def]
  by (intro gives_bind_any gives_if gives_bind [OF gives_times [OF assms(1)]] gives_done typed.null_list [OF assms(2)]
    typed.listed [OF assms(2)]) (auto simp: list_all_iff known_def)

lemma serializer_typed:
  assumes "gives ro (known env s)"
  shows "gives (serializer_read env ro ser) (typed env s ser)"
proof (cases "element_serializer ser")
  case (Some el)
  have "serializer_read env ro ser = array_read env el"
    using Some by (cases ser) (simp_all add: serializer_read_def fun_eq_iff)
  then show ?thesis by (simp add: array_read_typed [OF Some])
next
  case None
  have sc: "gives (scalar_read env ser) (typed env s ser)"
    using scalar_read_typed [of env ser] by (auto simp: gives_def intro: typed.scalar)
  note lists = list_typed [OF assms]
  show ?thesis
    using sc lists identified_typed [OF assms] None
    by (cases ser)
      (auto simp: gives_def serializer_read_def json_read_def json_value_read_def bindR_Inr_iff
        intro: typed.json_value typed.json typed.portable typed.custom split: option.splits)
qed

lemma nested_typed: "gives (readObject env s n) (known env s)"
proof (induction n)
  case (Suc n)
  have "known env s v" if r: "readObject env s (Suc n) inp = Inr (v, inp')" for inp v inp'
  proof -
    obtain i inp1 where "(case findSerializerById s i of Found ser \<Rightarrow> serializer_read env (readObject env s n) ser inp1
        | _ \<Rightarrow> Inl TypeError) = Inr (v, inp')"
      using r by (auto simp: readObject.simps bindR_Inr_iff)
    then obtain ser where "findSerializerById s i = Found ser" "serializer_read env (readObject env s n) ser inp1 = Inr (v, inp')"
      by (cases "findSerializerById s i") simp_all
    then show ?thesis using serializer_typed [OF Suc.IH, of ser] unfolding known_def gives_def by blast
  qed
  then show ?case by (simp add: gives_def)
qed (simp add: gives_def readObject.simps)

text \<open>
  C6. What is read has the type of its serializer. Take a service built from any configuration and binary data with any content: if the
  data carries the type id of one of the default serializers, then a value that \<open>toObject\<close> gives has the type of that serializer, its numbers
  are in the range of their types, and the values inside lists, predicates and other objects have in turn the type of a serializer
  that the service knows. Custom serializers cannot change this, because they cannot take the id of a default serializer.
\<close>

theorem read_values_typed:
  assumes "newSerializationService cfg = Inr s" and "(name, ser) \<in> set (default_serializers (jsonEager cfg))"
    and "getType d = Inr (serializer_id ser)" and "toObject env s fuel (JData d) = Inr v"
  shows "typed env s ser v"
  using assms(3,4) found_default(2) [OF newSerializationService_ok [OF assms(1)] assms(2)]
    serializer_typed [OF nested_typed, unfolded gives_def]
  by (fastforce simp: toObject_def bindR_Inr_iff)

theorem read_values_typed_witness:
  "\<exists>s. newSerializationService (sample_ser_config ''double'') = Inr s \<and>
     typed sample_ser_env s IntegerSerializer (JNumber (int_to_double (- 7)))"
proof -
  obtain s where s: "newSerializationService (sample_ser_config ''double'') = Inr s" by (rule sample_service_exists)
  note ok = newSerializationService_ok [OF s]
  let ?b = "enc_int True 0 @ enc_int True (- 7) @ enc_int True (- 7)"
  have "readInt None (ObjectDataInput ?b DATA_OFFSET True) = Inr (- 7, consumed (ObjectDataInput ?b DATA_OFFSET True) (enc_int True (- 7)))"
    using readInt_at [of "ObjectDataInput ?b DATA_OFFSET True" "- 7"]
    by (simp add: at_bytes_def ObjectDataInput_def heap_data_offsets size_defs in_sint_ids)
  then have "toObject sample_ser_env s 0 (JData \<lparr>payload = Some ?b\<rparr>) = Inr (JNumber (int_to_double (- 7)))"
    using found_default(2) [OF ok default_member(7)] ok
    by (simp add: toObject_def payload_type in_sint_ids toBuffer_def scalar_serializers as_value_def service_ok_def sample_ser_config_def)
  from read_values_typed [OF s default_member(7) _ this] s show ?thesis by (auto simp: payload_type in_sint_ids)
qed

end
