(* ===== verification/SerializationErrors.thy ===== *)
theory SerializationErrors
  imports SerializationTheorems
begin

section \<open>Where the serialization service fails\<close>

text \<open>
  The values for which no serializer is found, the numbers that come back as others, and data that is never read to its end.
\<close>

subsection \<open>Values without a serializer\<close>

text \<open>Every name of the registry stands for the id of a serializer of the registry.\<close>

definition names_registered :: "'o ser_service \<Rightarrow> bool" where
  "names_registered s \<longleftrightarrow> (\<forall>name i. map_of (serializerNameToId s) name = Some i \<longrightarrow> map_of (registry s) i \<noteq> None)"

lemma registerSerializer_names:
  "registerSerializer name ser s = Inr s' \<Longrightarrow> names_registered s \<Longrightarrow> names_registered s'"
  using registerSerializer_effect [of name ser s s'] by (auto simp: names_registered_def split: if_splits)

lemma register_all_names: "register_all ns s = Inr s' \<Longrightarrow> names_registered s \<Longrightarrow> names_registered s'"
  by (induction ns s rule: register_all.induct) (auto simp: bindR_Inr_iff intro: registerSerializer_names)

lemma register_customs_names: "register_customs cs s = Inr s' \<Longrightarrow> names_registered s \<Longrightarrow> names_registered s'"
  by (induction cs s rule: register_customs.induct) (auto simp: bindR_Inr_iff intro: registerSerializer_names)

lemma service_names:
  assumes "newSerializationService cfg = Inr s" shows "names_registered s"
proof -
  let ?s0 = "\<lparr>registry = [], serializerNameToId = [], serializationConfig = cfg\<rparr>"
  obtain s1 s2 where s: "registerDefaultSerializers ?s0 = Inr s1" "registerCustomSerializers s1 = Inr s2" "registerGlobalSerializer s2 = Inr s"
    using assms by (auto simp: newSerializationService_def bindR_Inr_iff)
  have "names_registered ?s0" by (simp add: names_registered_def)
  then have "names_registered s1" using s(1) register_all_names by (auto simp: registerDefaultSerializers_def)
  then have "names_registered s2" using s(2) register_customs_names by (auto simp: registerCustomSerializers_def)
  then show ?thesis
    using s(3) registerSerializer_names by (auto simp: registerGlobalSerializer_def bindR_Inr_iff split: option.splits)
qed

lemma found_or_null:
  assumes "names_registered s" shows "findSerializerByName s name arr \<noteq> UndefinedLookup"
proof -
  have "(case map_of (serializerNameToId s) n of None \<Rightarrow> NullLookup | Some i \<Rightarrow> findSerializerById s i) \<noteq> UndefinedLookup" for n
    using assms by (fastforce simp: names_registered_def findSerializerById_def split: option.splits)
  then show ?thesis unfolding findSerializerByName_def Let_def .
qed

lemma json_found:
  assumes "service_ok cfg s"
  obtains ser where "findSerializerByName s ''!json'' False = Found ser"
  using found_by_name(1) [OF assms, of "''!json''" "if jsonEager cfg then JsonSerializer else HazelcastJsonValueSerializer"]
  by (auto simp: default_serializers_def)

text \<open>The values for which the search raises, and the error.\<close>

definition unserializable :: "'o ser_env \<Rightarrow> 'o ser_service \<Rightarrow> 'o js_value \<Rightarrow> js_error option" where
  "unserializable env s v =
     (case v of
        JUndefined \<Rightarrow> Some RangeError
      | JArray (JNull # _) \<Rightarrow> Some AssertionError
      | JObject _ x \<Rightarrow>
          if obj_identified env x = None \<and> \<not> obj_portable env x
          then (case obj_customId env x of
              Some i \<Rightarrow> if 1 \<le> i \<and> map_of (registry s) i = None then Some TypeError else None
            | None \<Rightarrow> None)
          else None
      | _ \<Rightarrow> None)"

text \<open>The end of the search: custom, global and JSON serializers.\<close>

lemma search_goes_on:
  assumes "service_ok cfg s" "names_registered s" and "v \<noteq> JUndefined" "v \<noteq> JNull"
    and "lookupDefaultSerializer env s v = Inr l" "l \<noteq> UndefinedLookup"
  shows "findSerializerFor env s v = Inl e \<longleftrightarrow> l = NullLookup \<and> lookupCustomSerializer env s v = UndefinedLookup \<and> e = TypeError"
proof -
  obtain ser where "findSerializerByName s ''!json'' False = Found ser" by (rule json_found [OF assms(1)])
  moreover have "lookupGlobalSerializer s \<noteq> UndefinedLookup" by (simp add: lookupGlobalSerializer_def found_or_null [OF assms(2)])
  ultimately show ?thesis
    using assms(3-6) by (auto simp: findSerializerFor_def or_else_def split: lookup.splits)
qed

lemma plain_lookup:
  assumes "names_registered s" and "getType_of v = Inr t" and "\<And>vs. v \<noteq> JArray vs"
  shows "\<exists>l. lookupDefaultSerializer env s v = Inr l \<and> l \<noteq> UndefinedLookup"
  using assms found_or_null [OF assms(1)] by (cases v) (auto simp: lookup_defs)

lemma array_lookup:
  assumes "names_registered s" and "\<forall>ws. vs \<noteq> JNull # ws"
  shows "\<exists>l. lookupDefaultSerializer env s (JArray vs) = Inr l \<and> l \<noteq> UndefinedLookup"
proof -
  have "x \<noteq> JNull \<Longrightarrow> \<exists>t. getType_of x = Inr t" for x :: "'a js_value" by (cases x) auto
  then show ?thesis using assms(2) found_or_null [OF assms(1)] by (cases vs) (fastforce simp: lookup_defs)+
qed

lemma object_lookup:
  assumes "service_ok cfg s"
  shows "lookupDefaultSerializer env s (JObject pk x) = Inr NullLookup \<longleftrightarrow> obj_identified env x = None \<and> \<not> obj_portable env x"
proof -
  have "findSerializerByName s ''identified'' False \<noteq> NullLookup" "findSerializerByName s ''!portable'' False \<noteq> NullLookup"
    using found_by_name(1) [OF assms, of "''identified''" IdentifiedDataSerializableSerializer]
      found_by_name(1) [OF assms, of "''!portable''" PortableSerializer] by (simp_all add: default_serializers_def)
  moreover have "findSerializerByName s ''object'' False = NullLookup"
    using not_registered [OF assms, of "''object''"]
    by (simp add: findSerializerByName_def default_name_set_def default_serializers_def)
  ultimately show ?thesis by (cases "obj_identified env x") (auto simp: lookup_defs)
qed

lemma custom_lookup:
  "lookupCustomSerializer env s v = UndefinedLookup \<longleftrightarrow>
     (\<exists>pk x i. v = JObject pk x \<and> obj_customId env x = Some i \<and> 1 \<le> i \<and> map_of (registry s) i = None)"
  by (cases v) (auto simp: lookupCustomSerializer_def findSerializerById_def split: option.splits)

lemma plain_value_error:
  assumes ok: "service_ok cfg s" and names: "names_registered s"
    and t: "getType_of v = Inr t" and v: "\<And>vs. v \<noteq> JArray vs" "v \<noteq> JUndefined"
  shows "findSerializerFor env s v = Inl e \<longleftrightarrow> unserializable env s v = Some e"
proof -
  obtain l where l: "lookupDefaultSerializer env s v = Inr l" "l \<noteq> UndefinedLookup" using plain_lookup [OF names t v(1)] by blast
  have "v \<noteq> JNull" using t by auto
  note g = search_goes_on [OF ok names v(2) this l, of e]
  show ?thesis
  proof (cases "\<exists>pk x. v = JObject pk x")
    case True
    then obtain pk x where x: "v = JObject pk x" by blast
    have "l = NullLookup \<longleftrightarrow> obj_identified env x = None \<and> \<not> obj_portable env x"
      using object_lookup [OF ok, of env pk x] l(1) x by simp
    then show ?thesis unfolding g custom_lookup by (simp add: x unserializable_def split: option.splits) blast
  next
    case False
    moreover have "unserializable env s v = None" using False v by (cases v) (auto simp: unserializable_def)
    ultimately show ?thesis unfolding g custom_lookup by simp
  qed
qed



subsection \<open>Negative bytes\<close>

text \<open>
  C37. With the number type \<open>byte\<close>, which is documented as an 8-bit signed integer, a negative number comes back as another one:
  \<open>readByte\<close> reads the byte as an unsigned number, so \<open>n\<close> becomes \<open>n + 256\<close>.
\<close>

theorem negative_bytes_change:
  assumes "newSerializationService cfg = Inr s" and "defaultNumberType cfg = ''byte''" and "- 128 \<le> n" "n < 0"
  shows "\<exists>d b. toData env s (JNumber (int_to_double n)) = Inr d \<and> payload d = Some b \<and>
    (\<forall>fuel \<ge> length b. toObject env s fuel (JData d) = Inr (JNumber (int_to_double (n + 256))))"
proof -
  note ok = newSerializationService_ok [OF assms(1)]
  let ?v = "JNumber (int_to_double n)"
  have w: "enc_byte be n = enc_byte be (n + 256)" for be
    by (simp add: enc_byte_def)
  have "bits_of (int_to_double n) = n" using assms(3,4) by (simp add: bits_of_def int_to_double_trunc abs_less_iff)
  then have tr: "transfers be (scalar_write env ByteSerializer ?v) (scalar_read env ByteSerializer) (JNumber (int_to_double (n + 256)))
      (enc_byte be n)" for be
    using assms(3,4) writeByte_appends [of _ "memory env" n be] readByte_at [of _ be "n + 256"]
    by (auto simp: transfers_def number_of_def as_value_def w in_uint_def)
  have l: "lookupDefaultSerializer env s ?v = Inr (Found ByteSerializer)" by (rule number_by_type [OF ok]) (simp add: assms(2))
  show ?thesis
    by (rule data_transferred [OF _ scalar_chosen [OF l] found_default(2) [OF ok default_member(3)]])
      (use tr in \<open>simp_all add: defaultPartitionStrategy_def scalar_serializers in_sint_ids\<close>)
qed

theorem negative_bytes_change_witness:
  "\<exists>s d b. newSerializationService (sample_ser_config ''byte'') = Inr s \<and> toData sample_ser_env s (JNumber (int_to_double (- 1))) = Inr d \<and>
     payload d = Some b \<and> (\<forall>fuel \<ge> length b. toObject sample_ser_env s fuel (JData d) = Inr (JNumber (int_to_double 255)))"
proof -
  obtain s where s: "newSerializationService (sample_ser_config ''byte'') = Inr s" by (rule sample_service_exists)
  then show ?thesis using negative_bytes_change [OF s, of "- 1" sample_ser_env] by (simp add: sample_ser_config_def)
qed

subsection \<open>Data that is never read to its end\<close>

text \<open>
  A list of two elements that starts with a byte array of length -16. Reading the array moves the cursor back to the type id of the
  list itself.
\<close>

definition looping_payload :: "int \<Rightarrow> buffer" where
  "looping_payload hash = enc_int True hash @ enc_int True (-29) @ enc_int True 2 @ enc_int True (-12) @ enc_int True (-16)"

abbreviation looping_input :: "int \<Rightarrow> int \<Rightarrow> data_input" where
  "looping_input hash p \<equiv> \<lparr>ibuf = looping_payload hash, offset = 8, ibigEndian = True, ipos = p\<rparr>"

lemma looping_reads:
  "readInt None (looping_input h 4) = Inr (- 29, looping_input h 8)"
  "readInt None (looping_input h 8) = Inr (2, looping_input h 12)"
  "readInt None (looping_input h 12) = Inr (- 12, looping_input h 16)"
  "readInt None (looping_input h 16) = Inr (- 16, looping_input h 20)"
  using readInt_at [of "looping_input h 4" "- 29"] readInt_at [of "looping_input h 8" 2] readInt_at [of "looping_input h 12" "- 12"]
    readInt_at [of "looping_input h 16" "- 16"]
  by (simp_all add: at_bytes_def looping_payload_def in_sint_ids consumed_def)

lemma looping_serializers:
  assumes "service_ok cfg s"
  shows "findSerializerById s (- 29) = Found ArrayListSerializer" "findSerializerById s (- 12) = Found ByteArraySerializer"
  using found_default(2) [OF assms, of "''arrayList''" ArrayListSerializer] found_default(2) [OF assms default_member(11)]
  by (simp_all add: default_serializers_def)

lemma looping_list:
  assumes "service_ok cfg s"
  shows "list_read (readObject env s n) (looping_input h 8) = Inl NoReturn"
proof (induction n)
  case (Suc n)
  have "readObject env s (Suc n) (looping_input h 12) = Inr (JBuffer (js_slice (looping_payload h) 20 4), looping_input h 4)"
    by (simp add: readObject.simps looping_reads looping_serializers [OF assms] serializer_read_def as_value_def readByteArray_def size_defs)
  moreover have "readObject env s (Suc n) (looping_input h 4) = Inl NoReturn"
    using Suc by (simp add: readObject.simps looping_reads looping_serializers [OF assms] serializer_read_def)
  ultimately show ?case
    by (simp add: list_read_def [of "readObject env s (Suc n)"] looping_reads size_defs eval_nat_numeral del: readObject.simps)
qed (simp add: list_read_def looping_reads readObject.simps size_defs eval_nat_numeral)

text \<open>
  C36. \<open>toObject\<close> does not return on every input. A length in the data may be negative, and \<open>readByteArray\<close> then moves
  the cursor backwards: data of 20 bytes makes \<open>readObject\<close> call itself without end, whatever depth of calls is allowed.
\<close>

theorem looping_data_never_read:
  assumes "newSerializationService cfg = Inr s" and "isBigEndian cfg"
  shows "toObject env s fuel (JData \<lparr>payload = Some (looping_payload hash)\<rparr>) = Inl NoReturn"
proof -
  note ok = newSerializationService_ok [OF assms(1)]
  have "getType \<lparr>payload = Some (looping_payload hash)\<rparr> = Inr (- 29)"
    by (simp add: looping_payload_def payload_type in_sint_ids)
  then show ?thesis
    using ok assms(2) looping_list [OF ok, of env fuel hash]
    by (simp add: toObject_def toBuffer_def ObjectDataInput_def heap_data_offsets size_defs service_ok_def serializer_read_def
      looping_serializers [OF ok])
qed

theorem looping_data_never_read_witness:
  "\<exists>s. newSerializationService (sample_ser_config ''double'') = Inr s \<and>
     toObject sample_ser_env s 1000 (JData \<lparr>payload = Some (looping_payload 0)\<rparr>) = Inl NoReturn"
proof -
  obtain s where s: "newSerializationService (sample_ser_config ''double'') = Inr s" by (rule sample_service_exists)
  then show ?thesis using looping_data_never_read [OF s] by (simp add: sample_ser_config_def)
qed

end
