(* ===== verification/Spec2Isabelle.thy ===== *)
theory Spec2Isabelle
  imports ObjectData NearCachedMap InvocationRuns SerializationTypes SerializationErrors
begin

text \<open>
  Verification of the Hazelcast Node.js client.

  \<^bold>\<open>The program.\<close> The client (src/src) connects an application to a cluster. A value of the application is turned into
  binary data by the serialization service; a request is a message of frames, which a connection writes to a socket;
  the invocation service gives every request a correlation id, chooses a connection for it by partition, member or
  load balancer, and settles the promise of the caller when the response and its backups have arrived. Bytes
  that arrive are cut into frames, messages and reassembled fragments. The cluster service follows the
  list of members, the partition service the owners of the partitions. A map may have a near cache, which the members
  invalidate by events.

  \<^bold>\<open>Foundations.\<close> \<open>Prelude\<close> has the errors and the result type \<open>'a res\<close> (\<open>Inl\<close> an error, \<open>Inr\<close> a
  result) with its sequencing \<open>bindR\<close>; \<open>State_Res\<close> the operations that keep their changes when they raise. \<open>Js_Number\<close>,
  \<open>Js_String\<close>, \<open>Node_Buffer\<close> and \<open>Js_Long\<close> model what the sources use of the language and its runtime: bitwise
  operators on 32-bit words, UTF-16 strings and their UTF-8 encoding, buffers with range checks, and the arithmetic of the \<open>long\<close> package,
  which is a record of operations with the laws \<open>long_laws\<close> and a realisation \<open>word_longs\<close>.

  \<^bold>\<open>Serialization\<close> (src/src/serialization, src/src/aggregation).
  \<^item> \<open>BitsUtil\<close>, \<open>HeapData\<close>, \<open>ObjectDataOutput\<close> and \<open>ObjectDataInput\<close> have the classes of these names, one function per method.
  \<open>ObjectData\<close> shows that what the output writes the input reads back, through the locale \<open>data_codec\<close>, which is interpreted for
  every type of field.
  \<^item> \<open>Js_Values\<close> has the values of an application as a datatype (numbers by the bits of their double), \<open>DefaultSerializers\<close> the
  serializer classes, \<open>IdentifiedObjects\<close> the factories and readers of predicates, aggregators and other objects, and
  \<open>SerializationService\<close> the registry, the choice of a serializer, and \<open>toData\<close> and \<open>toObject\<close>.
  \<^item> \<open>SerializationProofs\<close> shows the invariant of the registry. \<open>SerializationRoundtrip\<close> and \<open>SerializationObjects\<close> relate
  each writer to its reader, with rules that follow the composition of the code. \<open>SerializationTheorems\<close> concludes that stored values
  are restored. \<open>SerializationTypes\<close> is the type soundness of reading arbitrary bytes, and \<open>SerializationErrors\<close> says
  exactly for which values no serializer is found, and shows two inputs that are not treated as documented.
  \<^item> \<open>Murmur\<close> shows that the hash of the data is MurmurHash3.

  \<^bold>\<open>Protocol\<close> (src/src/protocol, src/src/codec).
  \<^item> \<open>ClientMessage\<close> has frames and messages. \<open>FixSizedTypesCodec\<close>, \<open>CodecUtil\<close>, \<open>BuiltinCodecs\<close> and \<open>CustomCodecs\<close>
  have the codecs; the locales \<open>fixed_codec\<close>, \<open>entry_codec\<close>, \<open>frame_codec\<close>, \<open>nonnull_codec\<close> and \<open>entry_frame_codec\<close>
  are the contracts between an encoder and its decoder, and lists, maps and optional values are built on them.
  \<^item> \<open>ProtoValues\<close> and \<open>Protocol\<close> put them together: values that are encoded, sent in any chunks and received decode to
  the same values. \<open>Hazelcast_Errors\<close> and \<open>ErrorFactory\<close> have the error classes and show the same for the errors of members.

  \<^bold>\<open>Connections\<close> (src/src/network/Connection.ts).
  \<^item> \<open>ClientMessageReader\<close> and \<open>FragmentedClientMessageHandler\<close> refine a parser of the concatenated bytes and a function on the frames received;
  \<open>Connection\<close> composes them.
  \<^item> \<open>PipelinedWriter\<close> is a step relation of the writer, the socket and the event loop, with its invariants.

  \<^bold>\<open>Services\<close> (src/src/invocation, src/src/PartitionService.ts, src/src/util).
  \<^item> \<open>ClusterService\<close> has the member list, the events, the load balancers and the registry of active connections; \<open>Uuid\<close> the string keys
  of the members; \<open>PartitionService\<close> the partition table.
  \<^item> \<open>InvocationService\<close> has the operations of the service, \<open>InvocationProofs\<close> the step relation \<open>svc_step\<close> of the event loop with
  its invariants, \<open>InvocationRuns\<close> the properties of all runs.

  \<^bold>\<open>Near cache\<close> (src/src/nearcache, src/src/proxy/NearCachedMapProxy.ts).
  \<^item> \<open>DataStoreHashMap\<close> refines a finite map (locale \<open>keyed_store\<close>). \<open>NearCache\<close> has the cache with its records in a heap,
  \<open>NearCacheProofs\<close> its invariant and the contract \<open>reservation_cache\<close>; \<open>NearCachedMap\<close> shows that the
  cache is coherent with the cluster in every interleaving.

  \<^bold>\<open>Loops and fuel.\<close> Loops over lists and buffers are total functions. The loops of the message reader and of the
  data handler may run forever, so they are partial functions into \<open>option\<close>; that they return on every stream of valid messages is
  proved. The loops that decode lists of frames get one unit of fuel more than there are frames left, which is enough for every
  decoder that consumes a frame (lemma in \<open>CodecUtil\<close>). \<open>readObject\<close> gets the number of nested calls that are allowed; for stored values
  the length of the data is enough (\<open>stored_values_restored\<close>), and \<open>looping_data_never_read\<close> is an input for which no number is.

  \<^bold>\<open>What is assumed.\<close> The laws of the \<open>long\<close> package, as hypotheses. Parameters without hypotheses are the content of uninitialised
  buffers, random choices, the methods of application objects, custom serializers and user factories, JSON, and the conversions of the
  engine between numbers.

  \<^bold>\<open>Not modelled.\<close>
  \<^item> The request and event codecs of src/src/codec are generated; each is a sequence of calls of the modelled codecs.
  \<^item> The proxies of src/src/proxy, the CP subsystem, SQL and the listener services encode a request, invoke it and decode
  the response; their state is on the members. The codecs of SQL pages, dates and big decimals belong to SQL.
  \<^item> Opening connections, authentication, heartbeats, reconnecting, discovery, statistics, logging and the near cache's repairing
  task are input, output and timers.
  \<^item> Portable serialization has a format of its own with versioned class definitions; its serializer is a parameter.
  \<^item> Configuration files are read once; the values that the services use are fields of their records.
\<close>

end
